(* ===== verification/Qubes_Prelude.thy ===== *)
theory Qubes_Prelude
  imports Main "HOL-Library.Word" "HOL-Library.Monad_Syntax"
begin

text \<open>
  Shared vocabulary of the development: machine types, checked buffer accesses, C strings,
  errno values, and the generic list lemmas the component theories use.

  A C buffer is the list of its bytes.  Every read and write goes through \<open>rd\<close> and \<open>wr\<close>,
  which are \<open>None\<close> outside the buffer, so an out-of-bounds access (undefined behaviour in C)
  is a value of the model, and memory safety of a routine is the theorem that it is never
  \<open>None\<close>.
\<close>

type_synonym u8 = "8 word"
type_synonym u16 = "16 word"
type_synonym u32 = "32 word"
type_synonym u64 = "64 word"
type_synonym bytes = "u8 list"

named_theorems buf_simps \<open>evaluation of checked buffer accesses\<close>
named_theorems errno_simps \<open>values of errno constants\<close>

section \<open>Checked buffer accesses\<close>

definition rd :: "'a list \<Rightarrow> nat \<Rightarrow> 'a option" where
  "rd b i = (if i < length b then Some (b ! i) else None)"

definition wr :: "'a list \<Rightarrow> nat \<Rightarrow> 'a \<Rightarrow> 'a list option" where
  "wr b i v = (if i < length b then Some (b[i := v]) else None)"

lemma rd_Some_iff: "rd b i = Some x \<longleftrightarrow> i < length b \<and> b ! i = x"
  by (simp add: rd_def)

lemma rd_None_iff: "rd b i = None \<longleftrightarrow> length b \<le> i"
  by (simp add: rd_def not_less)

lemma rd_Nil [buf_simps]: "rd [] i = None"
  by (simp add: rd_def)

lemma rd_Cons_0 [simp, buf_simps]: "rd (x # xs) 0 = Some x"
  by (simp add: rd_def)

lemma rd_Cons_Suc [simp, buf_simps]: "rd (x # xs) (Suc i) = rd xs i"
  by (simp add: rd_def)

lemma rd_append_left: "i < length xs \<Longrightarrow> rd (xs @ ys) i = Some (xs ! i)"
  by (simp add: rd_def nth_append)

lemma rd_append_right [simp]: "rd (xs @ ys) (length xs + i) = rd ys i"
  by (simp add: rd_def)

lemma rd_append_length [simp]: "rd (xs @ ys) (length xs) = rd ys 0"
  using rd_append_right [of xs ys 0] by simp

lemma rd_drop: "p \<le> length b \<Longrightarrow> rd b (p + i) = rd (drop p b) i"
  by (auto simp add: rd_def)

lemma rd_length: "rd b i = Some x \<Longrightarrow> i < length b"
  by (simp add: rd_Some_iff)

lemma wr_Some_iff: "wr b i v = Some c \<longleftrightarrow> i < length b \<and> c = b[i := v]"
  by (auto simp add: wr_def)

lemma wr_length: "wr b i v = Some c \<Longrightarrow> length c = length b"
  by (auto simp add: wr_Some_iff)

section \<open>C strings\<close>

text \<open>The string a NUL-terminated buffer holds: the bytes before the first NUL.\<close>

definition c_str :: "bytes \<Rightarrow> bytes" where
  "c_str b = takeWhile (\<lambda>c. c \<noteq> 0) b"

definition nul_terminated :: "bytes \<Rightarrow> bool" where
  "nul_terminated b \<longleftrightarrow> 0 \<in> set b"

lemma c_str_no_nul [simp]: "0 \<notin> set (c_str b)"
  by (auto simp add: c_str_def dest: set_takeWhileD)

lemma nul_terminated_split:
  assumes "nul_terminated b"
  obtains junk where "b = c_str b @ 0 # junk"
proof -
  have "dropWhile (\<lambda>c. c \<noteq> 0) b \<noteq> []"
    using assms by (auto simp add: nul_terminated_def dropWhile_eq_Nil_conv)
  moreover from this have "hd (dropWhile (\<lambda>c. c \<noteq> 0) b) = 0"
    using hd_dropWhile [of "\<lambda>c. c \<noteq> 0" b] by simp
  ultimately have "dropWhile (\<lambda>c. c \<noteq> 0) b = 0 # tl (dropWhile (\<lambda>c. c \<noteq> 0) b)"
    by (cases "dropWhile (\<lambda>c. c \<noteq> 0) b") auto
  then have "b = c_str b @ 0 # tl (dropWhile (\<lambda>c. c \<noteq> 0) b)"
    unfolding c_str_def by (metis takeWhile_dropWhile_id)
  then show thesis by (rule that)
qed

lemma c_str_append_nul [simp]: "0 \<notin> set s \<Longrightarrow> c_str (s @ 0 # junk) = s"
  by (induction s) (auto simp add: c_str_def)

lemma nul_terminated_append [simp]: "nul_terminated (s @ 0 # junk)"
  by (simp add: nul_terminated_def)

section \<open>errno values (Linux, asm-generic)\<close>

type_synonym errno = int

abbreviation (input) ENOENT :: errno where "ENOENT \<equiv> 2"
abbreviation (input) EINTR :: errno where "EINTR \<equiv> 4"
abbreviation (input) EAGAIN :: errno where "EAGAIN \<equiv> 11"
abbreviation (input) ENOMEM :: errno where "ENOMEM \<equiv> 12"
abbreviation (input) EEXIST :: errno where "EEXIST \<equiv> 17"
abbreviation (input) EINVAL :: errno where "EINVAL \<equiv> 22"
abbreviation (input) EROFS :: errno where "EROFS \<equiv> 30"
abbreviation (input) ENAMETOOLONG :: errno where "ENAMETOOLONG \<equiv> 36"
abbreviation (input) ENOLINK :: errno where "ENOLINK \<equiv> 67"
abbreviation (input) EILSEQ :: errno where "EILSEQ \<equiv> 84"
abbreviation (input) EOPNOTSUPP :: errno where "EOPNOTSUPP \<equiv> 95"
abbreviation (input) EREMOTEIO :: errno where "EREMOTEIO \<equiv> 121"
abbreviation (input) EDQUOT :: errno where "EDQUOT \<equiv> 122"

section \<open>Words\<close>

lemma unat_le_iff_word: "unat (a :: 'a :: len word) \<le> unat b \<longleftrightarrow> a \<le> b"
  by (simp add: word_le_nat_alt)

lemma unat_u8_less [simp]: "unat (c :: u8) < 256"
proof -
  have "unat c < 2 ^ LENGTH(8)" by (rule unsigned_less)
  then show ?thesis by simp
qed

lemma unat_word_of_nat_small: "n < 2 ^ LENGTH('a) \<Longrightarrow> unat (word_of_nat n :: 'a :: len word) = n"
  by (simp add: unsigned_of_nat take_bit_nat_eq_self)

lemma sint_small: "unat (w :: 'a :: len word) < 2 ^ (LENGTH('a) - 1) \<Longrightarrow> sint w = int (unat w)"
proof -
  assume a: "unat w < 2 ^ (LENGTH('a) - 1)"
  have "sint w = signed_take_bit (LENGTH('a) - 1) (uint w)" by (simp add: sint_uint)
  also have "\<dots> = uint w"
  proof (rule signed_take_bit_int_eq_self)
    show "- (2 ^ (LENGTH('a) - 1)) \<le> uint w" by (rule order_trans [of _ 0]) simp_all
    from a have "int (unat w) < int (2 ^ (LENGTH('a) - 1))" by (simp only: of_nat_less_iff)
    then show "uint w < 2 ^ (LENGTH('a) - 1)" by simp
  qed
  finally show ?thesis by simp
qed

lemma word_eq_of_nat: "unat w = n \<Longrightarrow> w = word_of_nat n"
  by auto

section \<open>Decimal numbers\<close>

text \<open>The digits a \<open>%d\<close> or \<open>%u\<close> conversion prints.\<close>

fun digits :: "nat \<Rightarrow> bytes" where
  "digits n = (if n < 10 then [0x30 + word_of_nat n] else digits (n div 10) @ [0x30 + word_of_nat (n mod 10)])"

declare digits.simps [simp del]

definition decimal :: "int \<Rightarrow> bytes" where
  "decimal i = (if i < 0 then 0x2D # digits (nat (- i)) else digits (nat i))"

lemma length_digits: "n < 10 ^ m \<Longrightarrow> 0 < m \<Longrightarrow> length (digits n) \<le> m"
proof (induction m arbitrary: n)
  case (Suc m)
  show ?case
  proof (cases "n < 10")
    case True
    then show ?thesis by (simp add: digits.simps [of n])
  next
    case False
    with Suc.prems have "m \<noteq> 0" by (cases m) simp_all
    moreover have "n div 10 < 10 ^ m" using Suc.prems by (simp add: div_less_iff_less_mult)
    ultimately have "length (digits (n div 10)) \<le> m" by (intro Suc.IH) simp_all
    with False show ?thesis by (simp add: digits.simps [of n])
  qed
qed simp

text \<open>The conversions \<open>%lx\<close> and \<open>%llx\<close>.\<close>

definition hex_char :: "nat \<Rightarrow> u8" where
  "hex_char d = (if d < 10 then word_of_nat (0x30 + d) else word_of_nat (0x57 + d))"

fun hex :: "nat \<Rightarrow> bytes" where
  "hex n = (if n < 16 then [hex_char n] else hex (n div 16) @ [hex_char (n mod 16)])"

declare hex.simps [simp del]

lemma hex_ne [simp]: "hex n \<noteq> []"
  by (subst hex.simps) simp

lemma length_hex: "n < 16 ^ m \<Longrightarrow> 0 < m \<Longrightarrow> length (hex n) \<le> m"
proof (induction m arbitrary: n)
  case (Suc m)
  show ?case
  proof (cases "n < 16")
    case True
    then show ?thesis by (simp add: hex.simps [of n])
  next
    case False
    with Suc.prems have "m \<noteq> 0" by (cases m) simp_all
    moreover have "n div 16 < 16 ^ m" using Suc.prems by (simp add: div_less_iff_less_mult)
    ultimately have "length (hex (n div 16)) \<le> m" by (intro Suc.IH) simp_all
    with False show ?thesis by (simp add: hex.simps [of n])
  qed
qed simp

end
