(* ===== verification/Unicode_Allowlist.thy ===== *)
theory Unicode_Allowlist
  imports Qubes_Prelude
begin

text \<open>
  The allowlist of code points that are safe to display:
  \<open>src/qrexec-lib/unicode-allowlist-table.c\<close> (the case labels of a switch, included in
  \<open>unicode.c\<close>) and \<open>qubes_pure_code_point_safe_for_display\<close>.  A case label
  \<open>lo ... hi\<close> is the pair \<open>(lo, hi)\<close>, a single label \<open>c\<close> the pair \<open>(c, c)\<close>.
\<close>

definition unicode_allowlist_table :: "(u32 \<times> u32) list" where
  "unicode_allowlist_table =
    [
     (0x20, 0x7e), (0xa1, 0xa5), (0xa7, 0xa7), (0xaa, 0xac), (0xb1, 0xb3),
     (0xb5, 0xb7), (0xb9, 0x2c1), (0x2c6, 0x2d1), (0x2e0, 0x2e4), (0x2ec, 0x2ec),
     (0x2ee, 0x2ee), (0x370, 0x374), (0x376, 0x377), (0x37a, 0x37f), (0x386, 0x38a),
     (0x38c, 0x38c), (0x38e, 0x3a1), (0x3a3, 0x3e1), (0x3f0, 0x481), (0x48a, 0x52f),
     (0x60c, 0x60c), (0x964, 0x965), (0xe3f, 0xe3f), (0x10fb, 0x10fb), (0x1100, 0x11ff),
     (0x16eb, 0x16ed), (0x1735, 0x1736), (0x1802, 0x1803), (0x1805, 0x1805), (0x1c80, 0x1c88),
     (0x1cd3, 0x1cd3), (0x1ce9, 0x1cec), (0x1cee, 0x1cf3), (0x1cf5, 0x1cf6), (0x1cfa, 0x1cfa),
     (0x1d00, 0x1dbf), (0x1e00, 0x1f15), (0x1f18, 0x1f1d), (0x1f20, 0x1f45), (0x1f48, 0x1f4d),
     (0x1f50, 0x1f57), (0x1f59, 0x1f59), (0x1f5b, 0x1f5b), (0x1f5d, 0x1f5d), (0x1f5f, 0x1f7d),
     (0x1f80, 0x1fb4), (0x1fb6, 0x1fbc), (0x1fbe, 0x1fbe), (0x1fc2, 0x1fc4), (0x1fc6, 0x1fcc),
     (0x1fd0, 0x1fd3), (0x1fd6, 0x1fdb), (0x1fe0, 0x1fec), (0x1ff2, 0x1ff4), (0x1ff6, 0x1ffc),
     (0x2010, 0x2027), (0x2030, 0x205e), (0x2070, 0x2071), (0x2074, 0x208e), (0x2090, 0x209c),
     (0x20a0, 0x20c0), (0x2102, 0x2102), (0x2107, 0x2107), (0x210a, 0x2113), (0x2115, 0x2115),
     (0x2118, 0x211d), (0x2124, 0x2124), (0x2126, 0x2126), (0x2128, 0x2128), (0x212a, 0x212d),
     (0x212f, 0x2139), (0x213c, 0x2149), (0x214b, 0x214b), (0x214e, 0x214e), (0x2150, 0x2189),
     (0x2190, 0x2194), (0x219a, 0x219b), (0x21a0, 0x21a0), (0x21a3, 0x21a3), (0x21a6, 0x21a6),
     (0x21ae, 0x21ae), (0x21ce, 0x21cf), (0x21d2, 0x21d2), (0x21d4, 0x21d4), (0x21f4, 0x22ff),
     (0x2308, 0x230b), (0x2320, 0x2321), (0x2329, 0x232a), (0x237c, 0x237c), (0x239b, 0x23b3),
     (0x23dc, 0x23e1), (0x2460, 0x249b), (0x24ea, 0x24ff), (0x25b7, 0x25b7), (0x25c1, 0x25c1),
     (0x25f8, 0x25ff), (0x266f, 0x266f), (0x2768, 0x2793), (0x27c0, 0x27ff), (0x2900, 0x2aff),
     (0x2b30, 0x2b44), (0x2b47, 0x2b4c), (0x2c60, 0x2c7f), (0x2e00, 0x2e4f), (0x2e52, 0x2e5d),
     (0x3001, 0x3003), (0x3005, 0x3011), (0x3014, 0x301f), (0x3021, 0x3029), (0x3030, 0x3035),
     (0x3038, 0x303d), (0x3041, 0x3096), (0x309d, 0x30ff), (0x3105, 0x312f), (0x3131, 0x318e),
     (0x3192, 0x3195), (0x31a0, 0x31bf), (0x31f0, 0x31ff), (0x3220, 0x3229), (0x3248, 0x324f),
     (0x3251, 0x325f), (0x3280, 0x3289), (0x32b1, 0x32bf), (0x3400, 0x4dbf), (0x4e00, 0x9fff),
     (0xa640, 0xa66e), (0xa673, 0xa673), (0xa67e, 0xa69d), (0xa717, 0xa71f), (0xa722, 0xa788),
     (0xa78b, 0xa7ca), (0xa7d0, 0xa7d1), (0xa7d3, 0xa7d3), (0xa7d5, 0xa7d9), (0xa7f2, 0xa7ff),
     (0xa830, 0xa835), (0xa838, 0xa838), (0xa92e, 0xa92e), (0xa960, 0xa97c), (0xa9cf, 0xa9cf),
     (0xab30, 0xab5a), (0xab5c, 0xab69), (0xac00, 0xd7a3), (0xd7b0, 0xd7c6), (0xd7cb, 0xd7fb),
     (0xf900, 0xfa6d), (0xfa70, 0xfad9), (0xfb00, 0xfb06), (0xfd3e, 0xfd3f), (0xfe10, 0xfe19),
     (0xfe30, 0xfe52), (0xfe54, 0xfe66), (0xfe68, 0xfe6b), (0xff01, 0xff3d), (0xff3f, 0xff3f),
     (0xff41, 0xffbe), (0xffc2, 0xffc7), (0xffca, 0xffcf), (0xffd2, 0xffd7), (0xffda, 0xffdc),
     (0xffe0, 0xffe2), (0xffe5, 0xffe6), (0xffe9, 0xffec), (0x10100, 0x10102), (0x10107, 0x10133),
     (0x10140, 0x10178), (0x1018a, 0x1018b), (0x102e1, 0x102fb), (0x10780, 0x10785), (0x10787, 0x107b0),
     (0x107b2, 0x107ba), (0x16fe2, 0x16fe3), (0x1aff0, 0x1aff3), (0x1aff5, 0x1affb), (0x1affd, 0x1affe),
     (0x1b000, 0x1b122), (0x1b132, 0x1b132), (0x1b150, 0x1b152), (0x1b155, 0x1b155), (0x1b164, 0x1b167),
     (0x1d2c0, 0x1d2d3), (0x1d2e0, 0x1d2f3), (0x1d360, 0x1d378), (0x1d400, 0x1d454), (0x1d456, 0x1d49c),
     (0x1d49e, 0x1d49f), (0x1d4a2, 0x1d4a2), (0x1d4a5, 0x1d4a6), (0x1d4a9, 0x1d4ac), (0x1d4ae, 0x1d4b9),
     (0x1d4bb, 0x1d4bb), (0x1d4bd, 0x1d4c3), (0x1d4c5, 0x1d505), (0x1d507, 0x1d50a), (0x1d50d, 0x1d514),
     (0x1d516, 0x1d51c), (0x1d51e, 0x1d539), (0x1d53b, 0x1d53e), (0x1d540, 0x1d544), (0x1d546, 0x1d546),
     (0x1d54a, 0x1d550), (0x1d552, 0x1d6a5), (0x1d6a8, 0x1d7cb), (0x1d7ce, 0x1d7ff), (0x1df00, 0x1df1e),
     (0x1df25, 0x1df2a), (0x1e030, 0x1e06d), (0x1f100, 0x1f10c), (0x1fbf0, 0x1fbf9), (0x20000, 0x2a6df),
     (0x2a700, 0x2b739), (0x2b740, 0x2b81d), (0x2b820, 0x2cea1), (0x2ceb0, 0x2ebe0), (0x2f800, 0x2fa1d),
     (0x30000, 0x3134a), (0x31350, 0x323af)]"

definition qubes_pure_code_point_safe_for_display :: "u32 \<Rightarrow> bool" where
  "qubes_pure_code_point_safe_for_display code_point =
     list_ex (\<lambda>(lo, hi). lo \<le> code_point \<and> code_point \<le> hi) unicode_allowlist_table"

section \<open>Facts read off the table\<close>

text \<open>
  A property of all allowed code points is a property of the ranges, checked by one pass
  over the table.
\<close>

lemma safe_for_display_rangeE:
  assumes "qubes_pure_code_point_safe_for_display cp"
  obtains lo hi where "(lo, hi) \<in> set unicode_allowlist_table" "unat lo \<le> unat cp" "unat cp \<le> unat hi"
  using assms
  by (auto simp add: qubes_pure_code_point_safe_for_display_def list_ex_iff word_le_nat_alt)

lemma safe_for_display_range_property:
  assumes "list_all (\<lambda>(lo, hi). P (unat lo) (unat hi)) unicode_allowlist_table"
    and "qubes_pure_code_point_safe_for_display cp"
  shows "\<exists>lo hi. P lo hi \<and> lo \<le> unat cp \<and> unat cp \<le> hi"
  using assms(2)
proof (rule safe_for_display_rangeE)
  fix lo hi
  assume "(lo, hi) \<in> set unicode_allowlist_table" "unat lo \<le> unat cp" "unat cp \<le> unat hi"
  with assms(1) show ?thesis by (fastforce simp add: list_all_iff)
qed

text \<open>
  Every range is nonempty, lies in one plane, and avoids the C0 controls, DEL and the C1
  controls, the surrogates, the noncharacters and everything past the third plane.
\<close>

definition range_ok :: "nat \<Rightarrow> nat \<Rightarrow> bool" where
  "range_ok lo hi \<longleftrightarrow> lo \<le> hi \<and> 0x20 \<le> lo \<and> hi < 0x323B0 \<and> (hi < 0x7F \<or> 0xA0 < lo) \<and>
     (hi < 0xD800 \<or> 0xF900 \<le> lo) \<and> (hi < 0xFDD0 \<or> 0xFDEF < lo) \<and>
     lo div 0x10000 = hi div 0x10000 \<and> hi mod 0x10000 < 0xFFFE"

lemma table_ranges_ok: "list_all (\<lambda>(lo, hi). range_ok (unat lo) (unat hi)) unicode_allowlist_table"
  by (simp add: unicode_allowlist_table_def range_ok_def)

lemma range_ok_mod:
  assumes "range_ok lo hi" and "lo \<le> n" and "n \<le> hi"
  shows "n mod 0x10000 < 0xFFFE"
proof -
  have "n div 0x10000 = hi div 0x10000"
    using assms div_le_mono [of lo n "0x10000"] div_le_mono [of n hi "0x10000"]
    by (simp add: range_ok_def)
  then have "n mod 0x10000 \<le> hi mod 0x10000"
    using assms(3) div_mult_mod_eq [of n "0x10000"] div_mult_mod_eq [of hi "0x10000"] by linarith
  then show ?thesis using assms(1) by (simp add: range_ok_def)
qed

lemma safe_for_display_bounds:
  assumes "qubes_pure_code_point_safe_for_display cp"
  shows "0x20 \<le> unat cp" and "unat cp < 0x323B0" and "unat cp < 0x7F \<or> 0xA0 < unat cp"
    and "unat cp < 0xD800 \<or> 0xF900 \<le> unat cp" and "unat cp < 0xFDD0 \<or> 0xFDEF < unat cp"
    and "unat cp mod 0x10000 < 0xFFFE"
proof -
  from safe_for_display_range_property [OF table_ranges_ok assms]
  obtain lo hi where *: "range_ok lo hi" "lo \<le> unat cp" "unat cp \<le> hi" by blast
  then show "0x20 \<le> unat cp" "unat cp < 0x323B0" "unat cp < 0x7F \<or> 0xA0 < unat cp"
    "unat cp < 0xD800 \<or> 0xF900 \<le> unat cp" "unat cp < 0xFDD0 \<or> 0xFDEF < unat cp"
    by (auto simp add: range_ok_def)
  from * show "unat cp mod 0x10000 < 0xFFFE" by (rule range_ok_mod)
qed

lemma printable_ascii_safe_for_display:
  "0x20 \<le> cp \<Longrightarrow> cp \<le> 0x7E \<Longrightarrow> qubes_pure_code_point_safe_for_display cp"
  by (simp add: qubes_pure_code_point_safe_for_display_def unicode_allowlist_table_def)

lemma safe_for_display_ascii_iff:
  "cp < 0x80 \<Longrightarrow> qubes_pure_code_point_safe_for_display cp \<longleftrightarrow> 0x20 \<le> cp \<and> cp \<le> 0x7E"
  using safe_for_display_bounds(1,3) [of cp] printable_ascii_safe_for_display [of cp]
  by (auto simp add: word_le_nat_alt word_less_nat_alt)

section \<open>Property\<close>

text \<open>
  Every code point the library calls safe to display is a valid Unicode scalar value:
  it is not a C0 control, DEL, a C1 control or the no-break space, not a surrogate or
  private-use character of the basic plane, not a noncharacter, and below 0x323B0 (so far
  below 0x10FFFF).  Printable ASCII is always safe.
\<close>

theorem code_point_safe_for_display_sound:
  "(qubes_pure_code_point_safe_for_display cp \<longrightarrow>
      0x20 \<le> unat cp \<and> unat cp < 0x323B0 \<and> \<not> (0x7F \<le> unat cp \<and> unat cp \<le> 0xA0) \<and>
      \<not> (0xD800 \<le> unat cp \<and> unat cp < 0xF900) \<and> \<not> (0xFDD0 \<le> unat cp \<and> unat cp \<le> 0xFDEF) \<and>
      unat cp mod 0x10000 < 0xFFFE) \<and>
   (0x20 \<le> unat cp \<and> unat cp \<le> 0x7E \<longrightarrow> qubes_pure_code_point_safe_for_display cp)"
  using safe_for_display_bounds [of cp] printable_ascii_safe_for_display [of cp]
  by (auto simp add: word_le_nat_alt)

lemma code_point_safe_for_display_sound_witness:
  "qubes_pure_code_point_safe_for_display 0x3B2 \<and> unat (0x3B2 :: u32) < 0x323B0 \<and>
   qubes_pure_code_point_safe_for_display 0x41"
proof -
  have "qubes_pure_code_point_safe_for_display 0x3B2"
    by (simp add: qubes_pure_code_point_safe_for_display_def unicode_allowlist_table_def)
  then show ?thesis
    using code_point_safe_for_display_sound [of "0x3B2"] code_point_safe_for_display_sound [of "0x41"]
    by simp
qed

end
