(* ===== verification/Utf8_Display.thy ===== *)
theory Utf8_Display
  imports Unicode_Allowlist
begin

text \<open>
  UTF-8 validation of \<open>src/qrexec-lib/unicode.c\<close>:
  \<open>validate_utf8_char_and_return_len\<close>, \<open>validate_utf8_char_safe_for_display\<close> and
  \<open>qubes_pure_string_safe_for_display\<close>.  A pointer into a string is the buffer
  and an index; \<open>None\<close> is a read outside the buffer or a failed assertion.

  The reference is \<open>utf8_encode\<close>, the encoder of RFC 3629 on numbers: the validator accepts
  exactly the encodings of safe code points, and a string is safe exactly when it is a
  nonempty concatenation of such encodings.
\<close>

unbundle bit_operations_syntax

section \<open>One character\<close>

text \<open>
  The loop over the continuation bytes; the outer \<open>option\<close> is memory safety, the inner
  \<open>None\<close> the early \<open>return -1\<close>.
\<close>

fun utf8_tails :: "bytes \<Rightarrow> nat \<Rightarrow> nat \<Rightarrow> u32 \<Rightarrow> u32 option option" where
  "utf8_tails b p 0 code_point = Some (Some code_point)"
| "utf8_tails b p (Suc tails_count) code_point = do {
     c \<leftarrow> rd b (p + 1);
     if \<not> (0x80 \<le> c \<and> c \<le> 0xBF) then Some None
     else utf8_tails b (p + 1) tails_count (push_bit 6 code_point OR (ucast c AND 0x3F))
   }"

definition utf8_finish :: "bytes \<Rightarrow> nat \<Rightarrow> nat \<Rightarrow> nat \<Rightarrow> u32 \<Rightarrow> int option" where
  "utf8_finish b p total_size tails_count code_point = do {
     r \<leftarrow> utf8_tails b p tails_count code_point;
     (case r of
        None \<Rightarrow> Some (- 1)
      | Some cp \<Rightarrow>
          Some (if qubes_pure_code_point_safe_for_display cp then int total_size
                else - int total_size))
   }"

definition validate_utf8_char_and_return_len :: "bytes \<Rightarrow> nat \<Rightarrow> int option" where
  "validate_utf8_char_and_return_len b p = do {
     c \<leftarrow> rd b p;
     if 0xC2 \<le> c \<and> c \<le> 0xDF then utf8_finish b p 2 1 (ucast c AND 0x1F)
     else if c = 0xE0 then do {
       c1 \<leftarrow> rd b (p + 1);
       if 0xA0 \<le> c1 \<and> c1 \<le> 0xBF then utf8_finish b (p + 1) 3 1 (ucast c1 AND 0x3F)
       else Some (- 1)
     }
     else if 0xE1 \<le> c \<and> c \<le> 0xEF then utf8_finish b p 3 2 (ucast c AND 0xF)
     else if c = 0xF0 then do {
       c1 \<leftarrow> rd b (p + 1);
       if 0x90 \<le> c1 \<and> c1 \<le> 0xBF then utf8_finish b (p + 1) 4 2 (ucast c1 AND 0x3F)
       else Some (- 1)
     }
     else if 0xF1 \<le> c \<and> c \<le> 0xF4 then utf8_finish b p 4 3 (ucast c AND 0x7)
     else Some (- 1)
   }"

definition validate_utf8_char_safe_for_display :: "bytes \<Rightarrow> nat \<Rightarrow> int option" where
  "validate_utf8_char_safe_for_display b p = do {
     result \<leftarrow> validate_utf8_char_and_return_len b p;
     Some (if result > 0 then result else 0)
   }"

section \<open>The reference encoder\<close>

definition byte :: "nat \<Rightarrow> u8" where
  "byte n = word_of_nat n"

definition utf8_encode :: "nat \<Rightarrow> bytes" where
  "utf8_encode n =
     (if n < 0x80 then [byte n]
      else if n < 0x800 then [byte (0xC0 + n div 64), byte (0x80 + n mod 64)]
      else if n < 0x10000 then
        [byte (0xE0 + n div 4096), byte (0x80 + n div 64 mod 64),
         byte (0x80 + n mod 64)]
      else
        [byte (0xF0 + n div 262144), byte (0x80 + n div 4096 mod 64),
         byte (0x80 + n div 64 mod 64), byte (0x80 + n mod 64)])"

text \<open>The bits of a code point as arithmetic.\<close>

lemma unat_ucast_u8_u32 [simp]: "unat (ucast (c :: u8) :: u32) = unat c"
  using unat_u8_less [of c] by (simp add: unsigned_ucast_eq take_bit_nat_eq_self del: unat_u8_less)

lemma unat_and_masks:
  fixes c :: u8
  shows "unat (ucast c AND (0x3F :: u32)) = unat c mod 64"
    and "unat (ucast c AND (0x1F :: u32)) = unat c mod 32"
    and "unat (ucast c AND (0xF :: u32)) = unat c mod 16"
    and "unat (ucast c AND (0x7 :: u32)) = unat c mod 8"
proof -
  have m: "unat (ucast c AND mask k :: u32) = unat c mod 2 ^ k" for k
  proof -
    have "unat (ucast c AND mask k :: u32) = take_bit k (unat (ucast c :: u32))"
      by (simp flip: take_bit_eq_mask add: unsigned_take_bit_eq)
    then show ?thesis by (simp add: unat_ucast_u8_u32 take_bit_eq_mod)
  qed
  show "unat (ucast c AND (0x3F :: u32)) = unat c mod 64" using m [of 6] by (simp add: mask_eq_exp_minus_1)
  show "unat (ucast c AND (0x1F :: u32)) = unat c mod 32" using m [of 5] by (simp add: mask_eq_exp_minus_1)
  show "unat (ucast c AND (0xF :: u32)) = unat c mod 16" using m [of 4] by (simp add: mask_eq_exp_minus_1)
  show "unat (ucast c AND (0x7 :: u32)) = unat c mod 8" using m [of 3] by (simp add: mask_eq_exp_minus_1)
qed

lemma unat_shift_in_tail:
  fixes x :: u32 and c :: u8
  assumes "unat x < 2 ^ 26"
  shows "unat (push_bit 6 x OR (ucast c AND 0x3F)) = unat x * 64 + unat c mod 64"
proof -
  have "push_bit 6 x OR (ucast c AND 0x3F) = push_bit 6 x + (ucast c AND (0x3F :: u32))"
  proof (rule disjunctive_add_eq_or [symmetric])
    have "push_bit 6 x AND (ucast c AND mask 6) = 0"
      by (auto intro!: bit_eqI simp add: bit_simps)
    then show "push_bit 6 x AND (ucast c AND (0x3F :: u32)) = 0"
      by (simp add: mask_eq_exp_minus_1)
  qed
  moreover have "unat (push_bit 6 x) = unat x * 64"
    using assms by (simp add: push_bit_eq_mult unat_word_ariths)
  ultimately show ?thesis
    using assms by (simp add: unat_word_ariths unat_and_masks)
qed


section \<open>What one call of the validator computes\<close>

text \<open>
  The signed length of a complete sequence for code point \<open>n\<close>, and the result of the
  continuation loop in terms of the bytes it meets.
\<close>

definition signed_len :: "nat \<Rightarrow> nat \<Rightarrow> int" where
  "signed_len n k =
     (if qubes_pure_code_point_safe_for_display (word_of_nat n) then int k else - int k)"

definition is_tail :: "u8 \<Rightarrow> bool" where
  "is_tail c \<longleftrightarrow> 0x80 \<le> c \<and> c \<le> 0xBF"

lemma is_tail_iff: "is_tail c \<longleftrightarrow> 128 \<le> unat c \<and> unat c \<le> 191"
  by (simp add: is_tail_def word_le_nat_alt)

lemma is_tail_nonzero: "is_tail c \<Longrightarrow> c \<noteq> 0"
  by (auto simp add: is_tail_iff)

definition finish_at :: "bytes \<Rightarrow> nat \<Rightarrow> nat \<Rightarrow> nat \<Rightarrow> nat \<Rightarrow> int option" where
  "finish_at b p t k n = utf8_finish b p t k (word_of_nat n)"

lemma finish_at_0: "finish_at b p t 0 n = Some (signed_len n t)"
  by (simp add: finish_at_def utf8_finish_def signed_len_def)

lemma finish_at_Suc:
  assumes "n < 67108864"
  shows "finish_at b p t (Suc k) n =
     (case rd b (Suc p) of
        None \<Rightarrow> None
      | Some c \<Rightarrow>
          if is_tail c then finish_at b (Suc p) t k (n * 64 + unat c mod 64)
          else Some (- 1))"
proof -
  have "unat (word_of_nat n :: u32) = n"
    using assms by (intro unat_word_of_nat_small) simp
  then have "push_bit 6 (word_of_nat n) OR (ucast c AND 0x3F) = (word_of_nat (n * 64 + unat c mod 64) :: u32)"
    for c :: u8
    using assms by (intro word_eq_of_nat) (simp add: unat_shift_in_tail)
  then show ?thesis
    by (auto simp add: finish_at_def utf8_finish_def is_tail_def split: option.splits)
qed

text \<open>The lead byte decides which continuation is read.\<close>

lemma lead_and_masks:
  fixes c :: u8
  shows "(ucast c AND 0x3F :: u32) = word_of_nat (unat c mod 64)"
    and "(ucast c AND 0x1F :: u32) = word_of_nat (unat c mod 32)"
    and "(ucast c AND 0xF :: u32) = word_of_nat (unat c mod 16)"
    and "(ucast c AND 0x7 :: u32) = word_of_nat (unat c mod 8)"
  by (rule word_eq_of_nat, rule unat_and_masks)+


lemma utf8_tails_shift: "utf8_tails (pre @ t) (length pre + p) k cp = utf8_tails t p k cp"
proof (induction k arbitrary: p cp)
  case (Suc k)
  have "rd (pre @ t) (length pre + p + 1) = rd t (p + 1)"
    using rd_append_right [of pre t "p + 1"] by (simp add: add.assoc)
  then show ?case
    using Suc.IH [of "p + 1"] by (simp add: add.assoc cong: if_cong)
qed simp

lemma utf8_finish_shift: "utf8_finish (pre @ t) (length pre + p) n k cp = utf8_finish t p n k cp"
  by (simp add: utf8_finish_def utf8_tails_shift)

lemma validate_utf8_shift:
  "validate_utf8_char_and_return_len (pre @ t) (length pre) = validate_utf8_char_and_return_len t 0"
  using utf8_finish_shift [of pre t 0] utf8_finish_shift [of pre t 1] rd_append_right [of pre t 1]
  by (simp add: validate_utf8_char_and_return_len_def cong: if_cong)

text \<open>The validator on a list, by its lead byte.\<close>

lemma validate_utf8_Cons:
  "validate_utf8_char_and_return_len (c # t) 0 =
    (if 194 \<le> unat c \<and> unat c \<le> 223 then finish_at (c # t) 0 2 1 (unat c mod 32)
     else if unat c = 224 then
       (case t of [] \<Rightarrow> None
        | c1 # _ \<Rightarrow>
            if 160 \<le> unat c1 \<and> unat c1 \<le> 191
            then finish_at (c # t) 1 3 1 (unat c1 mod 64) else Some (- 1))
     else if 225 \<le> unat c \<and> unat c \<le> 239 then finish_at (c # t) 0 3 2 (unat c mod 16)
     else if unat c = 240 then
       (case t of [] \<Rightarrow> None
        | c1 # _ \<Rightarrow>
            if 144 \<le> unat c1 \<and> unat c1 \<le> 191
            then finish_at (c # t) 1 4 2 (unat c1 mod 64) else Some (- 1))
     else if 241 \<le> unat c \<and> unat c \<le> 244 then finish_at (c # t) 0 4 3 (unat c mod 8)
     else Some (- 1))"
proof -
  have eq: "c = 0xE0 \<longleftrightarrow> unat c = 224" "c = 0xF0 \<longleftrightarrow> unat c = 240"
    by (auto simp add: word_unat_eq_iff)
  show ?thesis
    by (cases t) (simp_all add: validate_utf8_char_and_return_len_def eq word_le_nat_alt
        lead_and_masks rd_Nil finish_at_def)
qed


section \<open>Validator and encoder\<close>

lemma unat_byte [simp]: "n < 256 \<Longrightarrow> unat (byte n) = n"
  unfolding byte_def by (intro unat_word_of_nat_small) simp

lemma byte_unat [simp]: "byte (unat c) = c"
  by (simp add: byte_def)

lemma base64_digits:
  fixes e :: nat
  assumes "e < 64"
  shows "(k * 64 + e) div 64 = k" and "(k * 64 + e) mod 64 = e"
  using assms by simp_all

lemma div_4096: "n div 4096 = n div 64 div (64 :: nat)"
  and div_262144: "n div 262144 = n div 64 div 64 div (64 :: nat)"
  by (simp_all flip: div_mult2_eq)

lemma utf8_encode_2:
  "2 \<le> d \<Longrightarrow> d < 32 \<Longrightarrow> e < 64 \<Longrightarrow>
     utf8_encode (d * 64 + e) = [byte (0xC0 + d), byte (0x80 + e)]"
  by (simp add: utf8_encode_def)

lemma utf8_encode_3:
  assumes "n = (d * 64 + e1) * 64 + e2" "d < 16" "e1 < 64" "e2 < 64" "0x800 \<le> n"
  shows "utf8_encode n = [byte (0xE0 + d), byte (0x80 + e1), byte (0x80 + e2)]"
proof -
  have "n div 64 = d * 64 + e1" "n mod 64 = e2"
    unfolding assms(1) using assms(4) by (rule base64_digits)+
  moreover have "n div 4096 = d"
    unfolding assms(1) using assms(3,4) by (simp only: div_4096 base64_digits)
  moreover have "n < 0x10000" using assms(1-4) by simp
  ultimately show ?thesis using assms(3,5) by (simp only: utf8_encode_def base64_digits) simp
qed

lemma utf8_encode_4:
  assumes "n = ((d * 64 + e1) * 64 + e2) * 64 + e3" "d < 8" "e1 < 64" "e2 < 64" "e3 < 64" "0x10000 \<le> n"
  shows "utf8_encode n = [byte (0xF0 + d), byte (0x80 + e1), byte (0x80 + e2), byte (0x80 + e3)]"
proof -
  have "n div 64 = (d * 64 + e1) * 64 + e2" "n mod 64 = e3"
    unfolding assms(1) using assms(5) by (rule base64_digits)+
  moreover have "n div 4096 = d * 64 + e1" "n div 262144 = d"
    unfolding assms(1) using assms(3-5) by (simp_all only: div_4096 div_262144 base64_digits)
  ultimately show ?thesis using assms(3,4,6) by (simp only: utf8_encode_def base64_digits) simp
qed

text \<open>Completeness: the encoding of a code point is recognised, with its signed length.\<close>

lemma is_tail_of_nat: "e < 64 \<Longrightarrow> is_tail (byte (128 + e))"
  by (simp add: is_tail_iff)

lemma Suc_3: "Suc (Suc (Suc 0)) = 3" and Suc_4: "Suc (Suc (Suc (Suc 0))) = 4"
  by simp_all

lemma lead_mods:
  fixes d :: nat
  shows "d < 32 \<Longrightarrow> (192 + d) mod 32 = d" and "d < 16 \<Longrightarrow> (224 + d) mod 16 = d"
    and "d < 8 \<Longrightarrow> (240 + d) mod 8 = d" and "d < 64 \<Longrightarrow> (128 + d) mod 64 = d"
  using mod_mult_self3 [of 6 32 d] mod_mult_self3 [of 14 16 d] mod_mult_self3 [of 30 8 d]
    mod_mult_self3 [of 2 64 d]
  by simp_all

lemma validate_utf8_encode:
  assumes "0x80 \<le> n" and "n < 0x140000"
  shows "validate_utf8_char_and_return_len (utf8_encode n @ rest) 0 =
     Some (signed_len n (length (utf8_encode n)))"
proof -
  note F = finish_at_Suc finish_at_0 is_tail_of_nat validate_utf8_Cons
  define e3 e2 e1 where "e3 = n mod 64" and "e2 = n div 64 mod 64" and "e1 = n div 64 div 64 mod 64"
  have e: "e3 < 64" "e2 < 64" "e1 < 64" by (simp_all add: e1_def e2_def e3_def)
  consider (2) "n < 0x800" | (3) "0x800 \<le> n" "n < 0x10000" | (4) "0x10000 \<le> n" by linarith
  then show ?thesis
  proof cases
    case 2
    define d where "d = n div 64"
    have n: "n = d * 64 + e3" by (simp add: d_def e3_def)
    have "2 \<le> d" "d < 32" using 2 assms(1) e n by simp_all
    with e have "validate_utf8_char_and_return_len (utf8_encode n @ rest) 0 = Some (signed_len n 2)"
      and "length (utf8_encode n) = 2"
      unfolding n by (simp_all add: utf8_encode_2 F lead_mods)
    then show ?thesis by simp
  next
    case 3
    define d where "d = n div 64 div 64"
    have n: "n = (d * 64 + e2) * 64 + e3" by (simp add: d_def e2_def e3_def)
    have d: "d < 16" "d = 0 \<Longrightarrow> 32 \<le> e2" using 3 e n by simp_all
    have "validate_utf8_char_and_return_len
       ([byte (0xE0 + d), byte (0x80 + e2), byte (0x80 + e3)] @ rest) 0 = Some (signed_len n 3)"
      using d e unfolding n by (cases "d = 0") (simp_all add: F numeral_2_eq_2 lead_mods)
    moreover have enc: "utf8_encode n = [byte (0xE0 + d), byte (0x80 + e2), byte (0x80 + e3)]"
      using n d(1) e 3 by (intro utf8_encode_3) simp_all
    ultimately show ?thesis by (simp add: Suc_3)
  next
    case 4
    define d where "d = n div 64 div 64 div 64"
    have n: "n = ((d * 64 + e1) * 64 + e2) * 64 + e3" by (simp add: d_def e1_def e2_def e3_def)
    have d: "d < 5" "d = 0 \<Longrightarrow> 16 \<le> e1" using 4 assms(2) e n by simp_all
    have "validate_utf8_char_and_return_len
       ([byte (0xF0 + d), byte (0x80 + e1), byte (0x80 + e2), byte (0x80 + e3)] @ rest) 0 =
         Some (signed_len n 4)"
      using d e unfolding n
      by (cases "d = 0") (simp_all add: F numeral_2_eq_2 numeral_3_eq_3 lead_mods)
    moreover have enc: "utf8_encode n = [byte (0xF0 + d), byte (0x80 + e1), byte (0x80 + e2), byte (0x80 + e3)]"
      using n d(1) e 4 by (intro utf8_encode_4) simp_all
    ultimately show ?thesis by (simp add: Suc_4)
  qed
qed

text \<open>
  Soundness: a positive result is the length of the encoding of a safe code point found at
  the pointer.
\<close>

lemma tail_byteE:
  assumes "is_tail c"
  obtains e where "c = byte (128 + e)" and "e < 64"
proof (rule that)
  show "c = byte (128 + (unat c - 128))" using assms by (simp add: is_tail_iff)
  show "unat c - 128 < 64" using assms by (auto simp add: is_tail_iff)
qed

lemma lead_byte_ex: "k \<le> unat c \<Longrightarrow> unat c < k + m \<Longrightarrow> \<exists>d. c = byte (k + d) \<and> d < m"
  by (intro exI [of _ "unat c - k"]) simp

lemma signed_len_pos_iff:
  "0 < signed_len n k \<longleftrightarrow> 0 < k \<and> qubes_pure_code_point_safe_for_display (word_of_nat n)"
  by (simp add: signed_len_def)

lemma finish_at_SomeD:
  assumes "finish_at b p t (Suc k) n = Some m" and "n < 67108864" and "0 < m"
  shows "\<exists>e. rd b (Suc p) = Some (byte (128 + e)) \<and> e < 64 \<and>
     finish_at b (Suc p) t k (n * 64 + e) = Some m"
proof -
  from assms obtain c where c: "rd b (Suc p) = Some c" "is_tail c"
    "finish_at b (Suc p) t k (n * 64 + unat c mod 64) = Some m"
    by (auto simp add: finish_at_Suc split: option.splits if_splits)
  from c(2) obtain e where "c = byte (128 + e)" "e < 64" by (rule tail_byteE)
  with c show ?thesis by (auto simp add: lead_mods)
qed

lemma rd_0_SomeD: "rd t 0 = Some c \<Longrightarrow> \<exists>t'. t = c # t'"
  by (cases t) (simp_all add: rd_Nil)

definition encodes_safe :: "bytes \<Rightarrow> int \<Rightarrow> bool" where
  "encodes_safe t m \<longleftrightarrow>
     (\<exists>n rest. 0x80 \<le> n \<and> n < 0x140000 \<and> qubes_pure_code_point_safe_for_display (word_of_nat n) \<and>
        t = utf8_encode n @ rest \<and> m = int (length (utf8_encode n)))"

lemma encodes_safeI:
  assumes "finish_at b p k 0 n = Some m" and "0 < m" and "length (utf8_encode n) = k"
    and "0x80 \<le> n" and "n < 0x140000" and "t = utf8_encode n @ rest"
  shows "encodes_safe t m"
proof -
  have m: "m = signed_len n k" using assms(1) by (simp add: finish_at_0)
  with assms(2) have "qubes_pure_code_point_safe_for_display (word_of_nat n)" "m = int k"
    by (auto simp add: signed_len_def split: if_splits)
  with assms(3-6) show ?thesis unfolding encodes_safe_def by blast
qed

lemma sound_2:
  assumes f: "finish_at (byte (192 + d) # t) 0 2 (Suc 0) d = Some m" and m: "0 < m"
    and d: "2 \<le> d" "d < 32"
  shows "encodes_safe (byte (192 + d) # t) m"
proof -
  from finish_at_SomeD [OF f _ m] d obtain e where
    e: "rd t 0 = Some (byte (128 + e))" "e < 64"
      "finish_at (byte (192 + d) # t) 1 2 0 (d * 64 + e) = Some m" by auto
  from rd_0_SomeD [OF e(1)] obtain rest where "t = byte (128 + e) # rest" by blast
  with d e(2) show ?thesis
    by (intro encodes_safeI [OF e(3) m, where rest = rest]) (simp_all add: utf8_encode_2)
qed

lemma sound_3:
  assumes f: "finish_at (byte (224 + d) # byte (128 + e1) # t) (Suc 0) 3 (Suc 0) (d * 64 + e1) = Some m"
    and m: "0 < m" and d: "d < 16" "e1 < 64" "32 \<le> d * 64 + e1"
  shows "encodes_safe (byte (224 + d) # byte (128 + e1) # t) m"
proof -
  from finish_at_SomeD [OF f _ m] d obtain e2 where
    e: "rd t 0 = Some (byte (128 + e2))" "e2 < 64"
      "finish_at (byte (224 + d) # byte (128 + e1) # t) 2 3 0 ((d * 64 + e1) * 64 + e2) = Some m"
    by (auto simp add: numeral_2_eq_2)
  from rd_0_SomeD [OF e(1)] obtain rest where t: "t = byte (128 + e2) # rest" by blast
  define n where n: "n = (d * 64 + e1) * 64 + e2"
  have "0x800 \<le> n" "n < 0x140000" using n d e(2) by simp_all
  moreover from this have "utf8_encode n = [byte (0xE0 + d), byte (0x80 + e1), byte (0x80 + e2)]"
    using d e(2) by (intro utf8_encode_3 [OF n]) simp_all
  ultimately show ?thesis
    using t by (intro encodes_safeI [OF e(3) [folded n] m, where rest = rest]) simp_all
qed

lemma sound_4:
  assumes f: "finish_at (byte (240 + d) # byte (128 + e1) # t) (Suc 0) 4 (Suc (Suc 0)) (d * 64 + e1) = Some m"
    and m: "0 < m" and d: "d < 5" "e1 < 64" "16 \<le> d * 64 + e1"
  shows "encodes_safe (byte (240 + d) # byte (128 + e1) # t) m"
proof -
  let ?b = "byte (240 + d) # byte (128 + e1) # t"
  from finish_at_SomeD [OF f _ m] d obtain e2 where
    e2: "rd t 0 = Some (byte (128 + e2))" "e2 < 64"
      and f2: "finish_at ?b (Suc (Suc 0)) 4 (Suc 0) ((d * 64 + e1) * 64 + e2) = Some m" by auto
  from rd_0_SomeD [OF e2(1)] obtain t2 where t2: "t = byte (128 + e2) # t2" by blast
  from finish_at_SomeD [OF f2 _ m] d e2 t2 obtain e3 where
    e3: "rd t2 0 = Some (byte (128 + e3))" "e3 < 64"
      "finish_at ?b 3 4 0 (((d * 64 + e1) * 64 + e2) * 64 + e3) = Some m"
    by (auto simp add: numeral_3_eq_3)
  from rd_0_SomeD [OF e3(1)] obtain rest where t3: "t2 = byte (128 + e3) # rest" by blast
  define n where n: "n = ((d * 64 + e1) * 64 + e2) * 64 + e3"
  have "0x10000 \<le> n" "n < 0x140000" using n d e2(2) e3(2) by simp_all
  moreover from this have
    "utf8_encode n = [byte (0xF0 + d), byte (0x80 + e1), byte (0x80 + e2), byte (0x80 + e3)]"
    using d e2(2) e3(2) by (intro utf8_encode_4 [OF n]) simp_all
  ultimately show ?thesis
    using t2 t3 by (intro encodes_safeI [OF e3(3) [folded n] m, where rest = rest]) simp_all
qed

lemma validate_utf8_sound:
  assumes "validate_utf8_char_and_return_len t 0 = Some m" and m: "0 < m"
  shows "encodes_safe t m"
proof -
  from assms(1) obtain c t' where t: "t = c # t'"
    by (cases t) (simp_all add: validate_utf8_char_and_return_len_def rd_Nil)
  note v = assms(1) [unfolded t validate_utf8_Cons]
  consider (2) "194 \<le> unat c" "unat c \<le> 223" | (E0) "unat c = 224" | (3) "225 \<le> unat c" "unat c \<le> 239"
    | (F0) "unat c = 240" | (4) "241 \<le> unat c" "unat c \<le> 244"
    using v m by (auto split: if_splits)
  then show ?thesis
  proof cases
    case 2
    then obtain d where c: "c = byte (192 + d)" "d < 32" using lead_byte_ex [of 192 c 32] by auto
    with 2 v t m show ?thesis by (auto intro!: sound_2 simp add: lead_mods)
  next
    case E0
    with v m obtain c1 t1 where t1: "t' = c1 # t1" "160 \<le> unat c1" "unat c1 \<le> 191"
      and f: "finish_at (c # c1 # t1) (Suc 0) 3 (Suc 0) (unat c1 mod 64) = Some m"
      by (auto split: list.splits if_splits)
    then obtain e1 where "c1 = byte (128 + e1)" "e1 < 64" using lead_byte_ex [of 128 c1 64] by auto
    moreover have "c = byte (224 + 0)" using byte_unat [of c] E0 by simp
    ultimately show ?thesis
      using t t1 f m sound_3 [of 0 e1 t1 m] by (simp add: lead_mods)
  next
    case 3
    then obtain d where c: "c = byte (224 + d)" "d < 16" using lead_byte_ex [of 224 c 16] by auto
    with 3 v have d: "1 \<le> d" and f: "finish_at (c # t') 0 3 (Suc (Suc 0)) d = Some m"
      by (simp_all add: lead_mods numeral_2_eq_2)
    from finish_at_SomeD [OF f _ m] c obtain e1 where
      "rd t' 0 = Some (byte (128 + e1))" "e1 < 64"
      "finish_at (c # t') (Suc 0) 3 (Suc 0) (d * 64 + e1) = Some m" by auto
    with t c d m show ?thesis by (auto intro!: sound_3 dest!: rd_0_SomeD)
  next
    case F0
    with v m obtain c1 t1 where t1: "t' = c1 # t1" "144 \<le> unat c1" "unat c1 \<le> 191"
      and f: "finish_at (c # c1 # t1) (Suc 0) 4 (Suc (Suc 0)) (unat c1 mod 64) = Some m"
      by (auto simp add: numeral_2_eq_2 split: list.splits if_splits)
    then obtain e1 where "c1 = byte (128 + e1)" "e1 < 64" using lead_byte_ex [of 128 c1 64] by auto
    moreover have "c = byte (240 + 0)" using byte_unat [of c] F0 by simp
    ultimately show ?thesis
      using t t1 f m sound_4 [of 0 e1 t1 m] by (simp add: lead_mods)
  next
    case 4
    then obtain d where c: "c = byte (240 + d)" "d < 5" using lead_byte_ex [of 240 c 5] by auto
    with 4 v have d: "1 \<le> d" and f: "finish_at (c # t') 0 4 (Suc (Suc (Suc 0))) d = Some m"
      by (simp_all add: lead_mods numeral_3_eq_3)
    from finish_at_SomeD [OF f _ m] c obtain e1 where
      "rd t' 0 = Some (byte (128 + e1))" "e1 < 64"
      "finish_at (c # t') (Suc 0) 4 (Suc (Suc 0)) (d * 64 + e1) = Some m" by auto
    with t c d m show ?thesis by (auto intro!: sound_4 dest!: rd_0_SomeD)
  qed
qed


section \<open>Memory safety of one call\<close>

text \<open>
  On a NUL-terminated string the validator reads a byte only after it has seen that the
  byte before it is not the terminator, so it never leaves the string.
\<close>

lemma utf8_tails_in_string:
  assumes "p < length s"
  shows "\<exists>r. utf8_tails (s @ 0 # junk) p k cp = Some r \<and> (r \<noteq> None \<longrightarrow> p + k < length s)"
  using assms
proof (induction k arbitrary: p cp)
  case (Suc k)
  show ?case
  proof (cases "p + 1 < length s")
    case True
    then have "rd (s @ 0 # junk) (p + 1) = Some (s ! (p + 1))" by (rule rd_append_left)
    with Suc.IH [OF True, of "push_bit 6 cp OR (ucast (s ! (p + 1)) AND 0x3F)"] show ?thesis
      by auto
  next
    case False
    with Suc.prems have "p + 1 = length s" by simp
    then have "rd (s @ 0 # junk) (p + 1) = Some 0" by simp
    then show ?thesis by simp
  qed
qed simp

definition in_string :: "bytes \<Rightarrow> int option \<Rightarrow> bool" where
  "in_string s r \<longleftrightarrow> (\<exists>m. r = Some m \<and> m \<noteq> 0 \<and> \<bar>m\<bar> \<le> int (length s))"

lemma utf8_finish_in_string:
  assumes "p < length s"
  shows "in_string s (utf8_finish (s @ 0 # junk) p (p + k + 1) k cp)"
proof -
  obtain r where r: "utf8_tails (s @ 0 # junk) p k cp = Some r" "r \<noteq> None \<longrightarrow> p + k < length s"
    using utf8_tails_in_string [OF assms] by blast
  then show ?thesis
    using assms by (cases r) (auto simp add: utf8_finish_def in_string_def)
qed

lemma validate_utf8_in_string:
  assumes "s \<noteq> []"
  shows "in_string s (validate_utf8_char_and_return_len (s @ 0 # junk) 0)"
proof -
  let ?b = "s @ 0 # junk"
  have 0: "0 < length s" using assms by simp
  have r: "in_string s (Some (- 1))" using 0 by (simp add: in_string_def Suc_le_eq)
  have f: "in_string s (utf8_finish ?b 0 2 1 cp)" "in_string s (utf8_finish ?b 0 3 2 cp)"
    "in_string s (utf8_finish ?b 0 4 3 cp)" for cp
    using utf8_finish_in_string [OF 0, of junk 1] utf8_finish_in_string [OF 0, of junk 2]
      utf8_finish_in_string [OF 0, of junk 3] by (simp_all add: numeral_2_eq_2 numeral_3_eq_3 Suc_4)
  obtain c1 where c1: "rd ?b (Suc 0) = Some c1" using 0 by (cases "rd ?b (Suc 0)") (auto simp add: rd_None_iff)
  have "1 < length s" if "c1 \<noteq> 0"
  proof -
    have "1 \<noteq> length s" using that c1 rd_append_length [of s "0 # junk"] by auto
    with 0 show ?thesis by linarith
  qed
  from utf8_finish_in_string [OF this, of junk 1] utf8_finish_in_string [OF this, of junk 2]
  have g: "in_string s (utf8_finish ?b (Suc 0) 3 1 cp)" "in_string s (utf8_finish ?b (Suc 0) 4 2 cp)"
    if "c1 \<noteq> 0" for cp
    using that by (simp_all add: numeral_3_eq_3 numeral_2_eq_2 Suc_4)
  have c: "rd ?b 0 = Some (hd s)" using assms by (cases s) simp_all
  have "\<not> 0xA0 \<le> (0 :: u8)" "\<not> 0x90 \<le> (0 :: u8)" by simp_all
  then show ?thesis
    using r f g by (cases "c1 = 0") (simp_all add: validate_utf8_char_and_return_len_def c c1)
qed

lemma validate_utf8_safe_in_string:
  assumes "s \<noteq> []"
  shows "\<exists>m. validate_utf8_char_safe_for_display (s @ 0 # junk) 0 = Some m \<and>
     0 \<le> m \<and> m \<le> int (length s)"
  using validate_utf8_in_string [OF assms, of junk]
  by (auto simp add: validate_utf8_char_safe_for_display_def in_string_def)


section \<open>Strings that are safe to display\<close>

text \<open>
  \<open>qubes_pure_string_safe_for_display\<close>: a do-while loop, so the test of the next byte
  against the terminator follows the advance.  A nonzero line length fails the assertion.
\<close>

function string_safe_loop :: "bytes \<Rightarrow> nat \<Rightarrow> bool option" where
  "string_safe_loop b i = do {
     c \<leftarrow> rd b i;
     adv \<leftarrow> (if 0x20 \<le> c \<and> c \<le> 0x7E then Some 1 else validate_utf8_char_safe_for_display b i);
     if 0 < adv then do {
       d \<leftarrow> rd b (i + nat adv);
       if d \<noteq> 0 then string_safe_loop b (i + nat adv) else Some True
     }
     else Some False
   }"
  by pat_completeness auto
termination
  by (relation "measure (\<lambda>(b, i). length b - i)") (auto dest!: rd_length)

declare string_safe_loop.simps [simp del]

definition qubes_pure_string_safe_for_display :: "bytes \<Rightarrow> nat \<Rightarrow> bool option" where
  "qubes_pure_string_safe_for_display untrusted_str line_length =
     (if line_length \<noteq> 0 then None else string_safe_loop untrusted_str 0)"

text \<open>The abstract meaning: a nonempty sequence of safe code points, encoded.\<close>

definition utf8_string :: "u32 list \<Rightarrow> bytes" where
  "utf8_string cps = concat (map (\<lambda>cp. utf8_encode (unat cp)) cps)"

definition display_safe :: "bytes \<Rightarrow> bool" where
  "display_safe s \<longleftrightarrow>
     (\<exists>cps. cps \<noteq> [] \<and> list_all qubes_pure_code_point_safe_for_display cps \<and> s = utf8_string cps)"

definition safe_char :: "u32 \<Rightarrow> bytes" where
  "safe_char cp = utf8_encode (unat cp)"

text \<open>One step of the scan: the length of the safe character at the index, or 0.\<close>

definition char_step :: "bytes \<Rightarrow> nat \<Rightarrow> int option" where
  "char_step b i = do {
     c \<leftarrow> rd b i;
     if 0x20 \<le> c \<and> c \<le> 0x7E then Some 1 else validate_utf8_char_safe_for_display b i
   }"

lemma char_step_shift: "char_step (pre @ t) (length pre) = char_step t 0"
  by (simp add: char_step_def validate_utf8_char_safe_for_display_def validate_utf8_shift
      cong: if_cong)


lemma byte_eq_0_iff [simp]: "n < 256 \<Longrightarrow> byte n = 0 \<longleftrightarrow> n = 0"
  using unat_byte [of n] by (auto simp add: byte_def simp del: unat_byte)

lemma utf8_encode_no_nul: "0 < n \<Longrightarrow> n < 0x140000 \<Longrightarrow> 0 \<notin> set (utf8_encode n)"
  by (auto simp add: utf8_encode_def less_mult_imp_div_less dest!: sym [of 0])

lemma utf8_encode_ascii: "n < 0x80 \<Longrightarrow> utf8_encode n = [byte n]"
  by (simp add: utf8_encode_def)

lemma utf8_encode_lead:
  assumes "0x80 \<le> n" and "n < 0x140000"
  shows "\<exists>c t. utf8_encode n = c # t \<and> 192 \<le> unat c"
proof -
  have "n < 0x800 \<Longrightarrow> n div 64 < 64" "n < 0x10000 \<Longrightarrow> n div 4096 < 32" "n div 262144 < 16"
    using assms by (simp_all add: less_mult_imp_div_less)
  then show ?thesis using assms(1) by (simp add: utf8_encode_def)
qed

lemma safe_char_no_nul: "qubes_pure_code_point_safe_for_display cp \<Longrightarrow> 0 \<notin> set (safe_char cp)"
  using safe_for_display_bounds(1,2) [of cp] by (simp add: safe_char_def utf8_encode_no_nul)

lemma safe_char_not_Nil [simp]: "safe_char cp \<noteq> []"
  by (simp add: safe_char_def utf8_encode_def)

lemma char_step_safe_char:
  assumes "qubes_pure_code_point_safe_for_display cp"
  shows "char_step (safe_char cp @ rest) 0 = Some (int (length (safe_char cp)))"
proof (cases "unat cp < 0x80")
  case True
  with assms have "0x20 \<le> unat cp" "unat cp \<le> 0x7E"
    using safe_for_display_bounds(1,3) [of cp] by auto
  with True show ?thesis
    by (simp add: safe_char_def utf8_encode_ascii char_step_def word_le_nat_alt)
next
  case False
  then have n: "0x80 \<le> unat cp" "unat cp < 0x140000"
    using safe_for_display_bounds(2) [OF assms] by simp_all
  from utf8_encode_lead [OF this] obtain c t where e: "utf8_encode (unat cp) = c # t" "192 \<le> unat c"
    by blast
  then have "\<not> (0x20 \<le> c \<and> c \<le> 0x7E)" by (simp add: word_le_nat_alt)
  with e(1) validate_utf8_encode [OF n, of rest] assms show ?thesis
    by (auto simp add: safe_char_def char_step_def validate_utf8_char_safe_for_display_def signed_len_def)
qed

lemma char_step_sound:
  assumes "char_step t 0 = Some m" and "0 < m"
  shows "\<exists>cp rest. qubes_pure_code_point_safe_for_display cp \<and> t = safe_char cp @ rest \<and>
     m = int (length (safe_char cp))"
proof -
  from assms(1) obtain c t' where t: "t = c # t'"
    by (cases t) (simp_all add: char_step_def rd_Nil)
  show ?thesis
  proof (cases "0x20 \<le> c \<and> c \<le> 0x7E")
    case True
    then have "unat c < 0x80" "0x20 \<le> unat c" "unat c \<le> 0x7E" by (simp_all add: word_le_nat_alt)
    then have "qubes_pure_code_point_safe_for_display (ucast c)" "safe_char (ucast c) = [c]"
      by (simp_all add: printable_ascii_safe_for_display word_le_nat_alt safe_char_def utf8_encode_ascii)
    moreover have "m = 1" using assms(1) True t by (simp add: char_step_def)
    ultimately show ?thesis using t by (intro exI [of _ "ucast c"]) simp
  next
    case False
    with assms t have "validate_utf8_char_and_return_len t 0 = Some m"
      by (auto simp add: char_step_def validate_utf8_char_safe_for_display_def bind_eq_Some_conv
          split: if_splits)
    from validate_utf8_sound [OF this assms(2)] obtain n rest where
      n: "n < 0x140000" "qubes_pure_code_point_safe_for_display (word_of_nat n)"
        "t = utf8_encode n @ rest" "m = int (length (utf8_encode n))"
      unfolding encodes_safe_def by blast
    moreover have "unat (word_of_nat n :: u32) = n"
      using n(1) by (intro unat_word_of_nat_small) simp
    ultimately show ?thesis by (intro exI [of _ "word_of_nat n"]) (auto simp add: safe_char_def)
  qed
qed


lemma char_step_in_string:
  assumes "s \<noteq> []"
  shows "\<exists>m. char_step (s @ 0 # junk) 0 = Some m \<and> 0 \<le> m \<and> m \<le> int (length s)"
proof -
  from assms obtain c t where s: "s = c # t" by (cases s) auto
  with validate_utf8_safe_in_string [OF assms, of junk] show ?thesis
    by (cases "0x20 \<le> c \<and> c \<le> 0x7E") (auto simp add: char_step_def)
qed

lemma char_step_nul: "char_step (0 # junk) 0 = Some 0"
  by (simp add: char_step_def validate_utf8_char_safe_for_display_def validate_utf8_Cons)

text \<open>Unique decoding: the first safe character of a string is determined by the string.\<close>

lemma safe_char_prefix_unique:
  assumes "qubes_pure_code_point_safe_for_display x" and "qubes_pure_code_point_safe_for_display y"
    and "safe_char x @ u = safe_char y @ v"
  shows "safe_char x = safe_char y \<and> u = v"
proof -
  have "length (safe_char x) = length (safe_char y)"
    using char_step_safe_char [OF assms(1), of u] char_step_safe_char [OF assms(2), of v] assms(3)
    by simp
  with assms(3) show ?thesis by simp
qed

lemma utf8_string_Nil [simp]: "utf8_string [] = []"
  and utf8_string_Cons: "utf8_string (cp # cps) = safe_char cp @ utf8_string cps"
  by (simp_all add: utf8_string_def safe_char_def)

lemma display_safe_Nil [simp]: "\<not> display_safe []"
  by (auto simp add: display_safe_def neq_Nil_conv utf8_string_Cons)

lemma display_safeE:
  assumes "display_safe s"
  obtains cp s' where "qubes_pure_code_point_safe_for_display cp" and "s = safe_char cp @ s'"
  using assms by (auto simp add: display_safe_def neq_Nil_conv utf8_string_Cons)

lemma display_safe_append:
  assumes "qubes_pure_code_point_safe_for_display cp"
  shows "display_safe (safe_char cp @ s) \<longleftrightarrow> s = [] \<or> display_safe s"
proof
  assume "display_safe (safe_char cp @ s)"
  then obtain x xs where x: "qubes_pure_code_point_safe_for_display x"
    "list_all qubes_pure_code_point_safe_for_display xs" "safe_char cp @ s = safe_char x @ utf8_string xs"
    by (auto simp add: display_safe_def neq_Nil_conv utf8_string_Cons)
  with safe_char_prefix_unique [OF assms x(1,3)] show "s = [] \<or> display_safe s"
    by (cases xs) (auto simp add: display_safe_def)
next
  assume "s = [] \<or> display_safe s"
  then have "\<exists>cps. list_all qubes_pure_code_point_safe_for_display cps \<and> s = utf8_string cps"
    by (auto simp add: display_safe_def intro: exI [of _ "[]"])
  then obtain cps where "list_all qubes_pure_code_point_safe_for_display cps" "s = utf8_string cps"
    by blast
  with assms show "display_safe (safe_char cp @ s)"
    unfolding display_safe_def by (intro exI [of _ "cp # cps"]) (simp add: utf8_string_Cons)
qed

text \<open>
  The result of a call depends on the bytes before the first byte that is not a continuation
  byte: any such byte ends the character as the terminator does.
\<close>

lemma not_is_tail_0 [simp]: "\<not> is_tail 0"
  by (simp add: is_tail_def)

lemma utf8_tails_terminator:
  assumes "p < length s" and "\<not> is_tail z"
  shows "utf8_tails (s @ z # junk) p k cp = utf8_tails (s @ [0]) p k cp"
  using assms(1)
proof (induction k arbitrary: p cp)
  case (Suc k)
  show ?case
  proof (cases "p + 1 < length s")
    case True
    then show ?thesis using Suc.IH [OF True] by (simp add: rd_append_left)
  next
    case False
    with Suc.prems have "p + 1 = length s" by simp
    then have "rd (s @ z # junk) (p + 1) = Some z" "rd (s @ [0]) (p + 1) = Some 0" by simp_all
    then show ?thesis using assms(2) by (auto simp add: is_tail_def)
  qed
qed simp

lemma validate_utf8_junk:
  assumes "s \<noteq> []" and "\<not> is_tail z"
  shows "validate_utf8_char_and_return_len (s @ z # junk) 0 = validate_utf8_char_and_return_len (s @ [0]) 0"
proof -
  have fin: "utf8_finish (s @ z # junk) p n k cp = utf8_finish (s @ [0]) p n k cp"
    if "p < length s" for p n k cp
    unfolding utf8_finish_def utf8_tails_terminator [OF that assms(2)] ..
  from assms obtain c t where s: "s = c # t" by (cases s) auto
  have "utf8_finish (s @ z # junk) 0 n k cp = utf8_finish (s @ [0]) 0 n k cp" for n k cp
    using assms(1) by (intro fin) simp
  moreover have "utf8_finish (s @ z # junk) 1 n k cp = utf8_finish (s @ [0]) 1 n k cp" if "t \<noteq> []" for n k cp
    using s that by (intro fin) (cases t, simp_all)
  moreover have z: "(0xA0 \<le> z \<and> z \<le> 0xBF) = False" "(0x90 \<le> z \<and> z \<le> 0xBF) = False"
    using assms(2) by (auto simp add: is_tail_def word_le_nat_alt)
  ultimately show ?thesis
    using s by (cases t) (simp_all add: validate_utf8_char_and_return_len_def z cong: if_cong)
qed

lemma char_step_junk:
  assumes "s \<noteq> []" and "\<not> is_tail z"
  shows "char_step (s @ z # junk) 0 = char_step (s @ [0]) 0"
  using assms validate_utf8_junk [OF assms]
  by (cases s) (simp_all add: char_step_def validate_utf8_char_safe_for_display_def)

text \<open>
  The outcome of one scanning step on a nonempty string: either a safe character is split
  off, or the string is not safe.
\<close>

lemma char_step_cases:
  assumes "s \<noteq> []"
  obtains (safe) cp s' where "qubes_pure_code_point_safe_for_display cp" "s = safe_char cp @ s'"
      "char_step (s @ 0 # junk) 0 = Some (int (length (safe_char cp)))"
    | (unsafe) "char_step (s @ 0 # junk) 0 = Some 0" "\<not> display_safe s"
proof -
  obtain m where m: "char_step (s @ 0 # junk) 0 = Some m" "0 \<le> m" "m \<le> int (length s)"
    using char_step_in_string [OF assms] by blast
  show thesis
  proof (cases "0 < m")
    case True
    from char_step_sound [OF m(1) True] obtain cp rest where
      cp: "qubes_pure_code_point_safe_for_display cp" "s @ 0 # junk = safe_char cp @ rest"
        "m = int (length (safe_char cp))" by blast
    with m(3) have "s = safe_char cp @ drop (length (safe_char cp)) s"
      by (metis append_eq_conv_conj append_take_drop_id nat_int nat_le_iff of_nat_le_iff take_append
          take_all_iff append_Nil2 diff_is_0_eq take0)
    with cp m(1) show thesis by (intro safe) simp_all
  next
    case False
    with m(1,2) have "char_step (s @ 0 # junk) 0 = Some 0" by simp
    moreover from this have "\<not> display_safe s"
      by (auto elim!: display_safeE simp add: char_step_safe_char)
    ultimately show thesis by (rule unsafe)
  qed
qed

lemma string_safe_loop_step:
  "string_safe_loop b i = do {
     adv \<leftarrow> char_step b i;
     if 0 < adv then do {
       d \<leftarrow> rd b (i + nat adv);
       if d \<noteq> 0 then string_safe_loop b (i + nat adv) else Some True
     }
     else Some False
   }"
  by (simp add: string_safe_loop.simps [of b i] char_step_def)

lemma string_safe_loop_spec:
  assumes "0 \<notin> set s"
  shows "string_safe_loop (pre @ s @ 0 # junk) (length pre) = Some (display_safe s)"
  using assms
proof (induction "length s" arbitrary: s pre rule: less_induct)
  case less
  note step = string_safe_loop_step [of "pre @ s @ 0 # junk" "length pre"]
  show ?case
  proof (cases "s = []")
    case True
    then show ?thesis
      using char_step_shift [of pre "0 # junk"] unfolding step by (simp add: char_step_nul)
  next
    case False
    then show ?thesis
    proof (cases rule: char_step_cases [where junk = junk])
      case (safe cp s')
      let ?n = "length (safe_char cp)"
      have d: "rd (pre @ s @ 0 # junk) (length pre + ?n) = rd (s' @ 0 # junk) 0"
        using safe(2) rd_append_right [of "pre @ safe_char cp" "s' @ 0 # junk" 0] by simp
      have IH: "string_safe_loop (pre @ s @ 0 # junk) (length pre + ?n) = Some (display_safe s')"
        using less.hyps [of s' "pre @ safe_char cp"] less.prems safe(2) by simp
      have "display_safe s \<longleftrightarrow> s' = [] \<or> display_safe s'"
        using safe(1,2) by (simp add: display_safe_append)
      moreover have "char_step (pre @ s @ 0 # junk) (length pre) = Some (int ?n)"
        using safe(3) by (simp add: char_step_shift)
      ultimately show ?thesis
        unfolding step using d IH less.prems safe(2) by (cases s') simp_all
    next
      case unsafe
      then show ?thesis by (simp add: step char_step_shift)
    qed
  qed
qed

section \<open>Properties\<close>

text \<open>
  C30: \<open>validate_utf8_char_and_return_len\<close> returns a positive length exactly when the bytes
  at the pointer begin with the RFC 3629 encoding of a code point from 0x80 on that is safe to
  display, and the length is that of the encoding.  In particular overlong forms, surrogates
  and values past 0x10FFFF are refused.  Every ASCII byte is answered with -1, although the
  comment of the function lists \<open>%x20-7F\<close> in its grammar: its callers treat ASCII first.
\<close>

theorem validate_utf8_char_exact:
  "((\<exists>m > 0. validate_utf8_char_and_return_len (pre @ t) (length pre) = Some m \<and> k = nat m) \<longleftrightarrow>
    (\<exists>cp rest. 0x80 \<le> unat cp \<and> qubes_pure_code_point_safe_for_display cp \<and>
       t = utf8_encode (unat cp) @ rest \<and> k = length (utf8_encode (unat cp)))) \<and>
   validate_utf8_char_and_return_len (pre @ byte (n mod 0x80) # t) (length pre) = Some (- 1)"
  (is "(?L \<longleftrightarrow> ?R) \<and> ?A")
proof (intro conjI iffI)
  have "unat (byte (n mod 0x80)) < 0x80" by (simp add: byte_def unat_word_of_nat_small)
  then show ?A by (auto simp add: validate_utf8_char_and_return_len_def rd_def word_le_nat_alt word_unat_eq_iff nth_append)
next
  assume ?L
  then obtain m where m: "0 < m" "validate_utf8_char_and_return_len t 0 = Some m" "k = nat m"
    by (auto simp add: validate_utf8_shift)
  from validate_utf8_sound [OF m(2,1)] obtain n rest where n: "0x80 \<le> n" "n < 0x140000"
    "qubes_pure_code_point_safe_for_display (word_of_nat n)" "t = utf8_encode n @ rest"
    "m = int (length (utf8_encode n))" by (auto simp add: encodes_safe_def)
  moreover have "unat (word_of_nat n :: u32) = n"
    using n(2) by (intro unat_word_of_nat_small) simp
  ultimately show ?R using m(3) by (intro exI [of _ "word_of_nat n"]) auto
next
  assume ?R
  then obtain cp rest where cp: "0x80 \<le> unat cp" "qubes_pure_code_point_safe_for_display cp"
    "t = utf8_encode (unat cp) @ rest" "k = length (utf8_encode (unat cp))" by blast
  have "unat cp < 0x140000" using safe_for_display_bounds(2) [OF cp(2)] by simp
  from validate_utf8_encode [OF cp(1) this, of rest] cp show ?L
    by (intro exI [of _ "int k"]) (auto simp add: validate_utf8_shift signed_len_def utf8_encode_def)
qed

text \<open>
  C31: On every NUL-terminated buffer \<open>qubes_pure_string_safe_for_display\<close> stays inside the
  string, terminates, and returns true exactly when the string is a nonempty sequence of
  safe code points in UTF-8.
\<close>

theorem string_safe_for_display_iff:
  assumes "nul_terminated b"
  shows "qubes_pure_string_safe_for_display b 0 = Some (display_safe (c_str b))"
proof -
  from assms obtain junk where b: "b = c_str b @ 0 # junk" by (rule nul_terminated_split)
  have "string_safe_loop ([] @ c_str b @ 0 # junk) (length ([] :: bytes)) = Some (display_safe (c_str b))"
    by (rule string_safe_loop_spec) simp
  then have "string_safe_loop (c_str b @ 0 # junk) 0 = Some (display_safe (c_str b))" by simp
  then show ?thesis unfolding qubes_pure_string_safe_for_display_def by (subst b) simp
qed

lemma string_safe_for_display_iff_witness:
  "nul_terminated [0xCE, 0xB2, 0] \<and>
   qubes_pure_string_safe_for_display [0xCE, 0xB2, 0] 0 = Some (display_safe [0xCE, 0xB2]) \<and>
   qubes_pure_string_safe_for_display [0xC0, 0xAF, 0] 0 = Some False"
proof -
  have "c_str [0xCE, 0xB2, 0] = [0xCE, 0xB2]" by (simp add: c_str_def)
  then show ?thesis
    using string_safe_for_display_iff [of "[0xCE, 0xB2, 0]"]
    by (simp add: nul_terminated_def qubes_pure_string_safe_for_display_def string_safe_loop.simps
        validate_utf8_char_safe_for_display_def validate_utf8_Cons)
qed

end
