(* ===== verification/Display_Sanitize.thy ===== *)
theory Display_Sanitize
  imports Utf8_Display
begin

text \<open>
  \<open>qubes_pure_sanitize_string_safe_for_display\<close> of \<open>src/qrexec-lib/unicode.c\<close>, which
  copies a string into a bounded buffer and replaces what is not safe to display by
  underscores.  \<open>sanitize_text\<close> is the same computation without buffers and indices; the
  routine refines it, and its output is safe to display whatever the input.
\<close>

section \<open>Sanitising\<close>

text \<open>
  \<open>qubes_pure_sanitize_string_safe_for_display\<close>: the result buffer is written at \<open>j\<close>
  with bounds checks; the loop returns the buffer and the final \<open>j\<close>, and the caller adds
  the terminator.  \<open>copy_bytes\<close> is the inner loop over \<open>k\<close>.
\<close>

fun copy_bytes :: "bytes \<Rightarrow> bytes \<Rightarrow> nat \<Rightarrow> nat \<Rightarrow> nat \<Rightarrow> bytes option" where
  "copy_bytes b result i j 0 = Some result"
| "copy_bytes b result i j (Suc k) = do {
     c \<leftarrow> rd b i;
     result \<leftarrow> wr result j c;
     copy_bytes b result (i + 1) (j + 1) k
   }"

lemma utf8_finish_nonzero: "0 < t \<Longrightarrow> utf8_finish b p t k cp \<noteq> Some 0"
  by (auto simp add: utf8_finish_def bind_eq_Some_conv split: option.splits)

lemma validate_utf8_nonzero: "validate_utf8_char_and_return_len b p \<noteq> Some 0"
  by (auto simp add: validate_utf8_char_and_return_len_def bind_eq_Some_conv utf8_finish_nonzero
      split: if_splits)

function sanitize_loop :: "bytes \<Rightarrow> nat \<Rightarrow> nat \<Rightarrow> nat \<Rightarrow> bytes \<Rightarrow> (bytes \<times> nat) option" where
  "sanitize_loop b max_text_line_length i j result = do {
     c \<leftarrow> rd b i;
     if c \<noteq> 0 \<and> j < max_text_line_length then
       if 0x20 \<le> c \<and> c \<le> 0x7E then do {
         result \<leftarrow> wr result j c;
         sanitize_loop b max_text_line_length (i + 1) (j + 1) result
       }
       else do {
         utf8_ret \<leftarrow> validate_utf8_char_and_return_len b i;
         if utf8_ret < 0 then do {
           result \<leftarrow> wr result j 0x5F;
           sanitize_loop b max_text_line_length (i + nat (- utf8_ret)) (j + 1) result
         }
         else if nat utf8_ret \<ge> max_text_line_length - j then Some (result, j)
         else do {
           result \<leftarrow> copy_bytes b result i j (nat utf8_ret);
           sanitize_loop b max_text_line_length (i + nat utf8_ret) (j + nat utf8_ret) result
         }
       }
     else Some (result, j)
   }"
  by pat_completeness auto
termination
proof (relation "measure (\<lambda>(b, m, i, j, r). (length b - i) + (m - j))", goal_cases)
  case 1
  show ?case by simp
next
  case (4 b m i j result c r r')
  then have "r \<noteq> 0" using validate_utf8_nonzero by metis
  with 4 show ?case by (auto dest!: rd_length)
qed (auto dest!: rd_length)

declare sanitize_loop.simps [simp del]

definition qubes_pure_sanitize_string_safe_for_display ::
    "bytes \<Rightarrow> bytes \<Rightarrow> nat \<Rightarrow> (bytes \<times> nat) option" where
  "qubes_pure_sanitize_string_safe_for_display untrusted_str result max_line_length =
     (if max_line_length = 0 then Some (result, 0)
      else do {
        (result, j) \<leftarrow> sanitize_loop untrusted_str (max_line_length - 1) 0 0 result;
        result \<leftarrow> wr result j 0;
        Some (result, j + 1)
      })"


subsection \<open>The text the sanitiser produces\<close>

text \<open>The three kinds of character a nonempty string can start with.\<close>

definition printable :: "u8 \<Rightarrow> bool" where
  "printable c \<longleftrightarrow> 0x20 \<le> c \<and> c \<le> 0x7E"

lemma printable_nonzero: "printable c \<Longrightarrow> c \<noteq> 0"
  by (auto simp add: printable_def)

lemma lead_char_cases:
  assumes "s \<noteq> []"
  obtains (ascii) c t where "s = c # t" "printable c"
    | (utf8) cp t where "qubes_pure_code_point_safe_for_display cp" "s = safe_char cp @ t"
        "0x80 \<le> unat cp" "\<not> printable (hd s)"
        "validate_utf8_char_and_return_len (s @ 0 # junk) 0 = Some (int (length (safe_char cp)))"
    | (bad) r where "\<not> printable (hd s)" "0 < r" "r \<le> length s"
        "validate_utf8_char_and_return_len (s @ 0 # junk) 0 = Some (- int r)"
proof (cases "printable (hd s)")
  case True
  with assms ascii show thesis by (cases s) auto
next
  case False
  from assms obtain c t where s: "s = c # t" by (cases s) auto
  obtain m where m: "validate_utf8_char_and_return_len (s @ 0 # junk) 0 = Some m" "m \<noteq> 0"
    "\<bar>m\<bar> \<le> int (length s)"
    using validate_utf8_in_string [OF assms, of junk] by (auto simp add: in_string_def)
  show thesis
  proof (cases "0 < m")
    case True
    have cs: "char_step (s @ 0 # junk) 0 = Some m"
      using m(1) True False s
      by (auto simp add: char_step_def validate_utf8_char_safe_for_display_def printable_def)
    with True show thesis
    proof (cases rule: char_step_cases [OF assms, where junk = junk])
      case (1 cp t)
      have "0x80 \<le> unat cp"
      proof (rule ccontr)
        assume "\<not> 0x80 \<le> unat cp"
        then have "s = byte (unat cp) # t" "0x20 \<le> unat cp" "unat cp \<le> 0x7E"
          using 1(1,2) safe_for_display_bounds(1,3) [OF 1(1)] by (auto simp add: safe_char_def utf8_encode_ascii)
        with False show False by (simp add: printable_def word_le_nat_alt)
      qed
      with 1 False m(1) cs show thesis by (intro utf8 [of cp t]) simp_all
    next
      case 2
      with cs True show thesis by simp
    qed
  next
    case False': False
    with m False show thesis by (intro bad [of "nat (- m)"]) simp_all
  qed
qed


text \<open>
  The sanitised text of a string within a budget of bytes: the sanitiser without buffers
  and indices.
\<close>

function sanitize_text :: "nat \<Rightarrow> bytes \<Rightarrow> bytes" where
  "sanitize_text m s =
     (if s = [] \<or> m = 0 then []
      else if printable (hd s) then hd s # sanitize_text (m - 1) (tl s)
      else
        (case validate_utf8_char_and_return_len (s @ [0]) 0 of
           None \<Rightarrow> []
         | Some r \<Rightarrow>
             if r < 0 then 0x5F # sanitize_text (m - 1) (drop (nat (- r)) s)
             else if m \<le> nat r then []
             else take (nat r) s @ sanitize_text (m - nat r) (drop (nat r) s)))"
  by pat_completeness auto
termination
proof (relation "measure (\<lambda>(m, s). m)", goal_cases)
  case (4 m s r)
  then have "r \<noteq> 0" using validate_utf8_nonzero by metis
  with 4 show ?case by auto
qed auto

declare sanitize_text.simps [simp del]

lemma sanitize_text_Nil [simp]: "sanitize_text m [] = []"
  and sanitize_text_0 [simp]: "sanitize_text 0 s = []"
  by (simp_all add: sanitize_text.simps)

lemma sanitize_text_printable:
  "0 < m \<Longrightarrow> printable c \<Longrightarrow> sanitize_text m (c # t) = c # sanitize_text (m - 1) t"
  by (simp add: sanitize_text.simps [of m "c # t"])

lemma sanitize_text_bad:
  assumes "0 < m" "s \<noteq> []" "\<not> printable (hd s)"
    "validate_utf8_char_and_return_len (s @ 0 # junk) 0 = Some (- int r)" "0 < r"
  shows "sanitize_text m s = 0x5F # sanitize_text (m - 1) (drop r s)"
  using assms by (simp add: sanitize_text.simps [of m s] validate_utf8_junk [of s 0 junk])

lemma validate_utf8_safe_char:
  assumes "qubes_pure_code_point_safe_for_display cp" and "0x80 \<le> unat cp"
  shows "validate_utf8_char_and_return_len (safe_char cp @ t) 0 = Some (int (length (safe_char cp)))"
    and "\<not> printable (hd (safe_char cp))"
proof -
  have n: "unat cp < 0x140000" using safe_for_display_bounds(2) [OF assms(1)] by simp
  show "validate_utf8_char_and_return_len (safe_char cp @ t) 0 = Some (int (length (safe_char cp)))"
    using validate_utf8_encode [OF assms(2) n] assms(1) by (simp add: safe_char_def signed_len_def)
  show "\<not> printable (hd (safe_char cp))"
    using utf8_encode_lead [OF assms(2) n] by (auto simp add: safe_char_def printable_def word_le_nat_alt)
qed

lemma sanitize_text_safe_char:
  assumes "qubes_pure_code_point_safe_for_display cp" and "0x80 \<le> unat cp" and "0 < m"
  shows "sanitize_text m (safe_char cp @ t) =
     (if m \<le> length (safe_char cp) then []
      else safe_char cp @ sanitize_text (m - length (safe_char cp)) t)"
  using assms validate_utf8_safe_char(1) [OF assms(1,2), of "t @ [0]"] validate_utf8_safe_char(2) [OF assms(1,2)]
  by (simp add: sanitize_text.simps [of m "safe_char cp @ t"])


subsection \<open>The sanitiser writes that text\<close>

definition overwrite :: "'a list \<Rightarrow> nat \<Rightarrow> 'a list \<Rightarrow> 'a list" where
  "overwrite buf j xs = take j buf @ xs @ drop (j + length xs) buf"

lemma overwrite_Nil [simp]: "overwrite buf j [] = buf"
  by (simp add: overwrite_def)

lemma length_overwrite [simp]: "j + length xs \<le> length buf \<Longrightarrow> length (overwrite buf j xs) = length buf"
  by (simp add: overwrite_def)

lemma list_update_overwrite: "j < length buf \<Longrightarrow> buf[j := c] = overwrite buf j [c]"
  by (simp add: overwrite_def upd_conv_take_nth_drop)

lemma overwrite_overwrite:
  "j + length xs + length ys \<le> length buf \<Longrightarrow>
     overwrite (overwrite buf j xs) (j + length xs) ys = overwrite buf j (xs @ ys)"
  by (cases "xs = []") (auto simp add: overwrite_def min_def ac_simps neq_Nil_conv)

lemma overwrite_overwrite_Cons:
  "j + 1 + length ys \<le> length buf \<Longrightarrow> overwrite (overwrite buf j [c]) (Suc j) ys = overwrite buf j (c # ys)"
  using overwrite_overwrite [of j "[c]" ys buf] by simp

lemma copy_bytes_overwrite:
  "j + length xs \<le> length buf \<Longrightarrow>
     copy_bytes (pre @ xs @ rest) buf (length pre) j (length xs) = Some (overwrite buf j xs)"
proof (induction xs arbitrary: pre buf j)
  case (Cons c xs)
  have "copy_bytes ((pre @ [c]) @ xs @ rest) (overwrite buf j [c]) (length (pre @ [c])) (Suc j) (length xs) =
      Some (overwrite (overwrite buf j [c]) (Suc j) xs)"
    using Cons.prems by (intro Cons.IH) simp
  with Cons.prems show ?case
    by (simp add: wr_def list_update_overwrite overwrite_overwrite_Cons)
qed simp

lemma length_sanitize_text: "length (sanitize_text m s) \<le> m"
proof (induction m s rule: sanitize_text.induct)
  case (1 m s)
  then show ?case
    by (subst sanitize_text.simps) (auto simp add: min_def split: option.splits, linarith)
qed

lemma sanitize_loop_spec:
  assumes "0 \<notin> set s" and "j \<le> m" and "m \<le> length buf"
  shows "sanitize_loop (pre @ s @ 0 # junk) m (length pre) j buf =
     Some (overwrite buf j (sanitize_text (m - j) s), j + length (sanitize_text (m - j) s))"
  using assms
proof (induction "length s" arbitrary: s pre j buf rule: less_induct)
  case less
  let ?b = "pre @ s @ 0 # junk"
  note unf = sanitize_loop.simps [of ?b m "length pre" j buf]
  show ?case
  proof (cases "s = [] \<or> j = m")
    case True
    then show ?thesis unfolding unf by (cases s) auto
  next
    case False
    then have ne: "s \<noteq> []" and jm: "j < m" "0 < m - j" using less.prems(2) by auto
    have hd: "rd ?b (length pre) = Some (hd s)" "hd s \<noteq> 0" using ne less.prems(1) by (cases s; auto)+
    have wr1: "wr buf j c = Some (overwrite buf j [c])" for c
      using jm(1) less.prems(3) by (simp add: wr_def list_update_overwrite)
    have V: "validate_utf8_char_and_return_len ?b (length pre) = validate_utf8_char_and_return_len (s @ 0 # junk) 0"
      by (rule validate_utf8_shift)
    have IH: "sanitize_loop ?b m (length pre + length xs) (j + length ys) (overwrite buf j ys) =
        Some (overwrite (overwrite buf j ys) (j + length ys) (sanitize_text (m - (j + length ys)) t),
          j + length ys + length (sanitize_text (m - (j + length ys)) t))"
      if "s = xs @ t" "xs \<noteq> []" "j + length ys \<le> m" for xs ys t
      using less.hyps [of t "j + length ys" "overwrite buf j ys" "pre @ xs"] less.prems that by simp
    from ne show ?thesis
    proof (cases rule: lead_char_cases [where junk = junk])
      case (ascii c t)
      have "sanitize_text (m - j) s = c # sanitize_text (m - Suc j) t"
        using ascii jm by (simp add: sanitize_text_printable)
      moreover have "length (sanitize_text (m - Suc j) t) \<le> m - Suc j" by (rule length_sanitize_text)
      ultimately show ?thesis
        unfolding unf using hd jm ascii less.prems(3) IH [of "[c]" t "[c]"]
        by (simp add: wr1 printable_def overwrite_overwrite_Cons)
    next
      case (utf8 cp t)
      let ?n = "length (safe_char cp)"
      have np: "(0x20 \<le> hd s \<and> hd s \<le> 0x7E) = False" using utf8(4) by (simp add: printable_def)
      have st: "sanitize_text (m - j) s =
          (if m - j \<le> ?n then [] else safe_char cp @ sanitize_text (m - (j + ?n)) t)"
        using sanitize_text_safe_char [OF utf8(1,3) jm(2), of t] utf8(2) by simp
      show ?thesis
      proof (cases "m - j \<le> ?n")
        case True
        then show ?thesis unfolding unf using hd jm V utf8(5) st by (simp add: np)
      next
        case False
        have "copy_bytes ?b buf (length pre) j ?n = Some (overwrite buf j (safe_char cp))"
          using copy_bytes_overwrite [of j "safe_char cp" buf pre "t @ 0 # junk"] False utf8(2) less.prems(3)
          by simp
        moreover have np2: "(0x20 \<le> hd (safe_char cp) \<and> hd (safe_char cp) \<le> 0x7E) = False"
          using validate_utf8_safe_char(2) [OF utf8(1,3)] by (simp add: printable_def)
        moreover have "length (sanitize_text (m - (j + ?n)) t) \<le> m - (j + ?n)"
          by (rule length_sanitize_text)
        ultimately show ?thesis
          unfolding unf using hd jm V utf8(2,5) st False IH [of "safe_char cp" t "safe_char cp"] less.prems(3)
          by (simp add: np2 overwrite_overwrite)
      qed
    next
      case (bad r)
      have np: "(0x20 \<le> hd s \<and> hd s \<le> 0x7E) = False" using bad(1) by (simp add: printable_def)
      have st: "sanitize_text (m - j) s = 0x5F # sanitize_text (m - Suc j) (drop r s)"
        using sanitize_text_bad [OF jm(2) ne bad(1,4,2)] by simp
      moreover have "length (sanitize_text (m - Suc j) (drop r s)) \<le> m - Suc j"
        by (rule length_sanitize_text)
      moreover have "length (take r s) = r" using bad(3) by simp
      ultimately show ?thesis
        unfolding unf using hd jm V bad(2,3,4) ne IH [of "take r s" "drop r s" "[0x5F]"] less.prems(3)
        by (simp add: np wr1 overwrite_overwrite_Cons del: length_take)
    qed
  qed
qed


lemma sanitize_spec:
  assumes "nul_terminated b" and "0 < n" and "n \<le> length result"
  shows "qubes_pure_sanitize_string_safe_for_display b result n =
     Some (overwrite result 0 (sanitize_text (n - 1) (c_str b) @ [0]),
           length (sanitize_text (n - 1) (c_str b)) + 1)"
proof -
  let ?t = "sanitize_text (n - 1) (c_str b)"
  from assms(1) obtain junk where b: "b = c_str b @ 0 # junk" by (rule nul_terminated_split)
  have len: "length ?t \<le> n - 1" by (rule length_sanitize_text)
  have loop: "sanitize_loop b (n - 1) 0 0 result = Some (overwrite result 0 ?t, length ?t)"
    using sanitize_loop_spec [of "c_str b" 0 "n - 1" result "[]" junk] b assms(3) by simp
  have "wr (overwrite result 0 ?t) (length ?t) 0 = Some (overwrite result 0 (?t @ [0]))"
    using len assms(2,3) overwrite_overwrite [of 0 ?t "[0]" result]
    by (simp add: wr_def list_update_overwrite)
  with loop assms(2) show ?thesis by (simp add: qubes_pure_sanitize_string_safe_for_display_def)
qed

subsection \<open>The produced text is safe to display\<close>

lemma printable_display_safe: "printable c \<Longrightarrow> display_safe (c # t) \<longleftrightarrow> t = [] \<or> display_safe t"
proof -
  assume "printable c"
  then have "qubes_pure_code_point_safe_for_display (ucast c)" "safe_char (ucast c) = [c]"
    by (simp_all add: printable_def printable_ascii_safe_for_display word_le_nat_alt safe_char_def
        utf8_encode_ascii)
  then show ?thesis using display_safe_append [of "ucast c" t] by simp
qed

lemma sanitize_text_induct [case_names empty ascii utf8 full bad]:
  assumes empty: "\<And>m s. s = [] \<or> m = 0 \<Longrightarrow> P m s"
    and ascii: "\<And>m c t. 0 < m \<Longrightarrow> printable c \<Longrightarrow> P (m - 1) t \<Longrightarrow> P m (c # t)"
    and utf8: "\<And>m cp t. length (safe_char cp) < m \<Longrightarrow> qubes_pure_code_point_safe_for_display cp \<Longrightarrow>
       0x80 \<le> unat cp \<Longrightarrow> P (m - length (safe_char cp)) t \<Longrightarrow> P m (safe_char cp @ t)"
    and full: "\<And>m cp t. 0 < m \<Longrightarrow> m \<le> length (safe_char cp) \<Longrightarrow>
       qubes_pure_code_point_safe_for_display cp \<Longrightarrow> 0x80 \<le> unat cp \<Longrightarrow> P m (safe_char cp @ t)"
    and bad: "\<And>m s r. 0 < m \<Longrightarrow> s \<noteq> [] \<Longrightarrow> \<not> printable (hd s) \<Longrightarrow> 0 < r \<Longrightarrow> r \<le> length s \<Longrightarrow>
       validate_utf8_char_and_return_len (s @ [0]) 0 = Some (- int r) \<Longrightarrow> P (m - 1) (drop r s) \<Longrightarrow> P m s"
  shows "P m s"
proof (induction "length s" arbitrary: m s rule: less_induct)
  case less
  show ?case
  proof (cases "s = [] \<or> m = 0")
    case True
    then show ?thesis by (rule empty)
  next
    case False
    then have "s \<noteq> []" "0 < m" by auto
    from this(1) show ?thesis
    proof (cases rule: lead_char_cases [where junk = "[]"])
      case (ascii c t)
      with less.hyps [of t] \<open>0 < m\<close> show ?thesis by (simp add: assms(2))
    next
      case (utf8 cp t)
      then have "length t < length s" by simp
      with less.hyps utf8 \<open>0 < m\<close> show ?thesis
        by (cases "length (safe_char cp) < m") (simp_all add: assms(3,4))
    next
      case (bad r)
      then have "length (drop r s) < length s" using \<open>s \<noteq> []\<close> by simp
      with less.hyps bad \<open>s \<noteq> []\<close> \<open>0 < m\<close> show ?thesis by (intro assms(5) [of m s r]) simp_all
    qed
  qed
qed

lemma sanitize_text_display_safe: "sanitize_text m s = [] \<or> display_safe (sanitize_text m s)"
proof (induction m s rule: sanitize_text_induct)
  case (bad m s r)
  have "printable 0x5F" by (simp add: printable_def)
  with bad show ?case by (auto simp add: sanitize_text_bad [where junk = "[]"] printable_display_safe)
qed (auto simp add: sanitize_text_printable printable_display_safe sanitize_text_safe_char display_safe_append)

lemma sanitize_text_no_nul: "0 \<notin> set s \<Longrightarrow> 0 \<notin> set (sanitize_text m s)"
proof (induction m s rule: sanitize_text_induct)
  case (bad m s r)
  then show ?case by (auto simp add: sanitize_text_bad [where junk = "[]"] dest: in_set_dropD)
qed (auto simp add: sanitize_text_printable sanitize_text_safe_char)

lemma sanitize_text_unchanged: "display_safe s \<Longrightarrow> length s < m \<Longrightarrow> sanitize_text m s = s"
proof (induction m s rule: sanitize_text_induct)
  case (bad m s r)
  then obtain cp t where cp: "qubes_pure_code_point_safe_for_display cp" "s = safe_char cp @ t"
    by (elim display_safeE)
  from bad obtain c u where s: "s = c # u" by (cases s) auto
  have "char_step (s @ [0]) 0 = Some (int (length (safe_char cp)))"
    unfolding cp(2) using char_step_safe_char [OF cp(1), of "t @ [0]"] by simp
  moreover have "char_step (s @ [0]) 0 = Some 0"
    using bad s by (auto simp add: char_step_def validate_utf8_char_safe_for_display_def printable_def)
  ultimately show ?case by simp
next
  case (ascii m c t)
  then show ?case by (cases "t = []") (auto simp add: sanitize_text_printable printable_display_safe)
next
  case (utf8 m cp t)
  then show ?case
    using sanitize_text_safe_char [of cp m t] by (cases "t = []") (auto simp add: display_safe_append)
qed auto

lemma sanitize_text_idem: "sanitize_text m (sanitize_text m s) = sanitize_text m s"
proof (induction m s rule: sanitize_text_induct)
  case (bad m s r)
  have "printable 0x5F" by (simp add: printable_def)
  with bad show ?case by (simp add: sanitize_text_bad [where junk = "[]"] sanitize_text_printable)
qed (auto simp add: sanitize_text_printable sanitize_text_safe_char)


section \<open>Properties\<close>

text \<open>
  C32: Whatever the input string, the sanitiser stays inside both buffers, writes at most
  \<open>max_line_length\<close> bytes, and what it writes is a NUL-terminated string that is empty or
  passes \<open>qubes_pure_string_safe_for_display\<close>; the rest of the result buffer is untouched.
\<close>

theorem sanitize_output_safe:
  assumes "nul_terminated b" and "0 < n" and "n \<le> length result"
  shows "\<exists>out. length out < n \<and> 0 \<notin> set out \<and>
     qubes_pure_sanitize_string_safe_for_display b result n =
       Some (out @ [0] @ drop (length out + 1) result, length out + 1) \<and>
     (out = [] \<or> qubes_pure_string_safe_for_display (out @ [0]) 0 = Some True)"
proof -
  let ?t = "sanitize_text (n - 1) (c_str b)"
  have t: "0 \<notin> set ?t" "length ?t < n"
    using length_sanitize_text [of "n - 1" "c_str b"] assms(2) sanitize_text_no_nul [of "c_str b" "n - 1"]
    by auto
  have "?t = [] \<or> qubes_pure_string_safe_for_display (?t @ [0]) 0 = Some True"
    using sanitize_text_display_safe [of "n - 1" "c_str b"] t(1)
      string_safe_loop_spec [of ?t "[]" "[]"]
    by (auto simp add: qubes_pure_string_safe_for_display_def)
  with t sanitize_spec [OF assms] show ?thesis
    by (intro exI [of _ ?t]) (simp add: overwrite_def)
qed

lemma sanitize_output_safe_witness:
  "nul_terminated [0x41, 0x80, 0] \<and> (\<exists>out. length out < 3 \<and> 0 \<notin> set out \<and>
     qubes_pure_sanitize_string_safe_for_display [0x41, 0x80, 0] [1, 2, 3, 4] 3 =
       Some (out @ [0] @ drop (length out + 1) [1, 2, 3, 4], length out + 1) \<and>
     (out = [] \<or> qubes_pure_string_safe_for_display (out @ [0]) 0 = Some True))"
  using sanitize_output_safe [of "[0x41, 0x80, 0]" 3 "[1, 2, 3, 4]"] by (simp add: nul_terminated_def)

text \<open>
  A string that is already safe to display passes through unchanged when the buffer has
  at least two bytes more than the string, and sanitising twice with the same limit gives
  what sanitising once gives.
\<close>

theorem sanitize_preserves_safe:
  assumes "0 \<notin> set s" and "0 < n" and "n \<le> length result"
  shows "(display_safe s \<and> length s + 1 < n \<longrightarrow>
       qubes_pure_sanitize_string_safe_for_display (s @ [0]) result n =
         Some (s @ [0] @ drop (length s + 1) result, length s + 1)) \<and>
     (\<forall>r k. qubes_pure_sanitize_string_safe_for_display (s @ [0]) result n = Some (r, k) \<longrightarrow>
       qubes_pure_sanitize_string_safe_for_display r result n = Some (r, k))"
proof -
  let ?t = "sanitize_text (n - 1) s"
  note sp = sanitize_spec [OF _ assms(2,3)]
  have "c_str (?t @ 0 # drop (length ?t + 1) result) = ?t"
    using sanitize_text_no_nul [OF assms(1)] by simp
  moreover have "?t = s" if "display_safe s" "length s + 1 < n"
    using that by (intro sanitize_text_unchanged) simp_all
  ultimately show ?thesis
    using sp [of "s @ [0]"] sp [of "?t @ 0 # drop (length ?t + 1) result"] assms(1)
    by (auto simp add: overwrite_def sanitize_text_idem)
qed

lemma sanitize_preserves_safe_witness:
  "display_safe [0x41] \<and>
   qubes_pure_sanitize_string_safe_for_display ([0x41] @ [0]) [9, 9, 9] 3 =
     Some ([0x41] @ [0] @ [9], 2)"
proof -
  have "printable 0x41" by (simp add: printable_def)
  then have "display_safe [0x41]" by (simp add: printable_display_safe)
  then show ?thesis using sanitize_preserves_safe [of "[0x41]" 3 "[9, 9, 9]"] by simp
qed

text \<open>
  C33: The space test of the sanitiser is one byte too strict: a safe multi-byte character
  that exactly fills the text part of the buffer is dropped, although character and
  terminator fit.
\<close>

theorem sanitize_drops_fitting_character:
  assumes "qubes_pure_code_point_safe_for_display cp" and "0x80 \<le> unat cp"
    and "length result = length (utf8_encode (unat cp)) + 1"
  shows "qubes_pure_sanitize_string_safe_for_display (utf8_encode (unat cp) @ [0]) result (length result) =
     Some (0 # tl result, 1)"
proof -
  have "c_str (safe_char cp @ [0]) = safe_char cp"
    using safe_char_no_nul [OF assms(1)] by simp
  moreover have "sanitize_text (length (safe_char cp)) (safe_char cp) = []"
    using sanitize_text_safe_char [OF assms(1,2), of "length (safe_char cp)" "[]"] by simp
  ultimately show ?thesis
    using sanitize_spec [of "safe_char cp @ [0]" "length result" result] assms(3)
    by (simp add: safe_char_def overwrite_def drop_Suc)
qed

lemma sanitize_drops_fitting_character_witness:
  "utf8_encode (unat (0x3B2 :: u32)) = [0xCE, 0xB2] \<and>
   qubes_pure_sanitize_string_safe_for_display [0xCE, 0xB2, 0] [7, 7, 7] 3 = Some ([0, 7, 7], 1)"
proof -
  have "qubes_pure_code_point_safe_for_display 0x3B2"
    by (simp add: qubes_pure_code_point_safe_for_display_def unicode_allowlist_table_def)
  then show ?thesis
    using sanitize_drops_fitting_character [of "0x3B2" "[7, 7, 7]"]
    by (simp add: utf8_encode_def byte_def numeral_3_eq_3)
qed

end
