(* ===== verification/Path_Validation.thy ===== *)
theory Path_Validation
  imports Utf8_Display
begin

text \<open>
  Path and symbolic-link validation of \<open>src/qrexec-lib/unicode.c\<close>: \<open>validate_path\<close>,
  \<open>flag_check\<close>, \<open>qubes_pure_validate_file_name\<close>, \<open>qubes_pure_validate_symbolic_link\<close> and
  their \<open>_v2\<close> forms, with the flags of \<open>pure.h\<close>.

  The scanner works on bytes and indices.  \<open>path_spec\<close> states what it decides in terms of
  the slash-separated components of the string; the scanner refines it on every
  NUL-terminated buffer.  The directory-traversal theorems are proved on components, by
  lexical resolution of a path below a directory.
\<close>

unbundle bit_operations_syntax

section \<open>Flags\<close>

definition QUBES_PURE_ALLOW_UNSAFE_CHARACTERS :: u32 where
  "QUBES_PURE_ALLOW_UNSAFE_CHARACTERS = push_bit 0 1"
definition QUBES_PURE_ALLOW_NON_CANONICAL_SYMLINKS :: u32 where
  "QUBES_PURE_ALLOW_NON_CANONICAL_SYMLINKS = push_bit 1 1"
definition QUBES_PURE_ALLOW_UNSAFE_SYMLINKS :: u32 where
  "QUBES_PURE_ALLOW_UNSAFE_SYMLINKS = push_bit 2 1"
definition QUBES_PURE_ALLOW_NON_CANONICAL_PATHS :: u32 where
  "QUBES_PURE_ALLOW_NON_CANONICAL_PATHS = push_bit 3 1"
definition QUBES_PURE_ALLOW_TRAILING_SLASH :: u32 where
  "QUBES_PURE_ALLOW_TRAILING_SLASH = push_bit 4 1"

lemmas flag_defs =
  QUBES_PURE_ALLOW_UNSAFE_CHARACTERS_def QUBES_PURE_ALLOW_NON_CANONICAL_SYMLINKS_def
  QUBES_PURE_ALLOW_UNSAFE_SYMLINKS_def QUBES_PURE_ALLOW_NON_CANONICAL_PATHS_def
  QUBES_PURE_ALLOW_TRAILING_SLASH_def

definition has_flag :: "u32 \<Rightarrow> u32 \<Rightarrow> bool" where
  "has_flag flags f \<longleftrightarrow> flags AND f \<noteq> 0"

definition flag_check :: "u32 \<Rightarrow> bool" where
  "flag_check flags =
     (let allowed = QUBES_PURE_ALLOW_UNSAFE_CHARACTERS OR QUBES_PURE_ALLOW_NON_CANONICAL_SYMLINKS OR
        QUBES_PURE_ALLOW_NON_CANONICAL_PATHS OR QUBES_PURE_ALLOW_TRAILING_SLASH OR
        QUBES_PURE_ALLOW_UNSAFE_SYMLINKS
      in flags AND NOT allowed = 0)"

section \<open>The scanner\<close>

text \<open>
  What the switch at the start of a path component does: return from the function,
  \<open>continue\<close> the loop (with the index before the loop's own increment), or leave the switch
  for the character check.
\<close>

datatype path_switch = Return int | Continue nat nat | Break nat int

definition path_component_start :: "bytes \<Rightarrow> u32 \<Rightarrow> nat \<Rightarrow> nat \<Rightarrow> int \<Rightarrow> path_switch option" where
  "path_component_start untrusted_name flags i allowed_leading_dotdot non_dotdot_components = do {
     c \<leftarrow> rd untrusted_name i;
     let allow_non_canonical = has_flag flags QUBES_PURE_ALLOW_NON_CANONICAL_PATHS;
     if c = 0 then None
     else if c = 0x2F then
       Some (if allow_non_canonical then Continue i allowed_leading_dotdot else Return (- EILSEQ))
     else if c = 0x2E then do {
       c1 \<leftarrow> rd untrusted_name (i + 1);
       if c1 = 0 \<or> c1 = 0x2F then
         Some (if allow_non_canonical then Continue i allowed_leading_dotdot else Return (- EILSEQ))
       else do {
         dotdot \<leftarrow> (if c1 = 0x2E then do {
             c2 \<leftarrow> rd untrusted_name (i + 2);
             Some (c2 = 0 \<or> c2 = 0x2F)
           } else Some False);
         Some (if dotdot then
             (if allowed_leading_dotdot < 1 then Return (- ENOLINK)
              else Continue (i + 1) (allowed_leading_dotdot - 1))
           else Break 0 (non_dotdot_components + 1))
       }
     }
     else Some (Break 0 (non_dotdot_components + 1))
   }"

text \<open>The character check: the number of bytes to advance, not positive for a refusal.\<close>

definition path_char :: "bytes \<Rightarrow> u32 \<Rightarrow> nat \<Rightarrow> int option" where
  "path_char untrusted_name flags i = do {
     c \<leftarrow> rd untrusted_name i;
     if c = 0 then None
     else if (0x20 \<le> c \<and> c \<le> 0x7E) \<or> has_flag flags QUBES_PURE_ALLOW_UNSAFE_CHARACTERS then Some 1
     else validate_utf8_char_safe_for_display untrusted_name i
   }"

lemma path_component_start_Continue:
  "path_component_start b flags i k n = Some (Continue j k') \<Longrightarrow> i \<le> j"
  by (auto simp add: path_component_start_def Let_def bind_eq_Some_conv split: if_splits)

text \<open>
  The loop; \<open>Inl\<close> is a return from inside it, \<open>Inr\<close> its normal exit with the final index
  and component count.
\<close>

function validate_path_loop :: "bytes \<Rightarrow> u32 \<Rightarrow> nat \<Rightarrow> nat \<Rightarrow> int \<Rightarrow> (int + nat \<times> int) option" where
  "validate_path_loop untrusted_name flags i allowed_leading_dotdot non_dotdot_components = do {
     c \<leftarrow> rd untrusted_name i;
     if c = 0 then Some (Inr (i, non_dotdot_components))
     else do {
       start \<leftarrow> (if i = 0 then Some True else do { d \<leftarrow> rd untrusted_name (i - 1); Some (d = 0x2F) });
       sw \<leftarrow> (if start
              then path_component_start untrusted_name flags i allowed_leading_dotdot non_dotdot_components
              else Some (Break allowed_leading_dotdot non_dotdot_components));
       (case sw of
          Return e \<Rightarrow> Some (Inl e)
        | Continue j allowed \<Rightarrow>
            validate_path_loop untrusted_name flags (j + 1) allowed non_dotdot_components
        | Break allowed components \<Rightarrow> do {
            utf8_ret \<leftarrow> path_char untrusted_name flags i;
            if utf8_ret > 0
            then validate_path_loop untrusted_name flags (i + nat utf8_ret) allowed components
            else Some (Inl (- EILSEQ))
          })
     }
   }"
  by pat_completeness auto
termination
  by (relation "measure (\<lambda>(b, flags, i, k, n). length b - i)")
    (auto dest!: rd_length path_component_start_Continue split: if_splits)

declare validate_path_loop.simps [simp del]

definition validate_path :: "bytes \<Rightarrow> nat \<Rightarrow> u32 \<Rightarrow> int option" where
  "validate_path untrusted_name allowed_leading_dotdot flags = do {
     c0 \<leftarrow> rd untrusted_name 0;
     if c0 = 0 then
       Some (if has_flag flags QUBES_PURE_ALLOW_NON_CANONICAL_PATHS then 0 else - ENOLINK)
     else if c0 = 0x2F then Some (- ENOLINK)
     else do {
       r \<leftarrow> validate_path_loop untrusted_name flags 0 allowed_leading_dotdot 0;
       (case r of
          Inl e \<Rightarrow> Some e
        | Inr (i, non_dotdot_components) \<Rightarrow> do {
            c \<leftarrow> rd untrusted_name i;
            if i < 1 \<or> c \<noteq> 0 then None
            else do {
              d \<leftarrow> rd untrusted_name (i - 1);
              Some (if \<not> has_flag flags QUBES_PURE_ALLOW_TRAILING_SLASH \<and> d = 0x2F then - EILSEQ
                    else non_dotdot_components)
            }
          })
     }
   }"

definition qubes_pure_validate_file_name_v2 :: "bytes \<Rightarrow> u32 \<Rightarrow> int option" where
  "qubes_pure_validate_file_name_v2 untrusted_filename flags =
     (if \<not> flag_check flags then Some (- EINVAL)
      else do {
        res \<leftarrow> validate_path untrusted_filename 0 flags;
        Some (if res > 0 then 0 else - EILSEQ)
      })"

definition qubes_pure_validate_file_name :: "bytes \<Rightarrow> bool option" where
  "qubes_pure_validate_file_name untrusted_filename = do {
     r \<leftarrow> qubes_pure_validate_file_name_v2 untrusted_filename QUBES_PURE_ALLOW_TRAILING_SLASH;
     Some (r = 0)
   }"

definition qubes_pure_validate_symbolic_link_v2 :: "bytes \<Rightarrow> bytes \<Rightarrow> u32 \<Rightarrow> int option" where
  "qubes_pure_validate_symbolic_link_v2 untrusted_name untrusted_target flags =
     (if \<not> flag_check flags then Some (- EINVAL)
      else do {
        depth \<leftarrow> validate_path untrusted_name 0 flags;
        if depth < 0 then Some (- EILSEQ)
        else if has_flag flags QUBES_PURE_ALLOW_UNSAFE_SYMLINKS then
          Some (if depth > 0 then 0 else - ENOLINK)
        else
          let flags = (if has_flag flags QUBES_PURE_ALLOW_NON_CANONICAL_SYMLINKS
                       then flags OR QUBES_PURE_ALLOW_NON_CANONICAL_PATHS else flags)
          in if depth < 2 then Some (- ENOLINK)
             else do {
               res \<leftarrow> validate_path untrusted_target (nat (depth - 2))
                 (flags OR QUBES_PURE_ALLOW_TRAILING_SLASH);
               Some (if res < 0 then res else 0)
             }
      })"

definition qubes_pure_validate_symbolic_link :: "bytes \<Rightarrow> bytes \<Rightarrow> bool option" where
  "qubes_pure_validate_symbolic_link untrusted_name untrusted_target = do {
     r \<leftarrow> qubes_pure_validate_symbolic_link_v2 untrusted_name untrusted_target
       QUBES_PURE_ALLOW_TRAILING_SLASH;
     Some (r = 0)
   }"


section \<open>What the scanner decides, by components\<close>

fun split_slash :: "bytes \<Rightarrow> bytes list" where
  "split_slash [] = [[]]"
| "split_slash (c # s) =
     (if c = 0x2F then [] # split_slash s
      else (case split_slash s of [] \<Rightarrow> [[c]] | x # xs \<Rightarrow> (c # x) # xs))"

abbreviation dot :: bytes where "dot \<equiv> [0x2E]"
abbreviation dotdot :: bytes where "dotdot \<equiv> [0x2E, 0x2E]"

definition chars_ok :: "u32 \<Rightarrow> bytes \<Rightarrow> bool" where
  "chars_ok flags c \<longleftrightarrow>
     has_flag flags QUBES_PURE_ALLOW_UNSAFE_CHARACTERS \<or>
     qubes_pure_string_safe_for_display (c @ [0]) 0 = Some True"

fun path_walk :: "u32 \<Rightarrow> nat \<Rightarrow> int \<Rightarrow> bytes list \<Rightarrow> int + int" where
  "path_walk flags k n [] = Inr n"
| "path_walk flags k n (c # cs) =
     (if c = [] then
        (if cs = [] then Inr n
         else if has_flag flags QUBES_PURE_ALLOW_NON_CANONICAL_PATHS then path_walk flags k n cs
         else Inl (- EILSEQ))
      else if c = dot then
        (if has_flag flags QUBES_PURE_ALLOW_NON_CANONICAL_PATHS then path_walk flags k n cs
         else Inl (- EILSEQ))
      else if c = dotdot then
        (if k < 1 then Inl (- ENOLINK) else path_walk flags (k - 1) n cs)
      else if chars_ok flags c then path_walk flags 0 (n + 1) cs
      else Inl (- EILSEQ))"

definition path_spec :: "u32 \<Rightarrow> nat \<Rightarrow> bytes \<Rightarrow> int" where
  "path_spec flags k s =
     (if s = [] then (if has_flag flags QUBES_PURE_ALLOW_NON_CANONICAL_PATHS then 0 else - ENOLINK)
      else if hd s = 0x2F then - ENOLINK
      else
        (case path_walk flags k 0 (split_slash s) of
           Inl e \<Rightarrow> e
         | Inr n \<Rightarrow>
             if \<not> has_flag flags QUBES_PURE_ALLOW_TRAILING_SLASH \<and> last s = 0x2F then - EILSEQ else n))"

lemma split_slash_not_Nil [simp]: "split_slash s \<noteq> []"
  by (induction s) (auto split: list.splits)

lemma split_slash_no_slash: "0x2F \<notin> set s \<Longrightarrow> split_slash s = [s]"
  by (induction s) auto

lemma split_slash_append: "0x2F \<notin> set c \<Longrightarrow> split_slash (c @ 0x2F # s) = c # split_slash s"
  by (induction c) auto

lemma first_component_cases:
  obtains (last) "0x2F \<notin> set s" | (more) c t where "0x2F \<notin> set c" "s = c @ 0x2F # t"
  by (metis split_list_first)

lemma split_slash_components: "c \<in> set (split_slash s) \<Longrightarrow> 0x2F \<notin> set c \<and> set c \<subseteq> set s"
proof (induction s arbitrary: c)
  case (Cons a s)
  then show ?case by (cases "split_slash s") (force split: if_splits)+
qed simp

section \<open>The scanner refines the specification\<close>

lemma chars_ok_iff:
  "0 \<notin> set c \<Longrightarrow> chars_ok flags c \<longleftrightarrow> has_flag flags QUBES_PURE_ALLOW_UNSAFE_CHARACTERS \<or> display_safe c"
  using string_safe_loop_spec [of c "[]" "[]"]
  by (simp add: chars_ok_def qubes_pure_string_safe_for_display_def)

text \<open>
  Scanning inside a component: \<open>scan_chars\<close> is the loop body after the switch.
\<close>

definition scan_chars :: "bytes \<Rightarrow> u32 \<Rightarrow> nat \<Rightarrow> nat \<Rightarrow> int \<Rightarrow> (int + nat \<times> int) option" where
  "scan_chars b flags i k n = do {
     adv \<leftarrow> path_char b flags i;
     if adv > 0 then validate_path_loop b flags (i + nat adv) k n else Some (Inl (- EILSEQ))
   }"

lemma rd_before: "pre \<noteq> [] \<Longrightarrow> rd (pre @ t) (length pre - 1) = Some (last pre)"
  by (cases pre rule: rev_cases) (simp_all add: rd_def nth_append)

lemma loop_inside:
  assumes "pre \<noteq> []" and "last pre \<noteq> 0x2F" and "c \<noteq> 0"
  shows "validate_path_loop (pre @ c # t) flags (length pre) k n = scan_chars (pre @ c # t) flags (length pre) k n"
  using assms rd_before [OF assms(1), of "c # t"]
  by (simp add: validate_path_loop.simps [of _ _ "length pre"] scan_chars_def)

lemma loop_at_nul: "validate_path_loop (pre @ 0 # t) flags (length pre) k n = Some (Inr (length pre, n))"
  by (simp add: validate_path_loop.simps)

lemma loop_at_slash:
  assumes "pre \<noteq> []" and "last pre \<noteq> 0x2F"
  shows "validate_path_loop (pre @ 0x2F # t) flags (length pre) k n =
     validate_path_loop ((pre @ [0x2F]) @ t) flags (length (pre @ [0x2F])) k n"
  using loop_inside [OF assms, of "0x2F"] by (simp add: scan_chars_def path_char_def)

lemma path_char_eq:
  assumes "c \<noteq> 0"
  shows "path_char (pre @ c # t) flags (length pre) =
     (if has_flag flags QUBES_PURE_ALLOW_UNSAFE_CHARACTERS then Some 1 else char_step (c # t) 0)"
  using assms char_step_shift [of pre "c # t"]
  by (auto simp add: path_char_def char_step_def)


text \<open>A component is followed by the terminator or by a slash.\<close>

definition path_delim :: "u8 \<Rightarrow> bool" where
  "path_delim z \<longleftrightarrow> z = 0 \<or> z = 0x2F"

lemma path_delim_not_tail: "path_delim z \<Longrightarrow> \<not> is_tail z"
  by (auto simp add: path_delim_def is_tail_def)

lemma scan_chars_component:
  assumes "u \<noteq> []" and "0 \<notin> set u" and "0x2F \<notin> set u" and "path_delim z"
  shows "scan_chars (pre @ u @ z # rest) flags (length pre) k n =
     (if chars_ok flags u then validate_path_loop (pre @ u @ z # rest) flags (length pre + length u) k n
      else Some (Inl (- EILSEQ)))"
  using assms(1-3)
proof (induction "length u" arbitrary: u pre rule: less_induct)
  case less
  let ?b = "pre @ u @ z # rest"
  have next_char: "validate_path_loop ?b flags (length pre + length x) k n =
      (if chars_ok flags v then validate_path_loop ?b flags (length pre + length u) k n
       else Some (Inl (- EILSEQ)))"
    if "u = x @ v" "x \<noteq> []" "v \<noteq> []" for x v
  proof -
    have "scan_chars ((pre @ x) @ v @ z # rest) flags (length (pre @ x)) k n =
      (if chars_ok flags v then validate_path_loop ((pre @ x) @ v @ z # rest) flags (length (pre @ x) + length v) k n
       else Some (Inl (- EILSEQ)))"
      using less.prems that by (intro less.hyps) auto
    moreover have "last (pre @ x) \<noteq> 0x2F" using that less.prems(3) by (metis UnI1 last_appendR last_in_set set_append)
    ultimately show ?thesis
      using that less.prems(2) loop_inside [of "pre @ x" "hd v" "tl v @ z # rest" flags k n]
      by (cases v) (auto simp add: add.assoc)
  qed
  from less.prems(1) obtain c t where u: "u = c # t" by (cases u) auto
  then have c: "path_char ?b flags (length pre) =
      (if has_flag flags QUBES_PURE_ALLOW_UNSAFE_CHARACTERS then Some 1 else char_step (u @ z # rest) 0)"
    using less.prems(2) path_char_eq [of c pre "t @ z # rest" flags] by auto
  show ?case
  proof (cases "has_flag flags QUBES_PURE_ALLOW_UNSAFE_CHARACTERS")
    case True
    then have "chars_ok flags v" for v by (simp add: chars_ok_def)
    with True c u next_char [of "[c]" t] show ?thesis
      by (cases "t = []") (simp_all add: scan_chars_def)
  next
    case False
    have cs: "char_step (u @ z # rest) 0 = char_step (u @ [0]) 0"
      using less.prems(1) path_delim_not_tail [OF assms(4)] by (rule char_step_junk)
    have ok: "chars_ok flags v \<longleftrightarrow> display_safe v" if "set v \<subseteq> set u" for v
      using that False less.prems(2) by (subst chars_ok_iff) auto
    from less.prems(1) show ?thesis
    proof (cases rule: char_step_cases [where junk = "[]"])
      case (safe cp t)
      with False c cs next_char [of "safe_char cp" t] display_safe_append [OF safe(1), of t]
      show ?thesis by (cases "t = []") (auto simp add: scan_chars_def ok)
    next
      case unsafe
      with False c cs show ?thesis by (simp add: scan_chars_def ok)
    qed
  qed
qed

text \<open>The switch, by component.\<close>

lemma path_component_start_spec:
  assumes "c \<noteq> []" and "0 \<notin> set c" and "0x2F \<notin> set c" and "path_delim z"
  shows "path_component_start (pre @ c @ z # rest) flags (length pre) k n =
     Some (if c = dot then
             (if has_flag flags QUBES_PURE_ALLOW_NON_CANONICAL_PATHS then Continue (length pre) k
              else Return (- EILSEQ))
           else if c = dotdot then
             (if k < 1 then Return (- ENOLINK) else Continue (length pre + 1) (k - 1))
           else Break 0 (n + 1))"
proof -
  note r = rd_append_right [of pre _ 1] rd_append_right [of pre _ 2]
  have z: "z = 0 \<or> z = 0x2F" using assms(4) by (simp add: path_delim_def)
  obtain x t where c: "c = x # t" using assms(1) by (cases c) auto
  show ?thesis
  proof (cases t)
    case Nil
    then show ?thesis
      using assms c z r by (simp add: path_component_start_def)
  next
    case (Cons y w)
    then have "rd (w @ z # rest) 0 = Some (if w = [] then z else hd w)" by (cases w) simp_all
    with Cons show ?thesis
      using assms c z r by (cases w) (auto simp add: path_component_start_def numeral_2_eq_2)
  qed
qed


lemma loop_component:
  assumes "c \<noteq> []" and "0 \<notin> set c" and "0x2F \<notin> set c" and "path_delim z"
    and "pre = [] \<or> last pre = 0x2F"
  shows "validate_path_loop (pre @ c @ z # rest) flags (length pre) k n =
     (let next = validate_path_loop (pre @ c @ z # rest) flags (length pre + length c)
      in if c = dot then
           (if has_flag flags QUBES_PURE_ALLOW_NON_CANONICAL_PATHS then next k n
            else Some (Inl (- EILSEQ)))
         else if c = dotdot then
           (if k < 1 then Some (Inl (- ENOLINK)) else next (k - 1) n)
         else if chars_ok flags c then next 0 (n + 1) else Some (Inl (- EILSEQ)))"
proof -
  let ?b = "pre @ c @ z # rest"
  have r0: "rd ?b (length pre) = Some (hd c)" and h: "hd c \<noteq> 0"
    using assms(1,2) by (cases c; auto)+
  have "(if length pre = 0 then Some True
      else do { d \<leftarrow> rd ?b (length pre - 1); Some (d = 0x2F) }) = Some True"
    using assms(5) rd_before [of pre "c @ z # rest"] by (cases "pre = []") auto
  then have step: "validate_path_loop ?b flags (length pre) k n =
      (case path_component_start ?b flags (length pre) k n of
         None \<Rightarrow> None
       | Some (Return e) \<Rightarrow> Some (Inl e)
       | Some (Continue j allowed) \<Rightarrow> validate_path_loop ?b flags (j + 1) allowed n
       | Some (Break allowed m) \<Rightarrow> scan_chars ?b flags (length pre) allowed m)"
    unfolding validate_path_loop.simps [of _ _ "length pre"] r0
    using h by (auto simp add: scan_chars_def split: option.split path_switch.split)
  consider "c = dot" | "c = dotdot" | "c \<noteq> dot" "c \<noteq> dotdot" by blast
  then show ?thesis
    unfolding step path_component_start_spec [OF assms(1-4)]
    by cases (simp_all add: Let_def scan_chars_component [OF assms(1-4)])
qed

lemma loop_empty_component:
  assumes "pre = [] \<or> last pre = 0x2F"
  shows "validate_path_loop (pre @ 0x2F # t) flags (length pre) k n =
     (if has_flag flags QUBES_PURE_ALLOW_NON_CANONICAL_PATHS
      then validate_path_loop ((pre @ [0x2F]) @ t) flags (length (pre @ [0x2F])) k n
      else Some (Inl (- EILSEQ)))"
  using assms rd_before [of pre "0x2F # t"]
  unfolding validate_path_loop.simps [of _ _ "length pre"]
  by (cases "pre = []") (simp_all add: path_component_start_def)

lemma loop_walk:
  assumes "0 \<notin> set s" and "pre = [] \<or> last pre = 0x2F"
  shows "validate_path_loop (pre @ s @ 0 # junk) flags (length pre) k n =
     Some (case path_walk flags k n (split_slash s) of
             Inl e \<Rightarrow> Inl e
           | Inr m \<Rightarrow> Inr (length pre + length s, m))"
  using assms
proof (induction "length s" arbitrary: s pre k n rule: less_induct)
  case less
  show ?case
  proof (cases s rule: first_component_cases)
    case last
    have nul: "validate_path_loop (pre @ s @ 0 # junk) flags (length pre + length s) k' n' =
        Some (Inr (length pre + length s, n'))" for k' n'
      using loop_at_nul [of "pre @ s" junk] by simp
    show ?thesis
    proof (cases "s = []")
      case True
      then show ?thesis using nul [of k n] by simp
    next
      case False
      then show ?thesis
        using less.prems last loop_component [of s 0 pre junk flags k n]
        unfolding Let_def nul by (simp add: split_slash_no_slash path_delim_def)
    qed
  next
    case (more c t)
    have IH: "validate_path_loop ((pre @ c @ [0x2F]) @ t @ 0 # junk) flags (length (pre @ c @ [0x2F])) k' n' =
       Some (case path_walk flags k' n' (split_slash t) of
             Inl e \<Rightarrow> Inl e
           | Inr m \<Rightarrow> Inr (length (pre @ c @ [0x2F]) + length t, m))" for k' n'
      using more less.prems by (intro less.hyps) auto
    show ?thesis
    proof (cases "c = []")
      case True
      then show ?thesis
        using more less.prems IH [of k n] loop_empty_component [of pre "t @ 0 # junk" flags k n]
        by (simp split: sum.split)
    next
      case False
      then have "last (pre @ c) \<noteq> 0x2F" using more by (metis last_appendR last_in_set)
      then have tail: "validate_path_loop (pre @ c @ 0x2F # t @ 0 # junk) flags (length pre + length c) k' n' =
          Some (case path_walk flags k' n' (split_slash t) of
             Inl e \<Rightarrow> Inl e
           | Inr m \<Rightarrow> Inr (length (pre @ c @ [0x2F]) + length t, m))" for k' n'
        using False IH [of k' n'] loop_at_slash [of "pre @ c" "t @ 0 # junk" flags k' n'] by simp
      show ?thesis
        using more less.prems False loop_component [of c "0x2F" pre "t @ 0 # junk" flags k n]
        unfolding Let_def tail
        by (simp add: split_slash_append path_delim_def split: sum.split)
    qed
  qed
qed

lemma validate_path_spec:
  assumes "0 \<notin> set s"
  shows "validate_path (s @ 0 # junk) k flags = Some (path_spec flags k s)"
proof (cases s)
  case Nil
  then show ?thesis by (simp add: validate_path_def path_spec_def)
next
  case (Cons c t)
  have "rd (s @ 0 # junk) (length s - 1) = Some (last s)"
    using Cons by (intro rd_before) simp
  moreover have "rd (s @ 0 # junk) (length s) = Some 0" by simp
  moreover have "c \<noteq> 0" using Cons assms by auto
  ultimately show ?thesis
    using loop_walk [OF assms, of "[]" junk flags k 0] Cons
    by (auto simp add: validate_path_def path_spec_def split: sum.splits)
qed

section \<open>Accepted names and link targets\<close>

definition normal_component :: "bytes \<Rightarrow> bool" where
  "normal_component c \<longleftrightarrow> c \<noteq> [] \<and> c \<noteq> dot \<and> c \<noteq> dotdot"

definition file_name_ok :: "u32 \<Rightarrow> bytes \<Rightarrow> bool" where
  "file_name_ok flags s \<longleftrightarrow>
     (let cs = split_slash s in
      s \<noteq> [] \<and> hd s \<noteq> 0x2F \<and> dotdot \<notin> set cs \<and> list_ex normal_component cs \<and>
      list_all (\<lambda>c. normal_component c \<longrightarrow> chars_ok flags c) cs \<and>
      (has_flag flags QUBES_PURE_ALLOW_NON_CANONICAL_PATHS \<or> [] \<notin> set (butlast cs) \<and> dot \<notin> set cs) \<and>
      (has_flag flags QUBES_PURE_ALLOW_TRAILING_SLASH \<or> last s \<noteq> 0x2F))"

text \<open>
  Lexical resolution of a relative path from a directory given by its components below
  some root: \<open>None\<close> when a \<open>..\<close> would leave that root.
\<close>

fun resolve :: "bytes list \<Rightarrow> bytes list \<Rightarrow> bytes list option" where
  "resolve st [] = Some st"
| "resolve st (c # cs) =
     (if c = [] \<or> c = dot then resolve st cs
      else if c = dotdot then (if st = [] then None else resolve (butlast st) cs)
      else resolve (st @ [c]) cs)"

lemma path_walk_Inr_iff:
  "path_walk flags 0 n cs = Inr m \<longleftrightarrow>
     m = n + int (length (filter normal_component cs)) \<and> dotdot \<notin> set cs \<and>
     list_all (\<lambda>c. normal_component c \<longrightarrow> chars_ok flags c) cs \<and>
     (has_flag flags QUBES_PURE_ALLOW_NON_CANONICAL_PATHS \<or> [] \<notin> set (butlast cs) \<and> dot \<notin> set cs)"
proof (induction cs arbitrary: n)
  case (Cons c cs)
  consider "c = []" | "c = dot" | "c = dotdot" | "normal_component c" "c \<noteq> []" "c \<noteq> dot" "c \<noteq> dotdot"
    by (auto simp add: normal_component_def)
  then show ?case
  proof cases
    case 1
    then have "\<not> normal_component c" by (simp add: normal_component_def)
    with 1 Cons show ?thesis by (cases "cs = []") auto
  next
    case 2
    then have "\<not> normal_component c" by (simp add: normal_component_def)
    with 2 Cons show ?thesis by (cases "cs = []") auto
  next
    case 3
    then show ?thesis by simp
  next
    case 4
    then show ?thesis using Cons [of "n + 1"] by (cases "cs = []") auto
  qed
qed auto

lemma path_walk_leading_dotdot:
  assumes "path_walk flags k n cs = Inr m" and "k < length st"
  shows "\<exists>r. resolve st cs = Some r \<and> r \<noteq> [] \<and> hd r = hd st"
  using assms
proof (induction cs arbitrary: k n st)
  case (Cons c cs)
  have pop: "hd (butlast st) = hd st" if "1 \<le> k"
    using that Cons.prems(2) by (cases st) auto
  show ?case
    using Cons.prems Cons.IH [of k n st] Cons.IH [of "k - 1" n "butlast st"]
      Cons.IH [of 0 "n + 1" "st @ [c]"] pop
    by (auto split: if_splits)
qed auto

lemma path_walk_error: "path_walk flags k n cs = Inl e \<Longrightarrow> e = - EILSEQ \<or> e = - ENOLINK"
  by (induction flags k n cs rule: path_walk.induct) (auto split: if_splits)

lemma path_walk_count: "path_walk flags k n cs = Inr m \<Longrightarrow> n \<le> m"
  by (induction flags k n cs rule: path_walk.induct) (force split: if_splits)+

lemma path_spec_range: "0 \<le> path_spec flags k s \<or> path_spec flags k s \<in> {- EILSEQ, - ENOLINK}"
  using path_walk_error [of flags k 0 "split_slash s"] path_walk_count [of flags k 0 "split_slash s"]
  by (auto simp add: path_spec_def split: sum.splits)

lemma validate_path_c_str:
  assumes "nul_terminated b"
  shows "validate_path b k flags = Some (path_spec flags k (c_str b))"
proof -
  from assms obtain junk where b: "b = c_str b @ 0 # junk" by (rule nul_terminated_split)
  show ?thesis by (subst b) (simp add: validate_path_spec)
qed

lemma path_spec_pos_iff: "0 < path_spec flags 0 s \<longleftrightarrow> file_name_ok flags s"
proof (cases "s = [] \<or> hd s = 0x2F")
  case True
  then show ?thesis by (auto simp add: path_spec_def file_name_ok_def)
next
  case False
  have ex: "list_ex normal_component cs \<longleftrightarrow> filter normal_component cs \<noteq> []" for cs
    by (induction cs) auto
  show ?thesis
  proof (cases "path_walk flags 0 0 (split_slash s)")
    case (Inl e)
    then have "\<not> file_name_ok flags s"
      using path_walk_Inr_iff [of flags 0 "split_slash s"] by (auto simp add: file_name_ok_def Let_def)
    with Inl False path_walk_error [OF Inl] show ?thesis by (auto simp add: path_spec_def)
  next
    case (Inr m)
    with False show ?thesis
      using Inr [unfolded path_walk_Inr_iff]
      by (auto simp add: path_spec_def file_name_ok_def Let_def ex)
  qed
qed

lemma path_spec_depth:
  assumes "0 < path_spec flags 0 s"
  shows "path_spec flags 0 s = int (length (filter normal_component (split_slash s)))"
  using assms path_walk_Inr_iff [of flags 0 "split_slash s"] path_walk_error [of flags 0 0 "split_slash s"]
  by (auto simp add: path_spec_def split: sum.splits if_splits)

lemma path_spec_accepted_walk:
  assumes "0 \<le> path_spec flags k s" and "s \<noteq> []"
  shows "hd s \<noteq> 0x2F \<and> (\<exists>m. path_walk flags k 0 (split_slash s) = Inr m)"
  using assms path_walk_error [of flags k 0 "split_slash s"]
  by (auto simp add: path_spec_def split: sum.splits if_splits)

text \<open>
  C34: On every NUL-terminated buffer the scanner \<open>validate_path\<close> reads only inside the
  buffer, trips none of its assertions, and returns exactly what the component-wise
  specification says, for every set of flags and every number of allowed leading \<open>..\<close>
  components.
\<close>

theorem validate_path_refines_spec:
  "nul_terminated b \<Longrightarrow> validate_path b k flags = Some (path_spec flags k (c_str b))"
  by (rule validate_path_c_str)

lemma validate_path_refines_spec_witness:
  "nul_terminated [0x61, 0x2F, 0x62, 0] \<and>
   validate_path [0x61, 0x2F, 0x62, 0] 0 1 = Some (path_spec 1 0 [0x61, 0x2F, 0x62]) \<and>
   path_spec 1 0 [0x61, 0x2F, 0x62] = 2"
proof -
  have "nul_terminated [0x61, 0x2F, 0x62, 0]" by (simp add: nul_terminated_def)
  moreover have "c_str [0x61, 0x2F, 0x62, 0] = [0x61, 0x2F, 0x62]" by (simp add: c_str_def)
  ultimately show ?thesis
    using validate_path_refines_spec [of "[0x61, 0x2F, 0x62, 0]" 0 1]
    by (simp add: path_spec_def chars_ok_def has_flag_def flag_defs)
qed

text \<open>
  C35: \<open>qubes_pure_validate_file_name_v2\<close> accepts a name exactly when the flags are known and
  the name is a relative path with at least one ordinary component, no \<open>..\<close> component, no
  empty or \<open>.\<close> component unless non-canonical paths are allowed, only display-safe UTF-8
  unless unsafe characters are allowed, and no trailing slash unless that is allowed.  In
  every other case it returns an error: \<open>EINVAL\<close> for unknown flags and \<open>EILSEQ\<close> otherwise.
\<close>

theorem validate_file_name_v2_iff:
  assumes "nul_terminated b"
  shows "qubes_pure_validate_file_name_v2 b flags =
     Some (if \<not> flag_check flags then - EINVAL
           else if file_name_ok flags (c_str b) then 0 else - EILSEQ)"
  using validate_path_c_str [OF assms, of 0 flags]
  by (simp add: qubes_pure_validate_file_name_v2_def path_spec_pos_iff)

lemma validate_file_name_v2_iff_witness:
  "qubes_pure_validate_file_name_v2 [0x61, 0x2F, 0x2E, 0x2E, 0] 1 = Some (- EILSEQ) \<and>
   qubes_pure_validate_file_name_v2 [0x61, 0x2F, 0x2E, 0x62, 0] 1 = Some 0"
proof -
  have "\<not> file_name_ok 1 [0x61, 0x2F, 0x2E, 0x2E]" "file_name_ok 1 [0x61, 0x2F, 0x2E, 0x62]"
    by (simp_all add: file_name_ok_def normal_component_def chars_ok_def has_flag_def flag_defs)
  moreover have "flag_check 1" by (simp add: flag_check_def flag_defs)
  ultimately show ?thesis
    using validate_file_name_v2_iff [of "[0x61, 0x2F, 0x2E, 0x2E, 0]" 1]
      validate_file_name_v2_iff [of "[0x61, 0x2F, 0x2E, 0x62, 0]" 1]
    by (simp add: nul_terminated_def c_str_def)
qed

text \<open>
  C36: A symbolic link that is accepted has a name that is a relative path without \<open>..\<close>.  Either
  \<open>QUBES_PURE_ALLOW_UNSAFE_SYMLINKS\<close> was given, and then every target is accepted, or the
  link cannot point out of the top-level directory of its own name: the target is not absolute,
  and resolving it by its components from the directory that holds the link ends in a
  directory with the same first component.
\<close>

theorem symbolic_link_contained:
  assumes "nul_terminated name" and "nul_terminated target"
    and "qubes_pure_validate_symbolic_link_v2 name target flags = Some 0"
  shows "file_name_ok flags (c_str name) \<and>
     (has_flag flags QUBES_PURE_ALLOW_UNSAFE_SYMLINKS \<and>
        qubes_pure_validate_symbolic_link_v2 name any_target flags = Some 0 \<or>
      (c_str target = [] \<or> hd (c_str target) \<noteq> 0x2F) \<and>
      (let dir = butlast (filter normal_component (split_slash (c_str name)))
       in \<exists>r. resolve dir (split_slash (c_str target)) = Some r \<and> r \<noteq> [] \<and> hd r = hd dir))"
proof (cases "has_flag flags QUBES_PURE_ALLOW_UNSAFE_SYMLINKS")
  case True
  with assms(3) have "0 < path_spec flags 0 (c_str name)"
    "qubes_pure_validate_symbolic_link_v2 name any_target flags = Some 0"
    by (auto simp add: qubes_pure_validate_symbolic_link_v2_def validate_path_c_str [OF assms(1)] split: if_splits)
  with True show ?thesis by (simp add: path_spec_pos_iff)
next
  case False
  let ?cs = "filter normal_component (split_slash (c_str name))"
  let ?d = "path_spec flags 0 (c_str name)"
  obtain flags' where t: "2 \<le> ?d" "0 \<le> path_spec flags' (nat (?d - 2)) (c_str target)"
    using assms(3) False
    by (auto simp add: qubes_pure_validate_symbolic_link_v2_def validate_path_c_str [OF assms(1)]
        validate_path_c_str [OF assms(2)] Let_def not_less split: if_splits)
  then have d: "?d = int (length ?cs)" by (intro path_spec_depth) simp
  have len: "nat (?d - 2) < length (butlast ?cs)" using t(1) d by simp
  have "\<exists>r. resolve (butlast ?cs) (split_slash (c_str target)) = Some r \<and> r \<noteq> [] \<and> hd r = hd (butlast ?cs)"
  proof (cases "c_str target = []")
    case True
    moreover have "butlast ?cs \<noteq> []" using len by (metis gr_implies_not0 list.size(3))
    ultimately show ?thesis by auto
  next
    case False
    with path_spec_accepted_walk [OF t(2)] len show ?thesis
      by (blast intro: path_walk_leading_dotdot)
  qed
  moreover have "c_str target = [] \<or> hd (c_str target) \<noteq> 0x2F"
    using path_spec_accepted_walk [OF t(2)] by blast
  moreover have "file_name_ok flags (c_str name)" using t(1) by (simp flip: path_spec_pos_iff)
  ultimately show ?thesis by (simp add: Let_def)
qed

lemma symbolic_link_contained_witness:
  "qubes_pure_validate_symbolic_link_v2 [0x61, 0x2F, 0x62, 0x2F, 0x63, 0] [0x2E, 0x2E, 0x2F, 0x78, 0] 1 = Some 0 \<and>
   (\<exists>r. resolve [[0x61], [0x62]] [[0x2E, 0x2E], [0x78]] = Some r \<and> r \<noteq> [] \<and> hd r = [0x61])"
proof -
  let ?name = "[0x61, 0x2F, 0x62, 0x2F, 0x63, 0] :: bytes"
  let ?target = "[0x2E, 0x2E, 0x2F, 0x78, 0] :: bytes"
  have s: "nul_terminated ?name" "nul_terminated ?target"
    "c_str ?name = [0x61, 0x2F, 0x62, 0x2F, 0x63]" "c_str ?target = [0x2E, 0x2E, 0x2F, 0x78]"
    by (simp_all add: nul_terminated_def c_str_def)
  have v: "qubes_pure_validate_symbolic_link_v2 ?name ?target 1 = Some 0"
    and f: "\<not> has_flag 1 QUBES_PURE_ALLOW_UNSAFE_SYMLINKS"
    using s by (simp_all add: qubes_pure_validate_symbolic_link_v2_def validate_path_c_str path_spec_def
        chars_ok_def flag_check_def has_flag_def flag_defs)
  from symbolic_link_contained [OF s(1,2) v] v f s(3,4) show ?thesis by (simp add: normal_component_def)
qed

text \<open>
  \<open>qubes_pure_validate_symbolic_link_v2\<close> is total on NUL-terminated strings and returns
  0, \<open>EINVAL\<close> (exactly for unknown flags), \<open>EILSEQ\<close> or \<open>ENOLINK\<close>; a link name of fewer than
  two ordinary components, one directly at the top level, is never accepted unless unsafe
  links are allowed.
\<close>

theorem symbolic_link_result:
  assumes "nul_terminated name" and "nul_terminated target"
  shows "\<exists>r. qubes_pure_validate_symbolic_link_v2 name target flags = Some r \<and>
     r \<in> {0, - EINVAL, - EILSEQ, - ENOLINK} \<and> (r = - EINVAL \<longleftrightarrow> \<not> flag_check flags) \<and>
     (r = 0 \<and> \<not> has_flag flags QUBES_PURE_ALLOW_UNSAFE_SYMLINKS \<longrightarrow>
        2 \<le> length (filter normal_component (split_slash (c_str name))))"
proof -
  let ?d = "path_spec flags 0 (c_str name)"
  have "2 \<le> length (filter normal_component (split_slash (c_str name)))" if "2 \<le> ?d"
    using that path_spec_depth [of flags "c_str name"] by simp
  moreover have "path_spec f k s < 0 \<Longrightarrow> path_spec f k s \<in> {- EILSEQ, - ENOLINK}" for f k s
    using path_spec_range [of f k s] by auto
  moreover have "path_spec f k s \<noteq> - EINVAL" for f k s
    using path_spec_range [of f k s] by auto
  ultimately show ?thesis
    by (auto simp add: qubes_pure_validate_symbolic_link_v2_def validate_path_c_str [OF assms(1)]
        validate_path_c_str [OF assms(2)] Let_def)
qed

lemma symbolic_link_result_witness:
  "\<exists>r. qubes_pure_validate_symbolic_link_v2 [0x61, 0] [0x62, 0] 0x20 = Some r \<and> r = - EINVAL"
  using symbolic_link_result [of "[0x61, 0]" "[0x62, 0]" "0x20"]
  by (auto simp add: nul_terminated_def flag_check_def flag_defs)

text \<open>
  \<open>qubes_pure_validate_file_name\<close> is not the flags-0 validator its header describes: it
  passes \<open>QUBES_PURE_ALLOW_TRAILING_SLASH\<close>, and the two differ exactly on the names ending in
  a slash that are otherwise valid.
\<close>

theorem validate_file_name_is_not_flags_zero:
  assumes "nul_terminated b"
  shows "qubes_pure_validate_file_name b =
     Some (qubes_pure_validate_file_name_v2 b 0 = Some 0 \<or>
           last (c_str b) = 0x2F \<and> file_name_ok QUBES_PURE_ALLOW_TRAILING_SLASH (c_str b)) \<and>
     qubes_pure_validate_file_name [0x61, 0x2F, 0] = Some True \<and>
     qubes_pure_validate_file_name_v2 [0x61, 0x2F, 0] 0 = Some (- EILSEQ)"
proof -
  have fc: "flag_check 0" "flag_check QUBES_PURE_ALLOW_TRAILING_SLASH"
    by (simp_all add: flag_check_def flag_defs)
  have "chars_ok QUBES_PURE_ALLOW_TRAILING_SLASH = chars_ok 0"
    by (simp add: fun_eq_iff chars_ok_def has_flag_def flag_defs)
  then have ok: "file_name_ok 0 s \<longleftrightarrow> file_name_ok QUBES_PURE_ALLOW_TRAILING_SLASH s \<and> last s \<noteq> 0x2F" for s
    by (auto simp add: file_name_ok_def has_flag_def flag_defs Let_def)
  have v2: "qubes_pure_validate_file_name_v2 b' f = Some (if file_name_ok f (c_str b') then 0 else - EILSEQ)"
    if "nul_terminated b'" "flag_check f" for b' f
    using that validate_path_c_str [of b' 0 f]
    by (simp add: qubes_pure_validate_file_name_v2_def path_spec_pos_iff)
  have "chars_ok QUBES_PURE_ALLOW_TRAILING_SLASH [0x61]"
    by (simp add: chars_ok_def qubes_pure_string_safe_for_display_def string_safe_loop.simps)
  then have "file_name_ok QUBES_PURE_ALLOW_TRAILING_SLASH [0x61, 0x2F]"
    by (simp add: file_name_ok_def normal_component_def has_flag_def flag_defs)
  then show ?thesis
    using assms fc ok v2 by (auto simp add: qubes_pure_validate_file_name_def nul_terminated_def c_str_def)
qed

lemma validate_file_name_is_not_flags_zero_witness:
  "qubes_pure_validate_file_name [0x61, 0x2F, 0] = Some True \<and>
   qubes_pure_validate_file_name_v2 [0x61, 0x2F, 0] 0 = Some (- EILSEQ)"
  using validate_file_name_is_not_flags_zero [of "[0x61, 0x2F, 0]"] by (auto simp add: nul_terminated_def)

end
