(* ===== verification/Qube_Name.thy ===== *)
theory Qube_Name
  imports Qubes_Prelude
begin

text \<open>
  Qube-name validation, \<open>src/qrexec-lib/qube-name.c\<close>, with the slice type of \<open>pure.h\<close>.  A
  \<open>QubesSlice\<close> is the memory its pointer designates and a separate length; the accesses are
  checked, so a slice longer than its memory shows as \<open>None\<close>.
\<close>

record QubesSlice =
  pointer :: bytes
  slice_length :: nat

datatype QubeNameValidationError =
    QUBE_NAME_OK
  | QUBE_NAME_EMPTY
  | QUBE_NAME_TOO_LONG
  | QUBE_NAME_INVALID_FIRST_CHARACTER
  | QUBE_NAME_INVALID_SUBSEQUENT_CHARACTER
  | QUBE_NAME_RESERVED

fun qube_name_error_code :: "QubeNameValidationError \<Rightarrow> int" where
  "qube_name_error_code QUBE_NAME_OK = 0"
| "qube_name_error_code QUBE_NAME_EMPTY = -1"
| "qube_name_error_code QUBE_NAME_TOO_LONG = -2"
| "qube_name_error_code QUBE_NAME_INVALID_FIRST_CHARACTER = -3"
| "qube_name_error_code QUBE_NAME_INVALID_SUBSEQUENT_CHARACTER = -4"
| "qube_name_error_code QUBE_NAME_RESERVED = -6"

definition QUBES_PURE_MIN_QUBE_NAME_LEN :: nat where "QUBES_PURE_MIN_QUBE_NAME_LEN = 1"
definition QUBES_PURE_MAX_QUBE_NAME_LEN :: nat where "QUBES_PURE_MAX_QUBE_NAME_LEN = 31"

text \<open>\<open>strlen\<close> reads up to the terminator; \<open>None\<close> when the buffer has none.\<close>

definition strlen :: "bytes \<Rightarrow> nat option" where
  "strlen b = (if nul_terminated b then Some (length (c_str b)) else None)"

text \<open>The outer \<open>None\<close> is \<open>abort()\<close> on a null pointer.\<close>

definition qubes_pure_buffer_init_from_nul_terminated_string :: "bytes option \<Rightarrow> QubesSlice option" where
  "qubes_pure_buffer_init_from_nul_terminated_string str = do {
     p \<leftarrow> str;
     n \<leftarrow> strlen p;
     Some \<lparr> pointer = p, slice_length = n \<rparr>
   }"

definition ascii_letter :: "u8 \<Rightarrow> bool" where
  "ascii_letter c \<longleftrightarrow> 0x61 \<le> c \<and> c \<le> 0x7A \<or> 0x41 \<le> c \<and> c \<le> 0x5A"

definition name_character :: "u8 \<Rightarrow> bool" where
  "name_character c \<longleftrightarrow>
     0x61 \<le> c \<and> c \<le> 0x7A \<or> 0x41 \<le> c \<and> c \<le> 0x5A \<or> 0x30 \<le> c \<and> c \<le> 0x39 \<or>
     c = 0x5F \<or> c = 0x2E \<or> c = 0x2D"

definition memcmp_eq :: "bytes \<Rightarrow> nat \<Rightarrow> bytes \<Rightarrow> bool option" where
  "memcmp_eq b i lit = (if i + length lit \<le> length b then Some (take (length lit) (drop i b) = lit) else None)"

abbreviation "str_dm \<equiv> [0x2D, 0x64, 0x6D] :: bytes"
abbreviation "str_none \<equiv> [0x6E, 0x6F, 0x6E, 0x65] :: bytes"
abbreviation "str_default \<equiv> [0x64, 0x65, 0x66, 0x61, 0x75, 0x6C, 0x74] :: bytes"
abbreviation "str_Domain_0 \<equiv> [0x44, 0x6F, 0x6D, 0x61, 0x69, 0x6E, 0x2D, 0x30] :: bytes"

text \<open>The loop over the remaining characters: \<open>Some False\<close> for a bad character.\<close>

function check_other_characters :: "bytes \<Rightarrow> nat \<Rightarrow> nat \<Rightarrow> bool option" where
  "check_other_characters p n i =
     (if i < n then do {
        c \<leftarrow> rd p i;
        if name_character c then check_other_characters p n (i + 1) else Some False
      }
      else Some True)"
  by pat_completeness auto
termination by (relation "measure (\<lambda>(p, n, i). n - i)") auto

declare check_other_characters.simps [simp del]

definition qubes_pure_is_valid_qube_name :: "QubesSlice \<Rightarrow> QubeNameValidationError option" where
  "qubes_pure_is_valid_qube_name untrusted_name =
     (if slice_length untrusted_name < QUBES_PURE_MIN_QUBE_NAME_LEN then Some QUBE_NAME_EMPTY
      else if slice_length untrusted_name > QUBES_PURE_MAX_QUBE_NAME_LEN then Some QUBE_NAME_TOO_LONG
      else do {
        let n = slice_length untrusted_name;
        let p = pointer untrusted_name;
        c0 \<leftarrow> rd p 0;
        if \<not> ascii_letter c0 then Some QUBE_NAME_INVALID_FIRST_CHARACTER
        else do {
          good \<leftarrow> check_other_characters p n 1;
          if \<not> good then Some QUBE_NAME_INVALID_SUBSEQUENT_CHARACTER
          else if n < 4 then Some QUBE_NAME_OK
          else do {
            dm \<leftarrow> memcmp_eq p (n - 3) str_dm;
            if dm then Some QUBE_NAME_RESERVED
            else do {
              reserved \<leftarrow>
                (if n = 4 then memcmp_eq p 0 str_none
                 else if n = 7 then memcmp_eq p 0 str_default
                 else if n = 8 then memcmp_eq p 0 str_Domain_0
                 else Some False);
              Some (if reserved then QUBE_NAME_RESERVED else QUBE_NAME_OK)
            }
          }
        }
      })"

section \<open>The documented rules\<close>

definition ends_with :: "bytes \<Rightarrow> bytes \<Rightarrow> bool" where
  "ends_with s t \<longleftrightarrow> (\<exists>pre. s = pre @ t)"

definition valid_qube_name :: "bytes \<Rightarrow> bool" where
  "valid_qube_name s \<longleftrightarrow>
     1 \<le> length s \<and> length s \<le> 31 \<and> (\<forall>c\<in>set s. name_character c) \<and> ascii_letter (hd s) \<and>
     \<not> ends_with s str_dm \<and> s \<noteq> str_none \<and> s \<noteq> str_default \<and> s \<noteq> str_Domain_0"

lemma ends_with_iff: "ends_with s t \<longleftrightarrow> length t \<le> length s \<and> drop (length s - length t) s = t"
proof
  assume "length t \<le> length s \<and> drop (length s - length t) s = t"
  then show "ends_with s t" unfolding ends_with_def by (metis append_take_drop_id)
qed (auto simp add: ends_with_def)

lemma ascii_letter_name_character: "ascii_letter c \<Longrightarrow> name_character c"
  by (auto simp add: ascii_letter_def name_character_def)

lemma check_other_characters_spec:
  "n \<le> length p \<Longrightarrow> check_other_characters p n i = Some (\<forall>c\<in>set (drop i (take n p)). name_character c)"
proof (induction p n i rule: check_other_characters.induct)
  case (1 p n i)
  show ?case
  proof (cases "i < n")
    case True
    then have "drop i (take n p) = p ! i # drop (i + 1) (take n p)"
      using 1 Cons_nth_drop_Suc [of i "take n p"] by simp
    with True 1 show ?thesis by (simp add: check_other_characters.simps [of p n i] rd_def)
  qed (simp add: check_other_characters.simps)
qed

lemma memcmp_eq_prefix:
  assumes "n \<le> length p" and "length lit = n"
  shows "memcmp_eq p 0 lit = Some (take n p = lit)"
  using assms by (simp add: memcmp_eq_def)

lemma memcmp_eq_suffix:
  assumes "n \<le> length p" and "length lit = k" and "k \<le> n"
  shows "memcmp_eq p (n - k) lit = Some (ends_with (take n p) lit)"
proof -
  have "take k (drop (n - k) p) = drop (n - k) (take n p)"
    using assms by (simp add: take_drop)
  then show ?thesis using assms by (simp add: memcmp_eq_def ends_with_iff min_def)
qed

lemma by_length:
  fixes n :: nat
  assumes "A \<Longrightarrow> n = 4" "B \<Longrightarrow> n = 7" "C \<Longrightarrow> n = 8"
    and "n = 4 \<Longrightarrow> x = Some A" "n = 7 \<Longrightarrow> y = Some B" "n = 8 \<Longrightarrow> z = Some C"
  shows "(if n = 4 then x else if n = 7 then y else if n = 8 then z else Some False) = Some (A \<or> B \<or> C)"
  using assms by auto

text \<open>The rules that concern the whole name; names shorter than four bytes satisfy them.\<close>

definition reserved_name :: "bytes \<Rightarrow> bool" where
  "reserved_name s \<longleftrightarrow> ends_with s str_dm \<or> s = str_none \<or> s = str_default \<or> s = str_Domain_0"

lemma reserved_literals:
  assumes "n \<le> length p"
  shows "(if n = 4 then memcmp_eq p 0 str_none else if n = 7 then memcmp_eq p 0 str_default
     else if n = 8 then memcmp_eq p 0 str_Domain_0 else Some False) =
       Some (take n p = str_none \<or> take n p = str_default \<or> take n p = str_Domain_0)"
proof (rule by_length)
  have len: "length (take n p) = n" using assms by simp
  show "take n p = str_none \<Longrightarrow> n = 4" "take n p = str_default \<Longrightarrow> n = 7" "take n p = str_Domain_0 \<Longrightarrow> n = 8"
    using len by simp_all
qed (use assms in \<open>simp_all add: memcmp_eq_prefix\<close>)

lemma short_not_reserved:
  assumes "length s < 4" and "ascii_letter (hd s)"
  shows "\<not> reserved_name s"
proof -
  have "pre = []" if "s = pre @ str_dm" for pre using assms(1) that by (cases pre) simp_all
  then have "\<not> ends_with s str_dm" using assms(2) by (fastforce simp add: ends_with_def ascii_letter_def)
  with assms(1) show ?thesis by (auto simp add: reserved_name_def)
qed

lemma first_character:
  assumes "s \<noteq> []" and "ascii_letter (hd s)"
  shows "(\<forall>c\<in>set s. name_character c) \<longleftrightarrow> (\<forall>c\<in>set (drop 1 s). name_character c)"
  using assms ascii_letter_name_character by (cases s) simp_all

lemma valid_qube_name_cases:
  "valid_qube_name s \<longleftrightarrow> s \<noteq> [] \<and> length s \<le> 31 \<and> ascii_letter (hd s) \<and> (\<forall>c\<in>set s. name_character c) \<and> \<not> reserved_name s"
  by (cases s) (auto simp add: valid_qube_name_def reserved_name_def)

lemma is_valid_qube_name_in_bounds:
  assumes "1 \<le> n" and "n \<le> 31" and "n \<le> length p"
  shows "qubes_pure_is_valid_qube_name \<lparr>pointer = p, slice_length = n\<rparr> = Some
     (let name = take n p in
      if \<not> ascii_letter (hd name) then QUBE_NAME_INVALID_FIRST_CHARACTER
      else if \<not> (\<forall>c\<in>set (drop 1 name). name_character c) then QUBE_NAME_INVALID_SUBSEQUENT_CHARACTER
      else if reserved_name name then QUBE_NAME_RESERVED else QUBE_NAME_OK)"
proof -
  let ?s = "take n p"
  obtain c t where p: "p = c # t" using assms by (cases p) auto
  have hd: "hd ?s = c" and rd0: "rd p 0 = Some c" using assms(1) p by (cases n; simp)+
  have short: "\<not> reserved_name ?s" if "n < 4" "ascii_letter c"
    using short_not_reserved [of ?s] that hd assms(3) by simp
  have dm: "4 \<le> n \<Longrightarrow> memcmp_eq p (n - 3) str_dm = Some (ends_with ?s str_dm)"
    by (rule memcmp_eq_suffix [OF assms(3)]) simp_all
  have bounds: "\<not> n < 1" "\<not> 31 < n" using assms(1,2) by simp_all
  show ?thesis
    using bounds short dm by (simp add: qubes_pure_is_valid_qube_name_def QUBES_PURE_MIN_QUBE_NAME_LEN_def QUBES_PURE_MAX_QUBE_NAME_LEN_def
        Let_def rd0 hd check_other_characters_spec [OF assms(3)] reserved_literals [OF assms(3)] reserved_name_def)
qed

text \<open>
  C37: \<open>qubes_pure_is_valid_qube_name\<close> never reads outside the slice, returns
  \<open>QUBE_NAME_OK\<close> exactly for the names that satisfy the six documented rules, and otherwise
  the error of the first rule that fails.
\<close>

theorem is_valid_qube_name_iff:
  assumes "slice_length s \<le> length (pointer s)"
  shows "qubes_pure_is_valid_qube_name s =
     (let name = take (slice_length s) (pointer s)
      in Some (if valid_qube_name name then QUBE_NAME_OK
               else if name = [] then QUBE_NAME_EMPTY
               else if 31 < length name then QUBE_NAME_TOO_LONG
               else if \<not> ascii_letter (hd name) then QUBE_NAME_INVALID_FIRST_CHARACTER
               else if \<not> list_all name_character name then QUBE_NAME_INVALID_SUBSEQUENT_CHARACTER
               else QUBE_NAME_RESERVED))"
proof -
  obtain p n where s: "s = \<lparr>pointer = p, slice_length = n\<rparr>" by (cases s) simp
  then have n: "n \<le> length p" using assms by simp
  have all: "list_all name_character xs \<longleftrightarrow> (\<forall>c\<in>set xs. name_character c)" for xs by (simp add: list_all_iff)
  show ?thesis
  proof (cases "1 \<le> n \<and> n \<le> 31")
    case False
    then show ?thesis using n by (auto simp add: s qubes_pure_is_valid_qube_name_def QUBES_PURE_MIN_QUBE_NAME_LEN_def
          QUBES_PURE_MAX_QUBE_NAME_LEN_def valid_qube_name_def Let_def)
  next
    case True
    then have "take n p \<noteq> []" "\<not> 31 < length (take n p)" using n by auto
    then show ?thesis
      using is_valid_qube_name_in_bounds [of n p] True n first_character [of "take n p"]
      by (simp add: s Let_def valid_qube_name_cases all)
  qed
qed

lemma is_valid_qube_name_iff_witness:
  "qubes_pure_is_valid_qube_name \<lparr> pointer = [0x61, 0x2D, 0x64, 0x6D, 0xFF], slice_length = 4 \<rparr> =
     Some QUBE_NAME_RESERVED \<and>
   valid_qube_name [0x64, 0x6D]"
  using is_valid_qube_name_iff [of "\<lparr> pointer = [0x61, 0x2D, 0x64, 0x6D, 0xFF], slice_length = 4 \<rparr>"]
  by (simp add: valid_qube_name_def ends_with_iff name_character_def ascii_letter_def)

end
