(* ===== verification/Crc32.thy ===== *)
theory Crc32
  imports Qubes_Prelude
begin

text \<open>
  The file-copy checksum, \<open>src/qrexec-lib/crc32.c\<close>.  \<open>unsigned long\<close> is 64 bits wide on the
  platforms Qubes runs on, and the model keeps that width: nothing in the C code masks the
  accumulator to 32 bits.  The table-driven routine is proved equal to the bit-serial
  reflected CRC with polynomial \<open>0xEDB88320\<close>, to stay below \<open>2 ^ 32\<close>, to be independent of
  how the data is cut into buffers, and to detect every corruption confined to four
  consecutive bytes.
\<close>

unbundle bit_operations_syntax

definition crcTable :: "u64 list" where
  "crcTable =
    [0, 0x77073096, 0xEE0E612C, 0x990951BA, 0x76DC419, 0x706AF48F, 0xE963A535, 0x9E6495A3,
     0xEDB8832, 0x79DCB8A4, 0xE0D5E91E, 0x97D2D988, 0x9B64C2B, 0x7EB17CBD, 0xE7B82D07, 0x90BF1D91,
     0x1DB71064, 0x6AB020F2, 0xF3B97148, 0x84BE41DE, 0x1ADAD47D, 0x6DDDE4EB, 0xF4D4B551, 0x83D385C7,
     0x136C9856, 0x646BA8C0, 0xFD62F97A, 0x8A65C9EC, 0x14015C4F, 0x63066CD9, 0xFA0F3D63, 0x8D080DF5,
     0x3B6E20C8, 0x4C69105E, 0xD56041E4, 0xA2677172, 0x3C03E4D1, 0x4B04D447, 0xD20D85FD, 0xA50AB56B,
     0x35B5A8FA, 0x42B2986C, 0xDBBBC9D6, 0xACBCF940, 0x32D86CE3, 0x45DF5C75, 0xDCD60DCF, 0xABD13D59,
     0x26D930AC, 0x51DE003A, 0xC8D75180, 0xBFD06116, 0x21B4F4B5, 0x56B3C423, 0xCFBA9599, 0xB8BDA50F,
     0x2802B89E, 0x5F058808, 0xC60CD9B2, 0xB10BE924, 0x2F6F7C87, 0x58684C11, 0xC1611DAB, 0xB6662D3D,
     0x76DC4190, 0x1DB7106, 0x98D220BC, 0xEFD5102A, 0x71B18589, 0x6B6B51F, 0x9FBFE4A5, 0xE8B8D433,
     0x7807C9A2, 0xF00F934, 0x9609A88E, 0xE10E9818, 0x7F6A0DBB, 0x86D3D2D, 0x91646C97, 0xE6635C01,
     0x6B6B51F4, 0x1C6C6162, 0x856530D8, 0xF262004E, 0x6C0695ED, 0x1B01A57B, 0x8208F4C1, 0xF50FC457,
     0x65B0D9C6, 0x12B7E950, 0x8BBEB8EA, 0xFCB9887C, 0x62DD1DDF, 0x15DA2D49, 0x8CD37CF3, 0xFBD44C65,
     0x4DB26158, 0x3AB551CE, 0xA3BC0074, 0xD4BB30E2, 0x4ADFA541, 0x3DD895D7, 0xA4D1C46D, 0xD3D6F4FB,
     0x4369E96A, 0x346ED9FC, 0xAD678846, 0xDA60B8D0, 0x44042D73, 0x33031DE5, 0xAA0A4C5F, 0xDD0D7CC9,
     0x5005713C, 0x270241AA, 0xBE0B1010, 0xC90C2086, 0x5768B525, 0x206F85B3, 0xB966D409, 0xCE61E49F,
     0x5EDEF90E, 0x29D9C998, 0xB0D09822, 0xC7D7A8B4, 0x59B33D17, 0x2EB40D81, 0xB7BD5C3B, 0xC0BA6CAD,
     0xEDB88320, 0x9ABFB3B6, 0x3B6E20C, 0x74B1D29A, 0xEAD54739, 0x9DD277AF, 0x4DB2615, 0x73DC1683,
     0xE3630B12, 0x94643B84, 0xD6D6A3E, 0x7A6A5AA8, 0xE40ECF0B, 0x9309FF9D, 0xA00AE27, 0x7D079EB1,
     0xF00F9344, 0x8708A3D2, 0x1E01F268, 0x6906C2FE, 0xF762575D, 0x806567CB, 0x196C3671, 0x6E6B06E7,
     0xFED41B76, 0x89D32BE0, 0x10DA7A5A, 0x67DD4ACC, 0xF9B9DF6F, 0x8EBEEFF9, 0x17B7BE43, 0x60B08ED5,
     0xD6D6A3E8, 0xA1D1937E, 0x38D8C2C4, 0x4FDFF252, 0xD1BB67F1, 0xA6BC5767, 0x3FB506DD, 0x48B2364B,
     0xD80D2BDA, 0xAF0A1B4C, 0x36034AF6, 0x41047A60, 0xDF60EFC3, 0xA867DF55, 0x316E8EEF, 0x4669BE79,
     0xCB61B38C, 0xBC66831A, 0x256FD2A0, 0x5268E236, 0xCC0C7795, 0xBB0B4703, 0x220216B9, 0x5505262F,
     0xC5BA3BBE, 0xB2BD0B28, 0x2BB45A92, 0x5CB36A04, 0xC2D7FFA7, 0xB5D0CF31, 0x2CD99E8B, 0x5BDEAE1D,
     0x9B64C2B0, 0xEC63F226, 0x756AA39C, 0x26D930A, 0x9C0906A9, 0xEB0E363F, 0x72076785, 0x5005713,
     0x95BF4A82, 0xE2B87A14, 0x7BB12BAE, 0xCB61B38, 0x92D28E9B, 0xE5D5BE0D, 0x7CDCEFB7, 0xBDBDF21,
     0x86D3D2D4, 0xF1D4E242, 0x68DDB3F8, 0x1FDA836E, 0x81BE16CD, 0xF6B9265B, 0x6FB077E1, 0x18B74777,
     0x88085AE6, 0xFF0F6A70, 0x66063BCA, 0x11010B5C, 0x8F659EFF, 0xF862AE69, 0x616BFFD3, 0x166CCF45,
     0xA00AE278, 0xD70DD2EE, 0x4E048354, 0x3903B3C2, 0xA7672661, 0xD06016F7, 0x4969474D, 0x3E6E77DB,
     0xAED16A4A, 0xD9D65ADC, 0x40DF0B66, 0x37D83BF0, 0xA9BCAE53, 0xDEBB9EC5, 0x47B2CF7F, 0x30B5FFE9,
     0xBDBDF21C, 0xCABAC28A, 0x53B39330, 0x24B4A3A6, 0xBAD03605, 0xCDD70693, 0x54DE5729, 0x23D967BF,
     0xB3667A2E, 0xC4614AB8, 0x5D681B02, 0x2A6F2B94, 0xB40BBE37, 0xC30C8EA1, 0x5A05DF1B, 0x2D02EF8D]"

text \<open>One iteration of the loop, and the loop.\<close>

definition crc_step :: "u64 \<Rightarrow> u8 \<Rightarrow> u64" where
  "crc_step crc32 c = drop_bit 8 crc32 XOR (crcTable ! unat ((crc32 XOR ucast c) AND 0xFF))"

function crc_loop :: "bytes \<Rightarrow> nat \<Rightarrow> nat \<Rightarrow> u64 \<Rightarrow> u64 option" where
  "crc_loop byteBuf bufLen i crc32 =
     (if i < bufLen then do {
        c \<leftarrow> rd byteBuf i;
        crc_loop byteBuf bufLen (i + 1) (crc_step crc32 c)
      }
      else Some crc32)"
  by pat_completeness auto
termination by (relation "measure (\<lambda>(b, n, i, c). n - i)") auto

declare crc_loop.simps [simp del]

definition Crc32_ComputeBuf :: "u64 \<Rightarrow> bytes \<Rightarrow> nat \<Rightarrow> u64 option" where
  "Crc32_ComputeBuf inCrc32 buf bufLen = do {
     crc32 \<leftarrow> crc_loop buf bufLen 0 (inCrc32 XOR 0xFFFFFFFF);
     Some (crc32 XOR 0xFFFFFFFF)
   }"

section \<open>The bit-serial CRC\<close>

definition crc_poly :: u64 where "crc_poly = 0xEDB88320"

definition crc_bit :: "u64 \<Rightarrow> u64" where
  "crc_bit c = drop_bit 1 c XOR (if bit c 0 then crc_poly else 0)"

fun crc_bits :: "nat \<Rightarrow> u64 \<Rightarrow> u64" where
  "crc_bits 0 c = c"
| "crc_bits (Suc n) c = crc_bits n (crc_bit c)"

text \<open>The reference checksum of a byte string, continuing from an earlier value.\<close>

definition crc32_spec :: "u64 \<Rightarrow> bytes \<Rightarrow> u64" where
  "crc32_spec c bs = foldl (\<lambda>r b. crc_bits 8 (r XOR ucast b)) (c XOR 0xFFFFFFFF) bs XOR 0xFFFFFFFF"

section \<open>Table and bit-serial form agree\<close>

lemma xor_cancel_right: "a XOR c = b XOR c \<longleftrightarrow> a = b" for a b c :: u64
proof
  assume "a XOR c = b XOR c"
  then have "(a XOR c) XOR c = (b XOR c) XOR c" by simp
  then show "a = b" by (simp only: xor.assoc xor_self_eq xor.right_neutral)
qed simp

lemma xor_cancel_left: "c XOR a = c XOR b \<longleftrightarrow> a = b" for a b c :: u64
  using xor_cancel_right [of a c b] by (simp only: xor.commute)

lemma bit_u8: "bit (b :: u8) n \<Longrightarrow> n < 8"
  using bit_imp_le_length [of b n] by simp

lemma crc_bit_xor: "crc_bit (x XOR y) = crc_bit x XOR crc_bit y"
  by (rule bit_word_eqI) (auto simp add: crc_bit_def bit_simps)

lemma crc_bits_xor: "crc_bits n (x XOR y) = crc_bits n x XOR crc_bits n y"
  by (induction n arbitrary: x y) (simp_all add: crc_bit_xor)

lemma crc_bits_0 [simp]: "crc_bits n 0 = 0"
  by (induction n) (simp_all add: crc_bit_def)

lemma crc_bits_shift:
  assumes "\<And>i. i < n \<Longrightarrow> \<not> bit x i"
  shows "crc_bits n x = drop_bit n x"
  using assms
proof (induction n arbitrary: x)
  case (Suc n)
  then have "crc_bit x = drop_bit 1 x" by (simp add: crc_bit_def)
  moreover have "crc_bits n (drop_bit 1 x) = drop_bit n (drop_bit 1 x)"
    using Suc.prems by (intro Suc.IH) (simp add: bit_simps)
  ultimately show ?case by simp
qed simp

lemma crc_bits_8:
  "crc_bits 8 c = crc_bit (crc_bit (crc_bit (crc_bit (crc_bit (crc_bit (crc_bit (crc_bit c)))))))"
  by (simp add: eval_nat_numeral)

lemma crc_bit_numeral:
  "crc_bit (numeral (num.Bit0 n)) = drop_bit 1 (numeral (num.Bit0 n))"
  "crc_bit (numeral (num.Bit1 n)) = drop_bit 1 (numeral (num.Bit1 n)) XOR 0xEDB88320"
  "crc_bit 1 = 0xEDB88320"
  by (simp_all add: crc_bit_def crc_poly_def)

text \<open>
  The second half of each initial segment of length \<open>2 ^ (m + 1)\<close> is the first half xored with
  entry \<open>2 ^ m\<close>, and the entries at powers of two are computed; linearity gives the rest.
\<close>

lemma less_8_cases: "m < (8 :: nat) \<Longrightarrow> m \<in> {0, 1, 2, 3, 4, 5, 6, 7}"
  by auto

lemma crc_table_basis: "m < 8 \<Longrightarrow> crcTable ! (2 ^ m) = crc_bits 8 (2 ^ m)"
  unfolding crcTable_def
  by (drule less_8_cases) (elim insertE; simp add: crc_bits_8 crc_bit_numeral)

lemma crc_table_halves:
  "m < 8 \<Longrightarrow> take (2 ^ m) (drop (2 ^ m) crcTable) = map (\<lambda>x. x XOR (crcTable ! (2 ^ m))) (take (2 ^ m) crcTable)"
  unfolding crcTable_def by (drule less_8_cases) (elim insertE; simp)

lemma length_crcTable [simp]: "length crcTable = 256"
  by (simp add: crcTable_def)

lemma crc_table_double:
  assumes "m < 8" and "i < 2 ^ m"
  shows "crcTable ! (i + 2 ^ m) = crcTable ! i XOR (crcTable ! (2 ^ m))"
proof -
  have "(2 :: nat) ^ m \<le> 2 ^ 7" using assms(1) by (intro power_increasing) simp_all
  then have len: "2 ^ m + 2 ^ m \<le> length crcTable" by simp
  have "take (2 ^ m) (drop (2 ^ m) crcTable) ! i = crcTable ! (i + 2 ^ m)"
    using assms len by (simp add: add.commute)
  moreover have "map (\<lambda>x. x XOR (crcTable ! (2 ^ m))) (take (2 ^ m) crcTable) ! i = crcTable ! i XOR (crcTable ! (2 ^ m))"
    using assms len by simp
  ultimately show ?thesis using crc_table_halves [OF assms(1)] by simp
qed

lemma word_of_nat_add_power:
  assumes "i < 2 ^ m"
  shows "(word_of_nat (i + 2 ^ m) :: u64) = word_of_nat i XOR 2 ^ m"
proof -
  have "\<not> bit i m"
    using assms by (metis bit_take_bit_iff less_irrefl take_bit_nat_eq_self)
  then have "\<not> bit (word_of_nat i :: u64) m" by (simp add: bit_of_nat_iff)
  then have "(word_of_nat i :: u64) AND 2 ^ m = 0"
    by (intro bit_word_eqI) (auto simp add: bit_simps)
  then show ?thesis by (simp add: disjunctive_add_eq_xor)
qed

lemma crc_table_upto: "m \<le> 8 \<Longrightarrow> i < 2 ^ m \<Longrightarrow> crcTable ! i = crc_bits 8 (word_of_nat i)"
proof (induction m arbitrary: i)
  case 0
  then show ?case by (simp add: crcTable_def)
next
  case (Suc m)
  show ?case
  proof (cases "i < 2 ^ m")
    case False
    then obtain j where j: "i = j + 2 ^ m" "j < 2 ^ m"
      using Suc.prems(2) that [of "i - 2 ^ m"] by simp
    then show ?thesis
      using Suc.prems(1) Suc.IH [of j] crc_table_double [of m j] crc_table_basis [of m]
        word_of_nat_add_power [OF j(2)] by (simp add: crc_bits_xor)
  qed (use Suc in simp)
qed

lemma crc_table: "i < 256 \<Longrightarrow> crcTable ! i = crc_bits 8 (word_of_nat i)"
  by (rule crc_table_upto [of 8]) simp_all

lemma crc_step_bits: "crc_step c b = crc_bits 8 (c XOR ucast b)"
proof -
  define x where "x = c XOR ucast b"
  have ff: "(0xFF :: u64) = mask 8" by (simp add: mask_eq_exp_minus_1)
  have lo: "x AND 0xFF = take_bit 8 x" unfolding ff by (simp add: take_bit_eq_mask)
  have "unat (take_bit 8 x) < 256"
    by (simp add: unsigned_take_bit_eq take_bit_nat_less_exp [of 8, simplified])
  moreover have "x = take_bit 8 x XOR push_bit 8 (drop_bit 8 x)"
    by (rule bit_word_eqI) (auto simp add: bit_simps)
  then have "crc_bits 8 x = crc_bits 8 (take_bit 8 x) XOR crc_bits 8 (push_bit 8 (drop_bit 8 x))"
    by (metis crc_bits_xor)
  moreover have "crc_bits 8 (push_bit 8 (drop_bit 8 x)) = drop_bit 8 c"
  proof -
    have "drop_bit 8 (push_bit 8 (drop_bit 8 x)) = drop_bit 8 c"
      unfolding x_def by (rule bit_word_eqI) (auto simp add: bit_simps dest: bit_imp_le_length)
    moreover have "crc_bits 8 (push_bit 8 (drop_bit 8 x)) = drop_bit 8 (push_bit 8 (drop_bit 8 x))"
      by (rule crc_bits_shift) (simp add: bit_simps)
    ultimately show ?thesis by simp
  qed
  ultimately show ?thesis
    by (simp add: crc_step_def crc_table lo x_def [symmetric] ac_simps)
qed

lemma crc_loop_spec:
  "n \<le> length b \<Longrightarrow>
   crc_loop b n i c = Some (foldl (\<lambda>r x. crc_bits 8 (r XOR ucast x)) c (drop i (take n b)))"
proof (induction b n i c rule: crc_loop.induct)
  case (1 b n i c)
  show ?case
  proof (cases "i < n")
    case True
    then have "drop i (take n b) = b ! i # drop (i + 1) (take n b)"
      using 1 Cons_nth_drop_Suc [of i "take n b"] by simp
    with True 1 show ?thesis by (simp add: crc_loop.simps [of b n i c] rd_def crc_step_bits)
  qed (simp add: crc_loop.simps)
qed

lemma Crc32_ComputeBuf_spec:
  "n \<le> length b \<Longrightarrow> Crc32_ComputeBuf c b n = Some (crc32_spec c (take n b))"
  by (simp add: Crc32_ComputeBuf_def crc_loop_spec crc32_spec_def)

section \<open>Range\<close>

definition low32 :: "u64 \<Rightarrow> bool" where
  "low32 c \<longleftrightarrow> (\<forall>n\<ge>32. \<not> bit c n)"

lemma low32_iff: "low32 c \<longleftrightarrow> unat c < 2 ^ 32"
proof -
  have "low32 c \<longleftrightarrow> take_bit 32 c = c"
  proof
    assume "low32 c"
    then show "take_bit 32 c = c"
      by (intro bit_word_eqI) (auto simp add: low32_def bit_simps not_le [symmetric])
  next
    assume "take_bit 32 c = c"
    then show "low32 c" unfolding low32_def by (metis bit_take_bit_iff not_le)
  qed
  also have "\<dots> \<longleftrightarrow> take_bit 32 (unat c) = unat c"
    by (simp add: word_unat_eq_iff unsigned_take_bit_eq)
  finally show ?thesis by (simp add: take_bit_nat_eq_self_iff)
qed

lemma low32_xor: "low32 a \<Longrightarrow> low32 b \<Longrightarrow> low32 (a XOR b)"
  by (simp add: low32_def bit_simps)

lemma low32_const [simp]: "low32 0xFFFFFFFF" "low32 crc_poly" "low32 0"
  by (simp_all add: low32_iff crc_poly_def)

lemma low32_byte [simp]: "low32 (ucast (b :: u8))"
  by (auto simp add: low32_def bit_simps dest: bit_imp_le_length)

lemma low32_crc_bits: "low32 c \<Longrightarrow> low32 (crc_bits n c)"
proof (induction n arbitrary: c)
  case (Suc n)
  have "low32 (drop_bit 1 c)" using Suc.prems by (simp add: low32_def bit_simps)
  then have "low32 (crc_bit c)" unfolding crc_bit_def by (intro low32_xor) simp_all
  with Suc.IH show ?case by simp
qed simp

lemma low32_foldl: "low32 c \<Longrightarrow> low32 (foldl (\<lambda>r x. crc_bits 8 (r XOR ucast (x :: u8))) c bs)"
  by (induction bs arbitrary: c) (simp_all add: low32_crc_bits low32_xor)

lemma low32_crc32_spec: "low32 c \<Longrightarrow> low32 (crc32_spec c bs)"
  by (simp add: crc32_spec_def low32_foldl low32_xor)

section \<open>Buffers are folded one after the other\<close>

lemma crc32_spec_Nil [simp]: "crc32_spec c [] = c"
  by (simp add: crc32_spec_def xor.assoc)

lemma crc32_spec_append: "crc32_spec c (xs @ ys) = crc32_spec (crc32_spec c xs) ys"
  by (simp add: crc32_spec_def xor.assoc)

text \<open>
  What the file-copy code relies on: a checksum may be accumulated buffer by buffer.
\<close>

locale incremental_checksum =
  fixes update :: "'c \<Rightarrow> bytes \<Rightarrow> 'c"
  assumes update_Nil: "update c [] = c"
    and update_append: "update c (xs @ ys) = update (update c xs) ys"
begin

lemma update_concat: "foldl update c chunks = update c (concat chunks)"
  by (induction chunks arbitrary: c) (simp_all add: update_Nil update_append)

lemma update_take_more:
  "update (update c (take m xs)) (take n (drop m xs)) = update c (take (m + n) xs)"
  by (simp add: take_add update_append)

end

definition crc32_buf :: "u64 \<Rightarrow> bytes \<Rightarrow> u64" where
  "crc32_buf c bs = the (Crc32_ComputeBuf c bs (length bs))"

lemma crc32_buf_spec: "crc32_buf c bs = crc32_spec c bs"
  by (simp add: crc32_buf_def Crc32_ComputeBuf_spec)

interpretation crc: incremental_checksum crc32_buf
  by unfold_locales (simp_all add: crc32_buf_spec crc32_spec_append)

section \<open>Injectivity\<close>

lemma crc_bit_kernel:
  assumes "low32 x" and "crc_bit x = 0"
  shows "x = 0"
proof -
  have "\<not> bit (drop_bit 1 x) 31" using assms(1) by (simp add: low32_def bit_simps)
  moreover have "bit crc_poly 31" by (simp add: crc_poly_def)
  ultimately have b0: "\<not> bit x 0"
    using assms(2) by (auto simp add: crc_bit_def bit_xor_iff dest: arg_cong [where f = "\<lambda>w. bit w 31"])
  with assms(2) have "drop_bit 1 x = 0" by (simp add: crc_bit_def)
  then have "\<not> bit x (Suc n)" for n 
  proof -
    have "bit x (Suc n) \<longleftrightarrow> bit (drop_bit 1 x) n" by (simp add: bit_simps)
    with \<open>drop_bit 1 x = 0\<close> show ?thesis by simp
  qed
  with b0 show ?thesis by (intro bit_word_eqI) (metis bit_0_eq bot_apply not0_implies_Suc bot_bool_def)
qed

lemma crc_bits_kernel: "low32 x \<Longrightarrow> crc_bits n x = 0 \<Longrightarrow> x = 0"
proof (induction n arbitrary: x)
  case (Suc n)
  then have "crc_bit x = 0" using low32_crc_bits [of x 1] by (simp add: Suc.IH)
  with Suc.prems show ?case by (simp add: crc_bit_kernel)
qed simp

lemma crc_bits_inject:
  assumes "low32 x" and "low32 y" and "crc_bits n x = crc_bits n y"
  shows "x = y"
proof -
  have "crc_bits n (x XOR y) = 0" using assms(3) by (simp add: crc_bits_xor)
  then have "x XOR y = 0" 
    using low32_xor [OF assms(1,2)] by (rule_tac crc_bits_kernel)
  then have "x XOR y = y XOR y" by simp
  then show ?thesis by (simp only: xor_cancel_right)
qed

lemma foldl_crc_inject:
  assumes "low32 a" and "low32 b"
    and "foldl (\<lambda>r x. crc_bits 8 (r XOR ucast (x :: u8))) a s = foldl (\<lambda>r x. crc_bits 8 (r XOR ucast x)) b s"
  shows "a = b"
  using assms
proof (induction s arbitrary: a b)
  case (Cons x s)
  have "crc_bits 8 (a XOR ucast x) = crc_bits 8 (b XOR ucast x)"
    by (rule Cons.IH) (use Cons.prems in \<open>simp_all add: low32_crc_bits low32_xor\<close>)
  then have "a XOR ucast x = b XOR ucast x"
    by (rule crc_bits_inject [rotated 2]) (use Cons.prems in \<open>simp_all add: low32_xor\<close>)
  then show ?case by (simp only: xor_cancel_right)
qed simp

text \<open>Up to four bytes enter the register as one little-endian word.\<close>

fun le_word :: "bytes \<Rightarrow> u64" where
  "le_word [] = 0"
| "le_word (b # bs) = ucast b XOR push_bit 8 (le_word bs)"

lemma le_word_bit: "bit (le_word bs) n \<Longrightarrow> n < 8 * length bs"
proof (induction bs arbitrary: n)
  case (Cons b bs)
  show ?case
  proof (cases "n < 8")
    case False
    then have "\<not> bit b n" using bit_u8 by blast
    with Cons.prems False have "bit (le_word bs) (n - 8)" by (simp add: bit_simps)
    from Cons.IH [OF this] show ?thesis by simp
  qed simp
qed simp

lemma crc_bits_add: "crc_bits (m + n) x = crc_bits n (crc_bits m x)"
  by (induction m arbitrary: x) simp_all

lemma foldl_crc_le_word:
  assumes "length bs \<le> 4"
  shows "foldl (\<lambda>r x. crc_bits 8 (r XOR ucast x)) c bs = crc_bits (8 * length bs) (c XOR le_word bs)"
  using assms
proof (induction bs arbitrary: c)
  case (Cons b bs)
  let ?w = "le_word bs"
  have "drop_bit 8 (push_bit 8 ?w) = ?w"
    using Cons.prems le_word_bit [of bs] by (intro bit_word_eqI) (auto simp add: bit_simps dest: le_word_bit)
  moreover have "crc_bits 8 (push_bit 8 ?w) = drop_bit 8 (push_bit 8 ?w)"
    by (rule crc_bits_shift) (simp add: bit_simps)
  ultimately have "crc_bits 8 (c XOR ucast b) XOR ?w = crc_bits 8 (c XOR le_word (b # bs))"
    by (simp add: crc_bits_xor xor.assoc)
  moreover have "crc_bits (8 * length (b # bs)) x = crc_bits (8 * length bs) (crc_bits 8 x)" for x
    using crc_bits_add [of 8 "8 * length bs" x] by simp
  ultimately show ?case using Cons by simp
qed simp

lemma le_word_inject: "length xs = length ys \<Longrightarrow> length xs \<le> 4 \<Longrightarrow> le_word xs = le_word ys \<Longrightarrow> xs = ys"
proof (induction xs ys rule: list_induct2)
  case (Cons x xs y ys)
  have split: "take_bit 8 (le_word (b # bs)) = ucast b" "drop_bit 8 (le_word (b # bs)) = le_word bs"
    if "length bs \<le> 3" for b bs
    using that le_word_bit [of bs] bit_u8 [of b] by (fastforce intro!: bit_word_eqI simp add: bit_simps)+
  have "ucast x = (ucast y :: u64)" using Cons.prems Cons.hyps split [of xs x] split [of ys y] by simp
  then have "unat (ucast x :: u64) = unat (ucast y :: u64)" by simp
  moreover have "unat (b :: u8) < 2 ^ 64" for b by (rule less_trans [OF unat_u8_less]) simp
  ultimately have "x = y" by (simp add: unsigned_ucast_eq take_bit_nat_eq_self word_unat_eq_iff)
  then show ?case
    using Cons split(2) [of xs x] split(2) [of ys y] by simp
qed simp

lemma crc32_spec_burst:
  assumes "low32 c" and "length x = length y" and "length x \<le> 4"
    and "crc32_spec c (p @ x @ s) = crc32_spec c (p @ y @ s)"
  shows "x = y"
proof -
  let ?f = "foldl (\<lambda>r x. crc_bits 8 (r XOR ucast (x :: u8)))"
  define r where "r = ?f (c XOR 0xFFFFFFFF) p"
  have r: "low32 r" unfolding r_def using assms(1) by (intro low32_foldl low32_xor) simp_all
  have "?f (?f r x) s = ?f (?f r y) s"
    using assms(4) unfolding crc32_spec_def r_def foldl_append xor_cancel_right .
  then have "?f r x = ?f r y" 
    by (rule foldl_crc_inject [rotated 2]) (use r in \<open>simp_all add: low32_foldl\<close>)
  moreover have "low32 (le_word bs)" if "length bs \<le> 4" for bs
    using that by (auto simp add: low32_def dest!: le_word_bit)
  ultimately have "r XOR le_word x = r XOR le_word y"
    using assms(2,3) r crc_bits_inject [of "r XOR le_word x" "r XOR le_word y" "8 * length x"]
    by (simp add: foldl_crc_le_word low32_xor)
  then have "le_word x = le_word y" by (simp only: xor_cancel_left)
  then show ?thesis using assms(2,3) by (rule_tac le_word_inject)
qed

section \<open>Properties\<close>

text \<open>
  C38: \<open>Crc32_ComputeBuf\<close> reads only the buffer it is given, computes the bit-serial reflected
  CRC-32 of its bytes, and returns a value below \<open>2 ^ 32\<close> (which is what the trailer of the
  file-copy protocol sends) when it is started from one, although nothing masks the 64-bit
  accumulator.
\<close>

theorem crc32_table_is_bit_serial:
  assumes "bufLen \<le> length buf" and "unat inCrc32 < 2 ^ 32"
  shows "Crc32_ComputeBuf inCrc32 buf bufLen = Some (crc32_spec inCrc32 (take bufLen buf)) \<and>
     unat (crc32_spec inCrc32 (take bufLen buf)) < 2 ^ 32"
  using assms low32_crc32_spec [of inCrc32 "take bufLen buf"]
  by (simp only: Crc32_ComputeBuf_spec low32_iff simp_thms)

lemma crc32_table_is_bit_serial_witness:
  "Crc32_ComputeBuf 0 [0x61, 0x62] 1 = Some (crc32_spec 0 [0x61]) \<and> crc32_spec 0 [0x61] = 0xE8B7BE43"
proof -
  have "crc32_spec 0 [0x61] = 0xE8B7BE43"
    by (simp add: crc32_spec_def crc_bits_8 crc_bit_numeral)
  then show ?thesis using crc32_table_is_bit_serial [of 1 "[0x61, 0x62]" 0] by simp
qed

text \<open>
  C39: The checksum detects every corruption confined to four consecutive bytes: two data
  streams of the same length that differ only there have different CRCs.
\<close>

theorem crc32_detects_burst:
  assumes "unat inCrc32 < 2 ^ 32" and "length x = length y" and "length x \<le> 4" and "x \<noteq> y"
  shows "Crc32_ComputeBuf inCrc32 (p @ x @ s) (length (p @ x @ s)) \<noteq>
     Crc32_ComputeBuf inCrc32 (p @ y @ s) (length (p @ y @ s))"
  using assms crc32_spec_burst [of inCrc32 x y p s]
  by (auto simp add: Crc32_ComputeBuf_spec low32_iff)

lemma crc32_detects_burst_witness:
  "Crc32_ComputeBuf 0 [0x61, 0x62, 0x63] 3 \<noteq> Crc32_ComputeBuf 0 [0x61, 0x7A, 0x63] 3"
  using crc32_detects_burst [of 0 "[0x62]" "[0x7A]" "[0x61]" "[0x63]"]
  by (simp add: numeral_3_eq_3)

text \<open>
  The checksum does not depend on how the data is cut into buffers: accumulating it
  over a sequence of buffers, the way \<open>copy_file\<close> does, gives the checksum of their
  concatenation in one call.
\<close>

theorem crc32_chunks:
  "Crc32_ComputeBuf inCrc32 (concat chunks) (length (concat chunks)) = Some (foldl crc32_buf inCrc32 chunks)"
  using crc.update_concat [of inCrc32 chunks] by (simp add: Crc32_ComputeBuf_spec crc32_buf_spec)

end
