(* ===== verification/Sys_Prog.thy ===== *)
theory Sys_Prog
  imports Qubes_Prelude
begin

text \<open>
  Programs that call the operating system.

  A program maps a state to \<open>None\<close> when it never returns, and otherwise to a result and a
  final state; the result is \<open>Inl\<close> when the process ended (\<open>exit\<close>, \<open>abort\<close>) and \<open>Inr\<close> when
  the function returned.  The operating system and the callbacks a client registers are not
  part of the repository: they are one parameter \<open>os\<close>, a function that answers a call in a
  world of any type.  Every call and its answer is recorded in the \<open>trace\<close>, and the theorems
  of the client components quantify over all \<open>os\<close>.

  Every C loop is an instance of \<open>loop\<close>; \<open>wp\<close> and \<open>twp\<close> are its partial and total
  correctness calculi.
\<close>

section \<open>Programs\<close>

datatype stop = Exit int | Abort

type_synonym ('s, 'a) prog = "'s \<Rightarrow> ((stop + 'a) \<times> 's) option"

definition ret :: "'a \<Rightarrow> ('s, 'a) prog" where
  "ret x s = Some (Inr x, s)"

definition halt :: "stop \<Rightarrow> ('s, 'a) prog" where
  "halt e s = Some (Inl e, s)"

definition bnd :: "('s, 'a) prog \<Rightarrow> ('a \<Rightarrow> ('s, 'b) prog) \<Rightarrow> ('s, 'b) prog" where
  "bnd m f s =
     Option.bind (m s) (\<lambda>(r, s'). case r of Inl e \<Rightarrow> Some (Inl e, s') | Inr x \<Rightarrow> f x s')"

definition gets :: "('s \<Rightarrow> 'a) \<Rightarrow> ('s, 'a) prog" where
  "gets f s = Some (Inr (f s), s)"

definition modify :: "('s \<Rightarrow> 's) \<Rightarrow> ('s, unit) prog" where
  "modify f s = Some (Inr (), f s)"

definition guarded :: "bool \<Rightarrow> ('s, unit) prog \<Rightarrow> ('s, unit) prog" where
  "guarded b m = (if b then m else ret ())"

definition seq :: "('s, unit) prog \<Rightarrow> ('s, 'b) prog \<Rightarrow> ('s, 'b) prog" where
  "seq m n = bnd m (\<lambda>_. n)"

text \<open>A computation whose undefined behaviour, a failed \<open>assert\<close> included, aborts the process.\<close>

definition checked :: "'a option \<Rightarrow> ('s, 'a) prog" where
  "checked m = (case m of None \<Rightarrow> halt Abort | Some x \<Rightarrow> ret x)"

lemma seq_ret [simp]: "seq (ret x) n = n"
  by (simp add: fun_eq_iff seq_def bnd_def ret_def)

text \<open>
  A loop: the body maps the loop's local variables to \<open>Inl\<close> of their next values
  (\<open>continue\<close>, or the end of the body) or to \<open>Inr\<close> of the value the loop leaves with
  (\<open>break\<close>, \<open>return\<close>, or a false condition).
\<close>

partial_function (option) loop :: "('x \<Rightarrow> ('s, 'x + 'a) prog) \<Rightarrow> 'x \<Rightarrow> ('s, 'a) prog" where
  "loop body x s =
     Option.bind (body x s) (\<lambda>(r, s').
       case r of
         Inl e \<Rightarrow> Some (Inl e, s')
       | Inr (Inl x') \<Rightarrow> loop body x' s'
       | Inr (Inr a) \<Rightarrow> Some (Inr a, s'))"

section \<open>Correctness calculi\<close>

definition wp :: "('s, 'a) prog \<Rightarrow> ('a \<Rightarrow> 's \<Rightarrow> bool) \<Rightarrow> (stop \<Rightarrow> 's \<Rightarrow> bool) \<Rightarrow> 's \<Rightarrow> bool" where
  "wp m Q E s =
     (case m s of None \<Rightarrow> True | Some (Inl e, s') \<Rightarrow> E e s' | Some (Inr x, s') \<Rightarrow> Q x s')"

definition twp :: "('s, 'a) prog \<Rightarrow> ('a \<Rightarrow> 's \<Rightarrow> bool) \<Rightarrow> (stop \<Rightarrow> 's \<Rightarrow> bool) \<Rightarrow> 's \<Rightarrow> bool" where
  "twp m Q E s =
     (case m s of None \<Rightarrow> False | Some (Inl e, s') \<Rightarrow> E e s' | Some (Inr x, s') \<Rightarrow> Q x s')"

named_theorems wp_simps \<open>weakest preconditions of the program constructs\<close>

text \<open>The equations are unapplied, so that they also rewrite under a postcondition.\<close>

lemma wp_ret [wp_simps]: "wp (ret x) Q E = Q x" "twp (ret x) Q E = Q x"
  by (simp_all add: fun_eq_iff wp_def twp_def ret_def)

lemma wp_halt [wp_simps]: "wp (halt e) Q E = E e" "twp (halt e) Q E = E e"
  by (simp_all add: fun_eq_iff wp_def twp_def halt_def)

lemma wp_gets [wp_simps]: "wp (gets f) Q E = (\<lambda>s. Q (f s) s)" "twp (gets f) Q E = (\<lambda>s. Q (f s) s)"
  by (simp_all add: fun_eq_iff wp_def twp_def gets_def)

lemma wp_modify [wp_simps]: "wp (modify f) Q E = (\<lambda>s. Q () (f s))" "twp (modify f) Q E = (\<lambda>s. Q () (f s))"
  by (simp_all add: fun_eq_iff wp_def twp_def modify_def)

lemma wp_bnd [wp_simps]:
  "wp (bnd m f) Q E = wp m (\<lambda>x. wp (f x) Q E) E"
  "twp (bnd m f) Q E = twp m (\<lambda>x. twp (f x) Q E) E"
  by (simp_all add: fun_eq_iff wp_def twp_def bnd_def split: option.split sum.split)

lemma wp_seq [wp_simps]:
  "wp (seq m n) Q E = wp m (\<lambda>_. wp n Q E) E"
  "twp (seq m n) Q E = twp m (\<lambda>_. twp n Q E) E"
  by (simp_all add: seq_def wp_bnd)

lemma wp_guarded [wp_simps]:
  "wp (guarded b m) Q E = (if b then wp m Q E else Q ())"
  "twp (guarded b m) Q E = (if b then twp m Q E else Q ())"
  by (simp_all add: guarded_def wp_ret)

lemma wp_if [wp_simps]:
  "wp (if b then m else n) Q E = (if b then wp m Q E else wp n Q E)"
  "twp (if b then m else n) Q E = (if b then twp m Q E else twp n Q E)"
  by simp_all

lemma wp_mono:
  assumes "wp m Q E s" and "\<And>x t. Q x t \<Longrightarrow> Q' x t" and "\<And>e t. E e t \<Longrightarrow> E' e t"
  shows "wp m Q' E' s"
  using assms by (auto simp add: wp_def split: option.splits sum.splits)

lemma twp_mono:
  assumes "twp m Q E s" and "\<And>x t. Q x t \<Longrightarrow> Q' x t" and "\<And>e t. E e t \<Longrightarrow> E' e t"
  shows "twp m Q' E' s"
  using assms by (auto simp add: twp_def split: option.splits sum.splits)

lemma wp_returns: "wp m Q E s \<Longrightarrow> m s = Some (Inr x, t) \<Longrightarrow> Q x t"
  by (simp add: wp_def)

lemma wp_stops: "wp m Q E s \<Longrightarrow> m s = Some (Inl e, t) \<Longrightarrow> E e t"
  by (simp add: wp_def)

lemma wp_conj: "wp m Q E s \<Longrightarrow> wp m Q' E' s \<Longrightarrow> wp m (\<lambda>x t. Q x t \<and> Q' x t) (\<lambda>e t. E e t \<and> E' e t) s"
  by (auto simp add: wp_def split: option.splits sum.splits)

lemma twpI: "m s \<noteq> None \<Longrightarrow> wp m Q E s \<Longrightarrow> twp m Q E s"
  by (auto simp add: wp_def twp_def split: option.splits)

lemma twp_wp: "twp m Q E s \<Longrightarrow> wp m Q E s"
  by (auto simp add: wp_def twp_def split: option.splits)

lemma twp_terminates: "twp m Q E s \<Longrightarrow> m s \<noteq> None"
  by (auto simp add: twp_def split: option.splits)

lemma twp_returned: "twp m Q (\<lambda>_ _. False) s \<Longrightarrow> \<exists>x t. m s = Some (Inr x, t) \<and> Q x t"
  by (auto simp add: twp_def split: option.splits) (metis old.sum.simps(5,6) sum.exhaust)

subsection \<open>Loops\<close>

lemma loop_wp:
  assumes step: "\<And>x s. I x s \<Longrightarrow>
      wp (body x) (\<lambda>r t. case r of Inl y \<Rightarrow> I y t | Inr a \<Rightarrow> Q a t) E s"
    and init: "I x s"
  shows "wp (loop body x) Q E s"
proof -
  let ?P = "\<lambda>b x s z. b = body \<longrightarrow> I x s \<longrightarrow> (case z of (Inl e, t) \<Rightarrow> E e t | (Inr a, t) \<Rightarrow> Q a t)"
  have "?P body x s z" if "loop body x s = Some z" for z
  proof -
    have "(case ((body, x), s) of (p, s) \<Rightarrow> (case p of (b, x) \<Rightarrow> ?P b x) s) z"
    proof (rule loop.raw_induct [where P = ?P])
      show "?P b x s z"
        if IH: "\<And>b x s z. f b x s = Some z \<Longrightarrow> ?P b x s z"
          and eq: "Option.bind (b x s) (\<lambda>(r, s'). case r of Inl e \<Rightarrow> Some (Inl e, s')
             | Inr (Inl x') \<Rightarrow> f b x' s' | Inr (Inr a) \<Rightarrow> Some (Inr a, s')) = Some z"
        for f b x s z
      proof (intro impI)
        assume b: "b = body" and inv: "I x s"
        from eq b obtain r t where r: "body x s = Some (r, t)" by (cases "body x s") auto
        with step [OF inv] have "case r of Inl e \<Rightarrow> E e t
            | Inr q \<Rightarrow> (case q of Inl y \<Rightarrow> I y t | Inr a \<Rightarrow> Q a t)"
          by (cases r) (simp_all add: wp_def)
        with r eq b IH [of body _ t z] show "case z of (Inl e, t) \<Rightarrow> E e t | (Inr a, t) \<Rightarrow> Q a t"
          by (auto split: sum.splits)
      qed
      show "(case ((body, x), s) of (p, s) \<Rightarrow> (case p of (b, x) \<Rightarrow> loop b x) s) = Some z"
        using that by simp
    qed
    then show ?thesis by simp
  qed
  with init show ?thesis by (auto simp add: wp_def split: option.split sum.split)
qed

lemma loop_twp:
  assumes wf: "wf R"
    and step: "\<And>x s. I x s \<Longrightarrow>
      twp (body x) (\<lambda>r t. case r of Inl y \<Rightarrow> I y t \<and> ((y, t), (x, s)) \<in> R | Inr a \<Rightarrow> Q a t) E s"
    and init: "I x s"
  shows "twp (loop body x) Q E s"
  using wf init
proof (induction "(x, s)" arbitrary: x s rule: wf_induct_rule)
  case less
  from step [OF less.prems] obtain r t where r: "body x s = Some (r, t)"
    and post: "case r of Inl e \<Rightarrow> E e t
      | Inr (Inl y) \<Rightarrow> I y t \<and> ((y, t), (x, s)) \<in> R | Inr (Inr a) \<Rightarrow> Q a t"
    by (auto simp add: twp_def split: option.splits sum.splits)
  have "twp (loop body x) Q E s = (case r of Inl e \<Rightarrow> E e t
      | Inr (Inl y) \<Rightarrow> twp (loop body y) Q E t | Inr (Inr a) \<Rightarrow> Q a t)"
    using r unfolding twp_def loop.simps [of body x s] by (auto split: sum.split)
  with post less.hyps show ?case by (auto split: sum.splits)
qed

subsection \<open>Hoare triples\<close>

text \<open>A triple with one stop condition \<open>E\<close> for the whole program.\<close>

definition hoare :: "(stop \<Rightarrow> 's \<Rightarrow> bool) \<Rightarrow> ('s \<Rightarrow> bool) \<Rightarrow> ('s, 'a) prog \<Rightarrow> ('a \<Rightarrow> 's \<Rightarrow> bool) \<Rightarrow> bool" where
  "hoare E P m Q \<longleftrightarrow> (\<forall>t. P t \<longrightarrow> wp m Q E t)"

named_theorems keep_intros \<open>triples whose precondition is kept\<close>

lemma hoareI: "(\<And>t. P t \<Longrightarrow> wp m Q E t) \<Longrightarrow> hoare E P m Q"
  by (simp add: hoare_def)

lemma hoareD: "hoare E P m Q \<Longrightarrow> P t \<Longrightarrow> wp m Q E t"
  by (simp add: hoare_def)

lemma hoare_bnd:
  assumes "hoare E P m R" and "\<And>x. hoare E (R x) (f x) Q"
  shows "hoare E P (bnd m f) Q"
  using assms by (auto simp add: hoare_def wp_simps elim!: wp_mono)

lemma hoare_seq: "hoare E P m (\<lambda>_. R) \<Longrightarrow> hoare E R n Q \<Longrightarrow> hoare E P (seq m n) Q"
  unfolding seq_def by (rule hoare_bnd)

lemma hoare_post: "hoare E P m Q \<Longrightarrow> (\<And>x t. Q x t \<Longrightarrow> Q' x t) \<Longrightarrow> hoare E P m Q'"
  unfolding hoare_def by (blast intro: wp_mono)

lemma hoare_pre: "hoare E P m Q \<Longrightarrow> (\<And>t. P' t \<Longrightarrow> P t) \<Longrightarrow> hoare E P' m Q"
  by (auto simp add: hoare_def)

lemma hoare_ret: "(\<And>t. P t \<Longrightarrow> Q x t) \<Longrightarrow> hoare E P (ret x) Q"
  by (simp add: hoare_def wp_simps)

lemma hoare_modify: "(\<And>t. P t \<Longrightarrow> Q () (f t)) \<Longrightarrow> hoare E P (modify f) Q"
  by (simp add: hoare_def wp_simps)

lemma hoare_gets: "(\<And>t. P t \<Longrightarrow> Q (f t) t) \<Longrightarrow> hoare E P (gets f) Q"
  by (simp add: hoare_def wp_simps)

lemma hoare_if: "(b \<Longrightarrow> hoare E P m Q) \<Longrightarrow> (\<not> b \<Longrightarrow> hoare E P n Q) \<Longrightarrow> hoare E P (if b then m else n) Q"
  by simp

lemma hoare_False: "hoare E (\<lambda>_. False) m Q"
  by (simp add: hoare_def)

lemma hoare_loop:
  assumes "\<And>x. hoare E (I x) (body x) (\<lambda>r t. case r of Inl y \<Rightarrow> I y t | Inr a \<Rightarrow> Q a t)"
  shows "hoare E (I x) (loop body x) Q"
  using assms unfolding hoare_def by (blast intro: loop_wp)

lemma keep_loop: "(\<And>x. hoare E P (body x) (\<lambda>_. P)) \<Longrightarrow> hoare E P (loop body x) (\<lambda>_. P)"
  by (rule hoare_loop [where I = "\<lambda>_. P"]) (auto elim: hoare_post split: sum.split)

lemma hoare_pull: "(B \<Longrightarrow> hoare E P m Q) \<Longrightarrow> hoare E (\<lambda>t. P t \<and> B) m Q"
  by (simp add: hoare_def)

lemma hoare_ex: "(\<And>x. hoare E (P x) m Q) \<Longrightarrow> hoare E (\<lambda>t. \<exists>x. P x t) m Q"
  by (auto simp add: hoare_def)

lemma keep_bnd [keep_intros]:
  "hoare E P m (\<lambda>_. P) \<Longrightarrow> (\<And>x. hoare E P (f x) Q) \<Longrightarrow> hoare E P (bnd m f) Q"
  by (rule hoare_bnd)

lemma keep_seq [keep_intros]: "hoare E P m (\<lambda>_. P) \<Longrightarrow> hoare E P n Q \<Longrightarrow> hoare E P (seq m n) Q"
  by (rule hoare_seq)

lemma keep_guarded [keep_intros]: "(b \<Longrightarrow> hoare E P m (\<lambda>_. P)) \<Longrightarrow> hoare E P (guarded b m) (\<lambda>_. P)"
  by (simp add: hoare_def wp_simps)

lemma keep_ret [keep_intros]: "hoare E P (ret x) (\<lambda>_. P)"
  by (rule hoare_ret)

lemma keep_gets [keep_intros]: "hoare E P (gets f) (\<lambda>_. P)"
  by (rule hoare_gets)

lemma keep_modify [keep_intros]: "(\<And>t. P t \<Longrightarrow> P (f t)) \<Longrightarrow> hoare E P (modify f) (\<lambda>_. P)"
  by (rule hoare_modify)

lemmas keep_if [keep_intros] = hoare_if

lemma keep_option [keep_intros]:
  "(x = None \<Longrightarrow> hoare E P m Q) \<Longrightarrow> (\<And>y. x = Some y \<Longrightarrow> hoare E P (f y) Q) \<Longrightarrow>
   hoare E P (case x of None \<Rightarrow> m | Some y \<Rightarrow> f y) Q"
  by (cases x) simp_all

lemma hoare_gets_bnd:
  "(\<And>t. P t \<Longrightarrow> g t = x) \<Longrightarrow> hoare E P (f x) Q \<Longrightarrow> hoare E P (bnd (gets g) f) Q"
  by (simp add: hoare_def wp_simps)

lemma hoare_gets_pair:
  "(\<And>t. P t \<Longrightarrow> h t = y) \<Longrightarrow> (\<And>x. hoare E P (f (x, y)) Q) \<Longrightarrow>
   hoare E P (bnd (gets (\<lambda>t. (g t, h t))) f) Q"
  by (simp add: hoare_def wp_simps)

lemma hoare_checked: "m = Some v \<Longrightarrow> hoare E P (f v) Q \<Longrightarrow> hoare E P (bnd (checked m) f) Q"
  by (simp add: checked_def hoare_def wp_simps)

lemma hoare_conj:
  "hoare E P m Q \<Longrightarrow> hoare E' P m Q' \<Longrightarrow>
   hoare (\<lambda>e t. E e t \<and> E' e t) P m (\<lambda>x t. Q x t \<and> Q' x t)"
  by (simp add: hoare_def wp_conj)

lemma hoare_stop: "(\<And>t. P t \<Longrightarrow> E e t) \<Longrightarrow> hoare E P (halt e) Q"
  by (simp add: hoare_def wp_simps)

lemma hoare_guarded:
  "(b \<Longrightarrow> hoare E P m Q) \<Longrightarrow> (\<And>t. \<not> b \<Longrightarrow> P t \<Longrightarrow> Q () t) \<Longrightarrow> hoare E P (guarded b m) Q"
  by (simp add: hoare_def wp_simps)

subsection \<open>Recursive programs\<close>

text \<open>The combinators are monotone, so a program may call itself inside them.\<close>

lemma bnd_mono [partial_function_mono]:
  assumes "\<And>s. monotone R option_ord (\<lambda>f. m f s)" and "\<And>x s. monotone R option_ord (\<lambda>f. g f x s)"
  shows "monotone R option_ord (\<lambda>f. bnd (m f) (g f) s)"
proof (rule monotoneI)
  fix f f'
  assume le: "R f f'"
  have m: "m f s = None \<or> m f s = m f' s" using monotoneD [OF assms(1) le, of s] by (auto simp add: flat_ord_def)
  have g: "g f x t = None \<or> g f x t = g f' x t" for x t
    using monotoneD [OF assms(2) le, of x t] by (auto simp add: flat_ord_def)
  show "option_ord (bnd (m f) (g f) s) (bnd (m f') (g f') s)"
  proof (cases "m f s")
    case None
    then show ?thesis by (simp add: bnd_def flat_ord_def)
  next
    case (Some z)
    with m have "m f' s = Some z" by simp
    with Some g show ?thesis by (cases z; cases "fst z") (auto simp add: bnd_def flat_ord_def)
  qed
qed

lemma seq_mono [partial_function_mono]:
  "(\<And>s. monotone R option_ord (\<lambda>f. m f s)) \<Longrightarrow> (\<And>s. monotone R option_ord (\<lambda>f. n f s)) \<Longrightarrow>
   monotone R option_ord (\<lambda>f. seq (m f) (n f) s)"
  unfolding seq_def by (rule bnd_mono)

lemma guarded_mono [partial_function_mono]:
  "(\<And>s. monotone R option_ord (\<lambda>f. m f s)) \<Longrightarrow> monotone R option_ord (\<lambda>f. guarded b (m f) s)"
  by (cases b) (simp_all add: guarded_def monotone_def flat_ord_def)

lemma if_mono [partial_function_mono]:
  "(\<And>s. monotone R option_ord (\<lambda>f. m f s)) \<Longrightarrow> (\<And>s. monotone R option_ord (\<lambda>f. n f s)) \<Longrightarrow>
   monotone R option_ord (\<lambda>f. (if b then m f else n f) s)"
  by (cases b) simp_all

lemma loop_mono [partial_function_mono]:
  assumes "\<And>x s. monotone R option_ord (\<lambda>f. body f x s)"
  shows "monotone R option_ord (\<lambda>f. loop (body f) x s)"
proof (rule monotoneI)
  fix f f'
  assume le: "R f f'"
  have step: "body f x s = None \<or> body f x s = body f' x s" for x s
    using monotoneD [OF assms le, of x s] by (auto simp add: flat_ord_def)
  have "loop (body f) x s = Some z \<Longrightarrow> loop (body f') x s = Some z" for z
  proof -
    have "wp (loop (body f) x) (\<lambda>a t. loop (body f') x s = Some (Inr a, t)) (\<lambda>e t. loop (body f') x s = Some (Inl e, t)) s"
    proof (rule loop_wp [where I = "\<lambda>y t. loop (body f') y t = loop (body f') x s"])
      fix y t
      assume I: "loop (body f') y t = loop (body f') x s"
      show "wp (body f y) (\<lambda>r u. case r of Inl z \<Rightarrow> loop (body f') z u = loop (body f') x s
          | Inr a \<Rightarrow> loop (body f') x s = Some (Inr a, u)) (\<lambda>e u. loop (body f') x s = Some (Inl e, u)) t"
      proof (cases "body f y t")
        case (Some z)
        then have "body f' y t = Some z" using step [of y t] by simp
        with Some show ?thesis unfolding I [symmetric] by (simp add: wp_def loop.simps [of "body f'" y] split: sum.split prod.split)
      qed (simp add: wp_def)
    qed simp
    then show "loop (body f) x s = Some z \<Longrightarrow> loop (body f') x s = Some z"
      by (cases z; cases "fst z") (auto simp add: wp_def)
  qed
  then show "option_ord (loop (body f) x s) (loop (body f') x s)"
    by (cases "loop (body f) x s") (auto simp add: flat_ord_def)
qed

end
