(* ===== verification/Ext2_Types.thy ===== *)
theory Ext2_Types
  imports Qubes_Prelude
begin

text \<open>
  The structures of the library \<open>libext2fs\<close> that \<open>src/kernel-modules/genfs.c\<close> uses, with the
  fields it uses by name and the rest of an inode as bytes, and the calls of the library.
\<close>

record ext2_inode =
  i_mode :: u16
  i_uid :: u16
  i_gid :: u16
  i_links_count :: u16
  i_flags :: u32
  i_ctime :: u32
  i_mtime :: u32
  i_atime :: u32
  i_crtime :: u32
  i_ctime_extra :: u32
  i_mtime_extra :: u32
  i_atime_extra :: u32
  i_crtime_extra :: u32
  i_uid_high :: u16
  i_gid_high :: u16
  l_i_version :: u32
  i_generation :: u32
  i_version_hi :: u32
  i_projid :: u32
  i_other :: bytes

record ext2_super =
  s_first_error_time :: u32
  s_last_error_time :: u32
  s_first_error_time_hi :: u8
  s_last_error_time_hi :: u8
  s_first_error_ino :: u32
  s_rev_level :: u32
  s_inode_size :: u16
  s_lpf_ino :: u32
  s_first_ino :: u32
  s_mtime :: u32
  s_wtime :: u32
  s_mkfs_time :: u32
  s_lastcheck :: u32
  s_mtime_hi :: u8
  s_wtime_hi :: u8
  s_mkfs_time_hi :: u8
  s_lastcheck_hi :: u8
  s_checkinterval :: u32

text \<open>A directory entry: its name is the \<open>ext2fs_dirent_name_len\<close> bytes of the name.\<close>

record ext2_dirent =
  d_inode :: u32
  d_name :: bytes
  d_file_type :: u8

datatype ext2_call =
    Ext2_open bytes
  | Ext2_namei u32 u32 bytes
  | Ext2_open_scan
  | Ext2_next_inode
  | Ext2_close_scan
  | Ext2_read_inode u32
  | Ext2_write_inode u32 ext2_inode
  | Ext2_dir_next u32
  | Ext2_mark_super_dirty
  | Ext2_close "u64 option" ext2_super
  | Xattrs_open u32
  | Xattrs_read u64
  | Xattr_set u64 bytes bytes
  | Xattrs_count u64
  | Xattrs_close u64

record ext2_answer =
  ext2_ino :: ext2_inode
  ext2_sb :: ext2_super
  ext2_entry :: ext2_dirent

definition zero_ext2 :: ext2_answer where
  "zero_ext2 =
     \<lparr>ext2_ino = \<lparr>i_mode = 0, i_uid = 0, i_gid = 0, i_links_count = 0, i_flags = 0, i_ctime = 0, i_mtime = 0, i_atime = 0,
        i_crtime = 0, i_ctime_extra = 0, i_mtime_extra = 0, i_atime_extra = 0, i_crtime_extra = 0, i_uid_high = 0,
        i_gid_high = 0, l_i_version = 0, i_generation = 0, i_version_hi = 0, i_projid = 0, i_other = []\<rparr>,
      ext2_sb = \<lparr>s_first_error_time = 0, s_last_error_time = 0, s_first_error_time_hi = 0, s_last_error_time_hi = 0,
        s_first_error_ino = 0, s_rev_level = 1, s_inode_size = 256, s_lpf_ino = 11, s_first_ino = 11, s_mtime = 0,
        s_wtime = 0, s_mkfs_time = 0, s_lastcheck = 0, s_mtime_hi = 0, s_wtime_hi = 0, s_mkfs_time_hi = 0,
        s_lastcheck_hi = 0, s_checkinterval = 0\<rparr>,
      ext2_entry = \<lparr>d_inode = 0, d_name = [], d_file_type = 0\<rparr>\<rparr>"

end
