(* ===== verification/Syscalls.thy ===== *)
theory Syscalls
  imports Sys_Prog Ext2_Types
begin

text \<open>
  The system calls, library calls and client callbacks the modelled code uses, and their
  effect on a program state.  What the environment answers is the parameter \<open>os\<close>; \<open>answer\<close>
  writes out the part of the POSIX contract that is a matter of types: \<open>read\<close> returns -1 or
  delivers at most the requested number of bytes and returns how many, as does \<open>readlink\<close>, \<open>write\<close> returns -1 or
  the number of bytes of the given buffer it took (the same for \<open>pread\<close> and \<open>pwrite\<close>), and every other call returns -1 or a
  non-negative C \<open>int\<close>.  Messages on standard error are calls with
  no effect on errno.
\<close>

unbundle bit_operations_syntax

type_synonym fd = int

record stat =
  st_mode :: u32
  st_size :: u64
  st_atim_sec :: u64
  st_atim_nsec :: u64
  st_mtim_sec :: u64
  st_mtim_nsec :: u64
  st_rdev :: u64

text \<open>
  Calls on block devices and descriptors at an offset, allocation, the formatted log of
  the block-device tools (a format string with its numeric arguments), and processes and signals.
\<close>

datatype dev_call =
    Pread fd nat u64
  | Pwrite fd bytes u64
  | Fsync fd
  | Flock fd
  | Ioctl fd u64
  | Dup3 fd fd u32
  | Dup2 fd fd
  | Malloc nat
  | Vlog string "u64 list"
  | Ferror_stdout
  | Fflush
  | Open_mode bytes u32 u32
  | Loop_ctl fd u64
  | Loop_configure fd fd u32 u32
  | Fork
  | Sigprocmask bool
  | Signal_usr1
  | Sigsuspend
  | Kill int int

text \<open>Calls of the XenStore client library and the environment of the process.\<close>

datatype xs_call =
    Xs_open
  | Xs_read bytes
  | Xs_write u64 bytes bytes
  | Xs_rm bytes
  | Xs_watch bytes bytes
  | Xs_read_watch
  | Xs_transaction_start
  | Xs_transaction_end u64
  | Xs_close
  | Getenv string

datatype syscall =
    Read fd nat
  | Write fd bytes
  | Fcntl_getfl fd
  | Fcntl_setfl fd u32
  | Close fd
  | Open bytes u32
  | Openat fd bytes u32 u32
  | Mkdirat fd bytes u32
  | Linkat fd bytes fd bytes u32
  | Symlinkat bytes fd bytes
  | Fstat fd
  | Fstatvfs fd
  | Fchmod fd u32
  | Futimens fd u32 u32 u32 u32
  | Syncfs fd
  | Usleep nat
  | Strdup bytes
  | Lstat bytes
  | Readlink bytes nat
  | Opendir bytes
  | Readdir fd
  | Closedir fd
  | Asprintf bytes
  | Signal_ignore int
  | Stderr string
  | Notify_progress int int
  | Error_handler string "bytes list"
  | Device dev_call
  | Xenstore xs_call
  | Ext2 ext2_call

record response =
  rv :: int
  re :: int
  rdata :: bytes
  rstat :: stat
  rvfs :: "u64 \<times> u64"
  rval :: u64
  rext :: ext2_answer

type_synonym 'w os = "syscall \<Rightarrow> 'w \<Rightarrow> response \<times> 'w"

record 'w sys =
  world :: 'w
  errno :: int
  trace :: "(syscall \<times> response) list"

fun answer_dev :: "dev_call \<Rightarrow> response \<Rightarrow> response" where
  "answer_dev (Pread fd n off) r =
     (if rv r < 0 then r\<lparr>rv := -1, rdata := []\<rparr>
      else r\<lparr>rv := int (length (take n (rdata r))), rdata := take n (rdata r)\<rparr>)"
| "answer_dev (Pwrite fd b off) r =
     (if rv r < 0 then r\<lparr>rv := -1\<rparr> else r\<lparr>rv := int (min (nat (rv r)) (length b))\<rparr>)"
| "answer_dev c r = r\<lparr>rv := (if rv r < 0 then -1 else take_bit 31 (rv r))\<rparr>"

fun answer :: "syscall \<Rightarrow> response \<Rightarrow> response" where
  "answer (Read fd n) r =
     (if rv r < 0 then r\<lparr>rv := -1, rdata := []\<rparr>
      else r\<lparr>rv := int (length (take n (rdata r))), rdata := take n (rdata r)\<rparr>)"
| "answer (Write fd b) r =
     (if rv r < 0 then r\<lparr>rv := -1\<rparr> else r\<lparr>rv := int (min (nat (rv r)) (length b))\<rparr>)"
| "answer (Readlink p n) r =
     (if rv r < 0 then r\<lparr>rv := -1, rdata := []\<rparr>
      else r\<lparr>rv := int (length (take n (rdata r))), rdata := take n (rdata r)\<rparr>)"
| "answer (Device c) r = answer_dev c r"
| "answer c r = r\<lparr>rv := (if rv r < 0 then -1 else take_bit 31 (rv r))\<rparr>"

definition sys_res :: "'w os \<Rightarrow> syscall \<Rightarrow> ('w, 'm) sys_scheme \<Rightarrow> response" where
  "sys_res os c s = answer c (fst (os c (world s)))"

definition sys_upd :: "'w \<Rightarrow> int \<Rightarrow> (syscall \<times> response) list \<Rightarrow> ('w, 'm) sys_scheme \<Rightarrow> ('w, 'm) sys_scheme" where
  "sys_upd w e tr s = s\<lparr>world := w, errno := e, trace := trace s @ tr\<rparr>"

definition sys :: "'w os \<Rightarrow> syscall \<Rightarrow> (('w, 'm) sys_scheme, response) prog" where
  "sys os c s =
     (let r = sys_res os c s
      in Some (Inr r, sys_upd (snd (os c (world s))) (re r) [(c, r)] s))"

text \<open>A message on standard error, and a callback of the client: errno stays.\<close>

definition say :: "'w os \<Rightarrow> syscall \<Rightarrow> (('w, 'm) sys_scheme, unit) prog" where
  "say os c = bnd (gets errno) (\<lambda>e. bnd (sys os c) (\<lambda>_. modify (\<lambda>s. s\<lparr>errno := e\<rparr>)))"

section \<open>Constants of fcntl.h and stat.h (Linux, x86-64)\<close>

definition O_RDONLY :: u32 where "O_RDONLY = 0"
definition O_WRONLY :: u32 where "O_WRONLY = 1"
definition O_RDWR :: u32 where "O_RDWR = 2"
definition O_CREAT :: u32 where "O_CREAT = 0x40"
definition O_EXCL :: u32 where "O_EXCL = 0x80"
definition O_NOCTTY :: u32 where "O_NOCTTY = 0x100"
definition O_TRUNC :: u32 where "O_TRUNC = 0x200"
definition O_APPEND :: u32 where "O_APPEND = 0x400"
definition O_NONBLOCK :: u32 where "O_NONBLOCK = 0x800"
definition O_DIRECTORY :: u32 where "O_DIRECTORY = 0x10000"
definition O_NOFOLLOW :: u32 where "O_NOFOLLOW = 0x20000"
definition O_CLOEXEC :: u32 where "O_CLOEXEC = 0x80000"
definition O_SYNC :: u32 where "O_SYNC = 0x101000"
definition O_TMPFILE :: u32 where "O_TMPFILE = 0x400000 OR O_DIRECTORY"

definition S_ISREG :: "u32 \<Rightarrow> bool" where "S_ISREG m \<longleftrightarrow> m AND 0xF000 = 0x8000"
definition S_ISLNK :: "u32 \<Rightarrow> bool" where "S_ISLNK m \<longleftrightarrow> m AND 0xF000 = 0xA000"
definition S_ISDIR :: "u32 \<Rightarrow> bool" where "S_ISDIR m \<longleftrightarrow> m AND 0xF000 = 0x4000"
definition S_ISBLK :: "u32 \<Rightarrow> bool" where "S_ISBLK m \<longleftrightarrow> m AND 0xF000 = 0x6000"

lemma S_IS_disjoint: "S_ISREG m \<Longrightarrow> \<not> S_ISLNK m" "S_ISREG m \<Longrightarrow> \<not> S_ISDIR m" "S_ISLNK m \<Longrightarrow> \<not> S_ISDIR m"
  "S_ISLNK m \<Longrightarrow> \<not> S_ISREG m" "S_ISDIR m \<Longrightarrow> \<not> S_ISREG m" "S_ISDIR m \<Longrightarrow> \<not> S_ISLNK m"
  by (simp_all add: S_ISREG_def S_ISLNK_def S_ISDIR_def)

section \<open>What a trace moved\<close>

fun read_by :: "fd \<Rightarrow> syscall \<times> response \<Rightarrow> bytes" where
  "read_by fd (Read f n, r) = (if f = fd then rdata r else [])"
| "read_by fd _ = []"

fun written_by :: "fd \<Rightarrow> syscall \<times> response \<Rightarrow> bytes" where
  "written_by fd (Write f b, r) = (if f = fd then take (nat (rv r)) b else [])"
| "written_by fd _ = []"

definition read_from :: "fd \<Rightarrow> (syscall \<times> response) list \<Rightarrow> bytes" where
  "read_from fd tr = concat (map (read_by fd) tr)"

definition written_to :: "fd \<Rightarrow> (syscall \<times> response) list \<Rightarrow> bytes" where
  "written_to fd tr = concat (map (written_by fd) tr)"

definition calls :: "(syscall \<times> response) list \<Rightarrow> syscall list" where
  "calls tr = map fst tr"

lemma trace_simps [simp]:
  "read_from fd [] = []" "written_to fd [] = []" "calls [] = []"
  "read_from fd (x # tr) = read_by fd x @ read_from fd tr"
  "written_to fd (x # tr) = written_by fd x @ written_to fd tr"
  "calls (x # tr) = fst x # calls tr"
  "read_from fd (tr @ tr') = read_from fd tr @ read_from fd tr'"
  "written_to fd (tr @ tr') = written_to fd tr @ written_to fd tr'"
  "calls (tr @ tr') = calls tr @ calls tr'"
  by (simp_all add: read_from_def written_to_def calls_def)

definition no_read :: "fd \<Rightarrow> syscall \<Rightarrow> bool" where
  "no_read fd c = (case c of Read f n \<Rightarrow> f \<noteq> fd | _ \<Rightarrow> True)"

definition no_write :: "fd \<Rightarrow> syscall \<Rightarrow> bool" where
  "no_write fd c = (case c of Write f b \<Rightarrow> f \<noteq> fd | _ \<Rightarrow> True)"

lemma no_read_from: "list_all (no_read fd) (calls tr) \<Longrightarrow> read_from fd tr = []"
proof (induction tr)
  case (Cons x tr)
  then show ?case by (cases x; cases "fst x") (auto simp add: no_read_def)
qed simp

lemma no_written_to: "list_all (no_write fd) (calls tr) \<Longrightarrow> written_to fd tr = []"
proof (induction tr)
  case (Cons x tr)
  then show ?case by (cases x; cases "fst x") (auto simp add: no_write_def)
qed simp

section \<open>State updates and weakest preconditions\<close>

lemma sys_upd_simps [simp]:
  "world (sys_upd w e tr s) = w" "errno (sys_upd w e tr s) = e"
  "trace (sys_upd w e tr s) = trace s @ tr" "sys.more (sys_upd w e tr s) = sys.more s"
  by (simp_all add: sys_upd_def)

lemma sys_upd_upd [simp]: "sys_upd w e tr (sys_upd w' e' tr' s) = sys_upd w e (tr' @ tr) s"
  by (simp add: sys_upd_def)

lemma sys_upd_errno [simp]: "(sys_upd w e tr s)\<lparr>errno := e'\<rparr> = sys_upd w e' tr s"
  by (simp add: sys_upd_def)

lemma sys_upd_self: "sys_upd (world s) (errno s) [] s = s"
  by (simp add: sys_upd_def)

lemma errno_upd_sys_upd: "s\<lparr>errno := e\<rparr> = sys_upd (world s) e [] s"
  by (simp add: sys_upd_def)

lemma wp_sys [wp_simps]:
  "wp (sys os c) Q E = (\<lambda>s.
     Q (sys_res os c s) (sys_upd (snd (os c (world s))) (re (sys_res os c s)) [(c, sys_res os c s)] s))"
  "twp (sys os c) Q E = (\<lambda>s.
     Q (sys_res os c s) (sys_upd (snd (os c (world s))) (re (sys_res os c s)) [(c, sys_res os c s)] s))"
  by (simp_all add: fun_eq_iff wp_def twp_def sys_def Let_def)

lemma wp_say [wp_simps]:
  "wp (say os c) Q E = (\<lambda>s. Q () (sys_upd (snd (os c (world s))) (errno s) [(c, sys_res os c s)] s))"
  "twp (say os c) Q E = (\<lambda>s. Q () (sys_upd (snd (os c (world s))) (errno s) [(c, sys_res os c s)] s))"
  by (simp_all add: say_def wp_simps)

lemma sys_res_Read:
  "rv (sys_res os (Read fd n) s) = -1 \<and> rdata (sys_res os (Read fd n) s) = [] \<or>
   (\<exists>d. length d \<le> n \<and> rdata (sys_res os (Read fd n) s) = d \<and> rv (sys_res os (Read fd n) s) = int (length d))"
  by (auto simp add: sys_res_def)

lemma sys_res_Write:
  "rv (sys_res os (Write fd b) s) = -1 \<or>
   (\<exists>k\<le>length b. rv (sys_res os (Write fd b) s) = int k)"
  by (auto simp add: sys_res_def)

text \<open>
  An environment interrupts finitely often in a row: some measure of the world decreases
  with every \<open>EINTR\<close>.
\<close>

definition eintr_bounded :: "'w os \<Rightarrow> ('w \<Rightarrow> nat) \<Rightarrow> bool" where
  "eintr_bounded os \<mu> \<longleftrightarrow>
     (\<forall>c w. rv (answer c (fst (os c w))) = -1 \<and> re (fst (os c w)) = EINTR \<longrightarrow> \<mu> (snd (os c w)) < \<mu> w)"

lemma re_answer_dev [simp]: "re (answer_dev c r) = re r"
  by (cases c) auto

lemma re_answer [simp]: "re (answer c r) = re r"
  by (cases c) auto

lemma eintr_boundedD:
  "eintr_bounded os \<mu> \<Longrightarrow> rv (sys_res os c s) = -1 \<Longrightarrow> re (sys_res os c s) = EINTR \<Longrightarrow>
   \<mu> (snd (os c (world s))) < \<mu> (world s)"
  by (simp add: eintr_bounded_def sys_res_def)

end
