(* ===== verification/Sys_Common.thy ===== *)
theory Sys_Common
  imports Syscalls
begin

text \<open>
  What the system tools share: \<open>err.h\<close> messages (\<open>err\<close> and \<open>errx\<close> are a message and an exit),
  \<open>assert\<close>, \<open>malloc\<close>, device numbers, and literal strings as bytes.
\<close>

unbundle bit_operations_syntax

definition EXIT_FAILURE :: int where "EXIT_FAILURE = 1"

definition warnx :: "'w os \<Rightarrow> string \<Rightarrow> ('w sys, unit) prog" where
  "warnx os msg = say os (Stderr msg)"

definition errx :: "'w os \<Rightarrow> int \<Rightarrow> string \<Rightarrow> ('w sys, 'a) prog" where
  "errx os code msg = seq (say os (Stderr msg)) (halt (Exit code))"

definition assert_c :: "bool \<Rightarrow> ('s, unit) prog" where
  "assert_c b = guarded (\<not> b) (halt Abort)"

text \<open>The uninitialised contents of a block are the environment's choice.\<close>

definition malloc :: "'w os \<Rightarrow> nat \<Rightarrow> ('w sys, bytes) prog" where
  "malloc os n =
     bnd (sys os (Device (Malloc n))) (\<lambda>r.
       if rv r < 0 then errx os EXIT_FAILURE ''malloc()''
       else ret (take n (rdata r @ replicate n 0)))"

text \<open>\<open>major\<close> and \<open>minor\<close> of \<open>sys/sysmacros.h\<close>.\<close>

definition dev_major :: "u64 \<Rightarrow> u32" where
  "dev_major d = ucast ((drop_bit 8 d AND 0xFFF) OR (drop_bit 32 d AND 0xFFFFF000))"

definition dev_minor :: "u64 \<Rightarrow> u32" where
  "dev_minor d = ucast ((d AND 0xFF) OR (drop_bit 12 d AND 0xFFFFFF00))"

definition ascii :: "string \<Rightarrow> bytes" where
  "ascii s = map (of_char :: char \<Rightarrow> u8) s"

end
