(* ===== verification/Sys_Reason.thy ===== *)
theory Sys_Reason
  imports Sys_Common
begin

text \<open>
  Proof rules for programs against an arbitrary environment: what holds when a program returns,
  which calls it makes, what it remembers of them, and that it ends.
\<close>

section \<open>Programs that only decide\<close>

text \<open>What holds whenever a program returns.\<close>

abbreviation returning :: "('s, 'a) prog \<Rightarrow> ('a \<Rightarrow> bool) \<Rightarrow> bool" where
  "returning m Q \<equiv> hoare (\<lambda>_ _. True) (\<lambda>_. True) m (\<lambda>x _. Q x)"

lemma returning_any: "returning m (\<lambda>_. True)"
  by (simp add: hoare_def wp_def split: option.split sum.split)

lemma returning_never: "returning (halt e) Q" "returning (errx os c m) Q"
  by (simp_all add: hoare_def errx_def wp_simps)

lemma hoare_fact:
  assumes "B \<Longrightarrow> hoare E (\<lambda>_. True) m Q"
  shows "hoare E (\<lambda>_. B) m Q"
  using assms by (simp add: hoare_def)

lemma returning_bnd: "returning m R \<Longrightarrow> (\<And>x. R x \<Longrightarrow> returning (f x) Q) \<Longrightarrow> returning (bnd m f) Q"
  by (rule hoare_bnd, assumption) (rule hoare_fact)

lemma returning_seq: "returning n Q \<Longrightarrow> returning (seq m n) Q"
  by (rule hoare_seq [OF returning_any])

lemma returning_assert: "(b \<Longrightarrow> returning n Q) \<Longrightarrow> returning (seq (assert_c b) n) Q"
  by (auto simp add: hoare_def assert_c_def wp_simps)

lemma hoare_assertE: "(b \<Longrightarrow> hoare (\<lambda>_ _. True) P n Q) \<Longrightarrow> hoare (\<lambda>_ _. True) P (seq (assert_c b) n) Q"
  by (auto simp add: hoare_def assert_c_def wp_simps)

lemma bnd_ret: "bnd (ret x) f = f x"
  by (simp add: fun_eq_iff bnd_def ret_def)

lemma bnd_assoc: "bnd (bnd m f) g = bnd m (\<lambda>x. bnd (f x) g)"
  by (simp add: fun_eq_iff bnd_def split: option.split sum.split bind_splits)

lemma bnd_if: "bnd (if b then m else n) f = (if b then bnd m f else bnd n f)"
  by simp

lemma bnd_halt: "bnd (halt e) f = halt e"
  by (simp add: fun_eq_iff bnd_def halt_def)

lemma bnd_errx: "bnd (errx os c w) f = errx os c w"
  by (simp add: errx_def seq_def bnd_assoc fun_eq_iff bnd_def halt_def split: option.split sum.split bind_splits)

lemma returning_guard:
  "returning m (\<lambda>_. False) \<Longrightarrow> (\<not> b \<Longrightarrow> returning n Q) \<Longrightarrow> returning (seq (guarded b m) n) Q"
  by (cases b) (auto simp add: guarded_def seq_def bnd_ret intro: hoare_bnd hoare_False)

lemma returning_checked: "(\<And>v. m = Some v \<Longrightarrow> returning (f v) Q) \<Longrightarrow> returning (bnd (checked m) f) Q"
  by (cases m) (simp_all add: checked_def hoare_def wp_simps)

lemma returning_ret: "Q x \<Longrightarrow> returning (ret x) Q"
  by (simp add: hoare_def wp_simps)

lemma returning_conj: "returning m Q \<Longrightarrow> returning m Q' \<Longrightarrow> returning m (\<lambda>x. Q x \<and> Q' x)"
  using hoare_conj [of "\<lambda>_ _. True" "\<lambda>_. True" m "\<lambda>x _. Q x" "\<lambda>_ _. True" "\<lambda>x _. Q' x"] by simp

lemma hoare_weaken_stop: "hoare E P m Q \<Longrightarrow> hoare (\<lambda>_ _. True) P m Q"
  unfolding hoare_def by (blast intro: wp_mono)

lemma malloc_returning: "returning (malloc os n) (\<lambda>b. length b = n)"
  by (auto simp add: malloc_def hoare_def wp_simps errx_def)

lemma hoare_weak: "hoare (\<lambda>_ _. True) P m (\<lambda>_ _. True)"
  by (simp add: hoare_def wp_def split: option.split sum.split)

lemma hoare_never_True: "hoare (\<lambda>_ _. True) P (errx os c m) Q"
  by (simp add: hoare_def errx_def wp_simps)

lemma hoare_outcome:
  "hoare E P m Q \<Longrightarrow> P s \<Longrightarrow> m s = Some (r, t) \<Longrightarrow> (case r of Inl e \<Rightarrow> E e t | Inr x \<Rightarrow> Q x t)"
  by (cases r) (auto simp add: hoare_def wp_def split: option.splits)

lemma hoare_run: "hoare (\<lambda>_. G) P m (\<lambda>_. G) \<Longrightarrow> P s \<Longrightarrow> m s = Some (r, t) \<Longrightarrow> G t"
  by (cases r) (auto simp add: hoare_def wp_def split: option.splits)

section \<open>Programs that never abort\<close>

lemma hoare_warnx: "hoare E (\<lambda>_. True) (warnx os m) (\<lambda>_ _. True)"
  by (simp add: hoare_def warnx_def wp_simps)

lemma hoare_errx: "hoare (\<lambda>e _. e \<noteq> Abort) (\<lambda>_. True) (errx os c m) Q"
  by (simp add: hoare_def errx_def wp_simps)

lemma hoare_assert: "b \<Longrightarrow> hoare E P (assert_c b) (\<lambda>_. P)"
  by (simp add: assert_c_def hoare_def wp_simps)

lemma hoare_malloc: "hoare (\<lambda>e _. e \<noteq> Abort) (\<lambda>_. True) (malloc os n) (\<lambda>_ _. True)"
  by (simp add: hoare_def malloc_def errx_def wp_simps)

lemma hoare_sys_answer: "hoare E (\<lambda>_. True) (sys os c) (\<lambda>r _. \<exists>r'. r = answer c r')"
  by (auto simp add: hoare_def wp_simps sys_res_def)

section \<open>The calls a program makes\<close>

text \<open>Every call made since the trace was \<open>tr\<close> satisfies \<open>R\<close>.\<close>

definition made :: "(syscall \<Rightarrow> bool) \<Rightarrow> (syscall \<times> response) list \<Rightarrow> 'w sys \<Rightarrow> bool" where
  "made R tr t \<longleftrightarrow> (\<exists>tr'. trace t = tr @ tr' \<and> list_all R (calls tr'))"

abbreviation makes :: "(syscall \<Rightarrow> bool) \<Rightarrow> (syscall \<times> response) list \<Rightarrow> ('w sys, 'a) prog \<Rightarrow> bool" where
  "makes R tr m \<equiv> hoare (\<lambda>_. made R tr) (made R tr) m (\<lambda>_. made R tr)"

lemma made_call: "made R tr t \<Longrightarrow> R c \<Longrightarrow> made R tr (sys_upd w e [(c, r)] t)"
  unfolding made_def by (elim exE conjE) (rule_tac x = "tr' @ [(c, r)]" in exI, simp)

lemma makes_sys [keep_intros]: "R c \<Longrightarrow> makes R tr (sys os c)"
  by (simp add: hoare_def wp_simps made_call)

lemma makes_say: "R c \<Longrightarrow> makes R tr (say os c)"
  by (simp add: hoare_def wp_simps made_call)

lemma makes_halt: "hoare (\<lambda>_. made R tr) (made R tr) (halt e) Q"
  by (simp add: hoare_def wp_simps)

lemma makes_assert [keep_intros]: "makes R tr (assert_c b)"
  by (simp add: assert_c_def hoare_def wp_simps)

lemma makes_checked [keep_intros]: "makes R tr (checked m)"
  by (simp add: checked_def hoare_def wp_simps split: option.split)

lemma keep_sum [keep_intros]:
  "(\<And>y. hoare E P (f y) Q) \<Longrightarrow> (\<And>y. hoare E P (g y) Q) \<Longrightarrow>
   hoare E P (case x of Inl y \<Rightarrow> f y | Inr y \<Rightarrow> g y) Q"
  by (cases x) simp_all

lemma keep_prod [keep_intros]:
  "(\<And>y z. hoare E P (f y z) Q) \<Longrightarrow> hoare E P (case x of (y, z) \<Rightarrow> f y z) Q"
  by (cases x) simp

lemma makes_all:
  fixes m :: "('w sys, 'a) prog"
  assumes "\<And>x. P x \<Longrightarrow> makes (R x) tr m" and "makes (\<lambda>_. True) tr m"
  shows "makes (\<lambda>c. \<forall>x. P x \<longrightarrow> R x c) tr m"
proof (rule hoareI)
  fix t :: "'w sys"
  assume t: "made (\<lambda>c. \<forall>x. P x \<longrightarrow> R x c) tr t"
  have all: "made (\<lambda>c. \<forall>x. P x \<longrightarrow> R x c) tr u \<longleftrightarrow> made (\<lambda>_. True) tr u \<and> (\<forall>x. P x \<longrightarrow> made (R x) tr u)"
    for u :: "'w sys"
    by (auto simp add: made_def list_all_iff)
  have "wp m (\<lambda>_. made (\<lambda>_. True) tr) (\<lambda>_. made (\<lambda>_. True) tr) t"
    using hoareD [OF assms(2)] t all by blast
  moreover have "P x \<Longrightarrow> wp m (\<lambda>_. made (R x) tr) (\<lambda>_. made (R x) tr) t" for x
    using hoareD [OF assms(1)] t all by blast
  ultimately show "wp m (\<lambda>_. made (\<lambda>c. \<forall>x. P x \<longrightarrow> R x c) tr) (\<lambda>_. made (\<lambda>c. \<forall>x. P x \<longrightarrow> R x c) tr) t"
    unfolding all by (auto simp add: wp_def split: option.splits sum.splits)
qed

lemma makes_and:
  assumes "makes R tr m" and "returning m Q"
  shows "hoare (\<lambda>_. made R tr) (made R tr) m (\<lambda>x t. made R tr t \<and> Q x)"
  using hoare_conj [OF assms(1) hoare_pre [OF assms(2)]] by (simp add: simp_thms)

text \<open>A call stays in the trace, and so does a fact that later calls cannot undo.\<close>

abbreviation seen :: "syscall \<times> response \<Rightarrow> 'w sys \<Rightarrow> bool" where
  "seen ev t \<equiv> ev \<in> set (trace t)"

lemma keep_seen:
  fixes m :: "('w sys, 'a) prog"
  assumes "\<And>tr. makes (\<lambda>_. True) tr m"
  shows "hoare (\<lambda>_ _. True) (seen ev) m (\<lambda>_. seen ev)"
proof (rule hoareI)
  fix t :: "'w sys"
  assume t: "seen ev t"
  have "made (\<lambda>_. True) (trace t) t" by (simp add: made_def)
  from hoareD [OF assms this] show "wp m (\<lambda>_. seen ev) (\<lambda>_ _. True) t"
    by (rule wp_mono) (use t in \<open>auto simp add: made_def\<close>)
qed

lemma hoare_sys_seen: "hoare (\<lambda>_ _. True) P (sys os c) (\<lambda>r. seen (c, r))"
  by (simp add: hoare_def wp_simps)

lemma hoare_sys_both: "hoare (\<lambda>_ _. True) (seen ev) (sys os c) (\<lambda>r t. seen ev t \<and> seen (c, r) t)"
  by (simp add: hoare_def wp_simps)

lemma keep_both:
  assumes "\<And>tr. makes (\<lambda>_. True) tr m"
  shows "hoare (\<lambda>_ _. True) (\<lambda>t. seen a t \<and> seen b t) m (\<lambda>_ t. seen a t \<and> seen b t)"
  using hoare_conj [OF hoare_pre [OF keep_seen [OF assms, of a], of "\<lambda>t. seen a t \<and> seen b t"]
      hoare_pre [OF keep_seen [OF assms, of b], of "\<lambda>t. seen a t \<and> seen b t"]] by simp

definition lasting :: "((syscall \<times> response) list \<Rightarrow> bool) \<Rightarrow> bool" where
  "lasting F \<longleftrightarrow> (\<forall>tr tr'. F tr \<longrightarrow> F (tr @ tr'))"

lemma keep_lasting:
  fixes m :: "('w sys, 'a) prog"
  assumes m: "\<And>tr. makes R tr m" and F: "lasting F"
  shows "hoare (\<lambda>_. made R tr) (\<lambda>t. made R tr t \<and> F (trace t)) m (\<lambda>_ t. made R tr t \<and> F (trace t))"
proof (rule hoareI)
  fix u :: "'w sys"
  assume u: "made R tr u \<and> F (trace u)"
  have "made R (trace u) u" by (simp add: made_def)
  from hoareD [OF m this] hoareD [OF m conjunct1 [OF u]]
  have "wp m (\<lambda>_ t. made R (trace u) t \<and> made R tr t) (\<lambda>_ t. made R (trace u) t \<and> made R tr t) u" by (rule wp_conj)
  then show "wp m (\<lambda>_ t. made R tr t \<and> F (trace t)) (\<lambda>_. made R tr) u"
    by (rule wp_mono) (use u F in \<open>auto simp add: made_def lasting_def\<close>)
qed

text \<open>The calls since the trace was \<open>tr0\<close>.\<close>

definition after :: "(syscall \<times> response) list \<Rightarrow> ((syscall \<times> response) list \<Rightarrow> bool) \<Rightarrow> 'w sys \<Rightarrow> bool" where
  "after tr0 F t \<longleftrightarrow> (\<exists>tr. trace t = tr0 @ tr \<and> F tr)"

lemma after_call: "after tr0 F t \<Longrightarrow> (\<And>tr. F tr \<Longrightarrow> G (tr @ [(c, r)])) \<Longrightarrow> after tr0 G (sys_upd w e [(c, r)] t)"
  unfolding after_def by fastforce

section \<open>Calls that rest on earlier answers\<close>

text \<open>
  Every call of the trace is allowed by the calls and answers before it.  A triple \<open>rests\<close> keeps
  the set of the answers a program knows of, which only grows.
\<close>

definition justified :: "((syscall \<times> response) set \<Rightarrow> syscall \<Rightarrow> bool) \<Rightarrow> (syscall \<times> response) list \<Rightarrow> bool" where
  "justified ok tr \<longleftrightarrow> (\<forall>i < length tr. ok (set (take i tr)) (fst (tr ! i)))"

definition knows ::
  "((syscall \<times> response) set \<Rightarrow> syscall \<Rightarrow> bool) \<Rightarrow> (syscall \<times> response) list \<Rightarrow> (syscall \<times> response) set \<Rightarrow>
   'w sys \<Rightarrow> bool" where
  "knows ok tr evs t \<longleftrightarrow> (\<exists>tr'. trace t = tr @ tr' \<and> justified ok tr' \<and> evs \<subseteq> set tr')"

definition rests ::
  "((syscall \<times> response) set \<Rightarrow> syscall \<Rightarrow> bool) \<Rightarrow> (syscall \<times> response) list \<Rightarrow> (syscall \<times> response) set \<Rightarrow>
   ('w sys, 'a) prog \<Rightarrow> ('a \<Rightarrow> (syscall \<times> response) set \<Rightarrow> bool) \<Rightarrow> bool" where
  "rests ok tr evs m P \<longleftrightarrow>
     hoare (\<lambda>_. knows ok tr {}) (knows ok tr evs) m (\<lambda>x t. \<exists>evs'. knows ok tr evs' t \<and> evs \<subseteq> evs' \<and> P x evs')"

named_theorems rests_intros \<open>programs whose calls rest on earlier answers\<close>

lemma justified_snoc: "justified ok (tr @ [(c, r)]) \<longleftrightarrow> justified ok tr \<and> ok (set tr) c"
  by (auto simp add: justified_def nth_append less_Suc_eq)

lemma knows_less: "knows ok tr evs t \<Longrightarrow> evs' \<subseteq> evs \<Longrightarrow> knows ok tr evs' t"
  by (auto simp add: knows_def)

lemma knows_call: "knows ok tr evs t \<Longrightarrow> (\<And>A. evs \<subseteq> A \<Longrightarrow> ok A c) \<Longrightarrow> knows ok tr (insert (c, r) evs) (sys_upd w e [(c, r)] t)"
  unfolding knows_def by (elim exE conjE, rule_tac x = "tr' @ [(c, r)]" in exI) (auto simp add: justified_snoc)

lemma rests_sys [rests_intros]:
  "(\<And>A. evs \<subseteq> A \<Longrightarrow> ok A c) \<Longrightarrow> rests ok tr evs (sys os c) (\<lambda>r E. (c, r) \<in> E)"
  unfolding rests_def
  by (rule hoareI) (simp add: wp_simps, rule exI, rule conjI, rule knows_call, auto)

lemma rests_bnd:
  fixes m :: "('w sys, 'a) prog"
  assumes "rests ok tr evs m P" and "\<And>x E. evs \<subseteq> E \<Longrightarrow> P x E \<Longrightarrow> rests ok tr E (f x) Q"
  shows "rests ok tr evs (bnd m f) Q"
  unfolding rests_def
proof (rule hoare_bnd [OF assms(1) [unfolded rests_def]], rule hoareI, elim exE conjE)
  fix x E and t :: "'w sys"
  assume "knows ok tr E t" "evs \<subseteq> E" "P x E"
  with assms(2) [of E x] have "wp (f x) (\<lambda>x t. \<exists>evs'. knows ok tr evs' t \<and> E \<subseteq> evs' \<and> Q x evs') (\<lambda>_. knows ok tr {}) t"
    by (simp add: rests_def hoare_def)
  then show "wp (f x) (\<lambda>x t. \<exists>evs'. knows ok tr evs' t \<and> evs \<subseteq> evs' \<and> Q x evs') (\<lambda>_. knows ok tr {}) t"
    by (rule wp_mono) (use \<open>evs \<subseteq> E\<close> in blast)+
qed

lemma rests_post: "rests ok tr evs m P \<Longrightarrow> (\<And>x E. evs \<subseteq> E \<Longrightarrow> P x E \<Longrightarrow> Q x E) \<Longrightarrow> rests ok tr evs m Q"
  unfolding rests_def by (erule hoare_post) blast

lemma rests_any: "rests ok tr evs m P \<Longrightarrow> rests ok tr evs m (\<lambda>_ _. True)"
  by (rule rests_post) simp_all

lemma rests_seq:
  "rests ok tr evs m P \<Longrightarrow> (\<And>E. evs \<subseteq> E \<Longrightarrow> P () E \<Longrightarrow> rests ok tr E n Q) \<Longrightarrow> rests ok tr evs (seq m n) Q"
  unfolding seq_def by (erule rests_bnd) simp

lemma rests_ret: "P x evs \<Longrightarrow> rests ok tr evs (ret x) P"
  unfolding rests_def by (rule hoare_ret) blast

lemma rests_plain [rests_intros]:
  "rests ok tr evs (gets f) (\<lambda>_ _. True)"
  "rests ok tr evs (modify (\<lambda>s. s\<lparr>errno := e\<rparr>)) (\<lambda>_ _. True)"
  by (auto simp add: rests_def hoare_def wp_simps knows_def)

lemma rests_halt [rests_intros]: "rests ok tr evs (halt e) P"
  unfolding rests_def by (rule hoare_stop) (rule knows_less, auto)

lemma rests_checked [rests_intros]: "rests ok tr evs (checked m) (\<lambda>v _. m = Some v)"
  by (cases m) (auto simp add: checked_def rests_halt intro: rests_ret)

lemma rests_guarded:
  "(b \<Longrightarrow> rests ok tr evs m P) \<Longrightarrow> rests ok tr evs (guarded b m) (\<lambda>x E. b \<longrightarrow> P x E)"
  by (cases b) (auto simp add: guarded_def intro: rests_ret)

lemma rests_assert [rests_intros]: "rests ok tr evs (assert_c b) (\<lambda>_ _. b)"
  by (cases b) (auto simp add: assert_c_def guarded_def rests_halt intro: rests_ret)

lemma rests_cases [rests_intros]:
  "(b \<Longrightarrow> rests ok tr evs m P) \<Longrightarrow> (\<not> b \<Longrightarrow> rests ok tr evs n P) \<Longrightarrow> rests ok tr evs (if b then m else n) P"
  "(x = None \<Longrightarrow> rests ok tr evs m P) \<Longrightarrow> (\<And>y. x = Some y \<Longrightarrow> rests ok tr evs (f y) P) \<Longrightarrow>
   rests ok tr evs (case x of None \<Rightarrow> m | Some y \<Rightarrow> f y) P"
  "(\<And>y z. v = (y, z) \<Longrightarrow> rests ok tr evs (g y z) P) \<Longrightarrow> rests ok tr evs (case v of (y, z) \<Rightarrow> g y z) P"
  by (auto split: option.split prod.split)

lemma rests_bnd_step:
  assumes "hoare (\<lambda>_. knows ok tr {}) (knows ok tr evs) m (\<lambda>x. knows ok tr (E x))"
    and "\<And>x. rests ok tr (E x) (f x) Q" and "\<And>x. evs \<subseteq> E x"
  shows "rests ok tr evs (bnd m f) Q"
  unfolding rests_def
  by (rule hoare_bnd [OF assms(1) hoare_post [OF assms(2) [unfolded rests_def]]]) (use assms(3) in blast)

lemma rests_sys_bnd [rests_intros]:
  assumes "\<And>A. evs \<subseteq> A \<Longrightarrow> ok A c" and "\<And>r. rests ok tr (insert (c, r) evs) (f r) Q"
  shows "rests ok tr evs (bnd (sys os c) f) Q"
  by (rule rests_bnd_step [OF _ assms(2)]) (auto simp add: hoare_def wp_simps knows_call assms(1))

text \<open>A call whose errno is looked at.\<close>

lemma rests_sys_errno_bnd:
  fixes f :: "response \<Rightarrow> int \<Rightarrow> ('w sys, 'a) prog"
  assumes "\<And>A. evs \<subseteq> A \<Longrightarrow> ok A c" and "\<And>r. rests ok tr (insert (c, r) evs) (f r (re r)) Q"
  shows "rests ok tr evs (bnd (sys os c) (\<lambda>r. bnd (gets errno) (f r))) Q"
  unfolding rests_def
proof (rule hoareI)
  fix t :: "'w sys"
  assume t: "knows ok tr evs t"
  let ?r = "sys_res os c t" and ?u = "sys_upd (snd (os c (world t))) (re (sys_res os c t)) [(c, sys_res os c t)] t"
  have "knows ok tr (insert (c, ?r) evs) ?u" by (rule knows_call [OF t assms(1)])
  from hoareD [OF assms(2) [of ?r, unfolded rests_def] this]
  have "wp (f ?r (re ?r)) (\<lambda>x t. \<exists>evs'. knows ok tr evs' t \<and> evs \<subseteq> evs' \<and> Q x evs') (\<lambda>_. knows ok tr {}) ?u"
    by (rule wp_mono) blast+
  then show "wp (bnd (sys os c) (\<lambda>r. bnd (gets errno) (f r)))
     (\<lambda>x t. \<exists>evs'. knows ok tr evs' t \<and> evs \<subseteq> evs' \<and> Q x evs') (\<lambda>_. knows ok tr {}) t"
    by (simp add: wp_simps)
qed

lemma rests_plain_bnd [rests_intros]:
  "(\<And>x. rests ok tr evs (f x) Q) \<Longrightarrow> rests ok tr evs (bnd (gets g) f) Q"
  "rests ok tr evs n Q \<Longrightarrow> rests ok tr evs (seq (modify (\<lambda>s. s\<lparr>errno := e\<rparr>)) n) Q"
  by (auto simp add: rests_def hoare_def wp_simps knows_def)

lemma rests_checked_bnd [rests_intros]:
  "(\<And>v. m = Some v \<Longrightarrow> rests ok tr evs (f v) Q) \<Longrightarrow> rests ok tr evs (bnd (checked m) f) Q"
  by (cases m) (simp_all add: checked_def rests_def hoare_def wp_simps knows_less [OF _ empty_subsetI])

lemma knows_say: "knows ok tr evs t \<Longrightarrow> (\<And>A. evs \<subseteq> A \<Longrightarrow> ok A c) \<Longrightarrow> knows ok tr evs (sys_upd w e [(c, r)] t)"
  by (rule knows_less [OF knows_call]) auto

lemma rests_say_seq:
  assumes "\<And>A. evs \<subseteq> A \<Longrightarrow> ok A c" and "rests ok tr evs n Q"
  shows "rests ok tr evs (seq (say os c) n) Q"
  using assms(2) by (simp add: rests_def hoare_def wp_simps knows_say assms(1))

lemma rests_errx [rests_intros]: "(\<And>A. ok A (Stderr w)) \<Longrightarrow> rests ok tr evs (errx os c w) P"
  unfolding errx_def by (rule rests_say_seq) (simp_all add: rests_halt)

lemma rests_warnx_seq [rests_intros]:
  "(\<And>A. ok A (Stderr w)) \<Longrightarrow> rests ok tr evs n Q \<Longrightarrow> rests ok tr evs (seq (warnx os w) n) Q"
  unfolding warnx_def by (rule rests_say_seq)

lemma rests_assert_seq [rests_intros]: "(b \<Longrightarrow> rests ok tr evs n Q) \<Longrightarrow> rests ok tr evs (seq (assert_c b) n) Q"
  by (cases b) (simp_all add: assert_c_def guarded_def rests_def hoare_def wp_simps knows_less [OF _ empty_subsetI])

text \<open>An error exit under a condition.\<close>

lemma rests_guard_seq [rests_intros]:
  assumes "\<And>A. ok A (Stderr w)" and "\<not> b \<Longrightarrow> rests ok tr evs n Q"
  shows "rests ok tr evs (seq (guarded b (errx os c w)) n) Q"
proof (cases b)
  case True
  have "rests ok tr evs (errx os c w) (\<lambda>_ _. False)" using assms(1) by (rule rests_errx)
  with True show ?thesis by (auto simp add: guarded_def intro: rests_seq)
qed (simp add: guarded_def assms(2))

lemma rests_guard [rests_intros]:
  "(\<And>A. ok A (Stderr w)) \<Longrightarrow> (\<not> b \<Longrightarrow> P () evs) \<Longrightarrow> rests ok tr evs (guarded b (errx os c w)) P"
  by (cases b) (simp_all add: guarded_def rests_errx rests_ret)

lemma rests_loop:
  fixes body :: "'x \<Rightarrow> ('w sys, 'x + 'a) prog"
  assumes init: "I x evs" and step: "\<And>x E. evs \<subseteq> E \<Longrightarrow> I x E \<Longrightarrow>
      rests ok tr E (body x) (\<lambda>r E'. case r of Inl y \<Rightarrow> I y E' | Inr a \<Rightarrow> P a E')"
  shows "rests ok tr evs (loop body x) P"
  unfolding rests_def
proof (rule hoare_pre)
  let ?I = "\<lambda>x (t :: 'w sys). \<exists>E. knows ok tr E t \<and> evs \<subseteq> E \<and> I x E"
  show "hoare (\<lambda>_. knows ok tr {}) (?I x) (loop body x) (\<lambda>a t. \<exists>E. knows ok tr E t \<and> evs \<subseteq> E \<and> P a E)"
  proof (rule hoare_loop [where I = ?I], rule hoareI, elim exE conjE)
    fix x E and t :: "'w sys"
    assume "knows ok tr E t" "evs \<subseteq> E" "I x E"
    with step [of E x] have "wp (body x) (\<lambda>r t. \<exists>E'. knows ok tr E' t \<and> E \<subseteq> E' \<and>
        (case r of Inl y \<Rightarrow> I y E' | Inr a \<Rightarrow> P a E')) (\<lambda>_. knows ok tr {}) t"
      by (simp add: rests_def hoare_def)
    then show "wp (body x) (\<lambda>r t. case r of Inl y \<Rightarrow> ?I y t
        | Inr a \<Rightarrow> \<exists>E. knows ok tr E t \<and> evs \<subseteq> E \<and> P a E) (\<lambda>_. knows ok tr {}) t"
    proof (rule wp_mono)
      fix r and u :: "'w sys"
      assume "\<exists>E'. knows ok tr E' u \<and> E \<subseteq> E' \<and> (case r of Inl y \<Rightarrow> I y E' | Inr a \<Rightarrow> P a E')"
      with \<open>evs \<subseteq> E\<close> show "case r of Inl y \<Rightarrow> ?I y u | Inr a \<Rightarrow> \<exists>E. knows ok tr E u \<and> evs \<subseteq> E \<and> P a E"
        by (cases r) (simp_all, blast+)
    qed simp
  qed
  show "knows ok tr evs t \<Longrightarrow> ?I x t" for t using init by blast
qed

lemma rests_start:
  assumes "rests ok (trace s) {} m P" and "m s = Some (r, t)"
  shows "\<exists>tr. trace t = trace s @ tr \<and> justified ok tr \<and> (case r of Inl e \<Rightarrow> True | Inr x \<Rightarrow> \<exists>E \<subseteq> set tr. P x E)"
proof -
  have "knows ok (trace s) {} s" by (simp add: knows_def justified_def)
  from hoare_outcome [OF assms(1) [unfolded rests_def] this assms(2)] show ?thesis
    by (cases r) (auto simp add: knows_def)
qed

section \<open>Programs that end\<close>

definition ends :: "('s, 'a) prog \<Rightarrow> bool" where
  "ends m \<longleftrightarrow> (\<forall>s. m s \<noteq> None)"

named_theorems ends_intros \<open>programs that end\<close>

lemma ends_basic [ends_intros]:
  "ends (ret x)" "ends (halt e)" "ends (gets f)" "ends (modify g)" "ends (sys os c)" "ends (checked v)" "ends (assert_c b)"
  by (simp_all add: ends_def ret_def halt_def gets_def modify_def sys_def Let_def checked_def assert_c_def guarded_def
      split: option.split)

lemma ends_bnd [ends_intros]: "ends m \<Longrightarrow> (\<And>x. ends (f x)) \<Longrightarrow> ends (bnd m f)"
  by (auto simp add: ends_def bnd_def split: option.split sum.split bind_splits)

lemma ends_seq [ends_intros]: "ends m \<Longrightarrow> ends n \<Longrightarrow> ends (seq m n)"
  unfolding seq_def by (rule ends_bnd)

lemma ends_cases [ends_intros]:
  "(b \<Longrightarrow> ends m) \<Longrightarrow> (\<not> b \<Longrightarrow> ends n) \<Longrightarrow> ends (if b then m else n)"
  "ends m \<Longrightarrow> (\<And>y. ends (f y)) \<Longrightarrow> ends (case x of None \<Rightarrow> m | Some y \<Rightarrow> f y)"
  "(\<And>y. ends (p y)) \<Longrightarrow> (\<And>y. ends (q y)) \<Longrightarrow> ends (case u of Inl y \<Rightarrow> p y | Inr y \<Rightarrow> q y)"
  "(\<And>y z. ends (r y z)) \<Longrightarrow> ends (case v of (y, z) \<Rightarrow> r y z)"
  by (auto split: option.split sum.split prod.split)

lemma ends_guarded [ends_intros]: "ends m \<Longrightarrow> ends (guarded b m)"
  unfolding guarded_def by (intro ends_intros)

lemma ends_say [ends_intros]: "ends (say os c)"
  unfolding say_def by (intro ends_intros)

lemma ends_err [ends_intros]: "ends (warnx os m)" "ends (errx os c m)" "ends (malloc os n)"
  unfolding warnx_def errx_def malloc_def by (intro ends_intros)+

lemma ends_runs: "ends m \<Longrightarrow> \<exists>r t. m s = Some (r, t)"
  by (auto simp add: ends_def)

end
