(* ===== verification/File_Io.thy ===== *)
theory File_Io
  imports Syscalls Crc32 "HOL-Library.Sublist"
begin

text \<open>
  Complete reads and writes, \<open>src/qrexec-lib/ioall.c\<close>, and the copy loop shared by packer and
  unpacker, \<open>src/qrexec-lib/copy-file.c\<close>.  A buffer argument with its size is the list of its
  bytes; \<open>read_all\<close> returns the filled buffer on success.  The theorems hold for every
  behaviour of the environment: short reads and writes, errors, interruptions.
\<close>

unbundle bit_operations_syntax

section \<open>ioall.c\<close>

definition perror_wrapper :: "'w os \<Rightarrow> string \<Rightarrow> (('w, 'm) sys_scheme, unit) prog" where
  "perror_wrapper os msg =
     bnd (gets errno) (\<lambda>prev.
     seq (say os (Stderr msg))
         (modify (\<lambda>s. s\<lparr>errno := prev\<rparr>)))"

definition set_nonblock :: "'w os \<Rightarrow> fd \<Rightarrow> (('w, 'm) sys_scheme, unit) prog" where
  "set_nonblock os fd =
     bnd (sys os (Fcntl_getfl fd)) (\<lambda>r.
       let fl = word_of_int (rv r) :: u32 in
       if fl AND O_NONBLOCK \<noteq> 0 then ret ()
       else bnd (sys os (Fcntl_setfl fd (fl OR O_NONBLOCK))) (\<lambda>_. ret ()))"

definition set_block :: "'w os \<Rightarrow> fd \<Rightarrow> (('w, 'm) sys_scheme, unit) prog" where
  "set_block os fd =
     bnd (sys os (Fcntl_getfl fd)) (\<lambda>r.
       let fl = word_of_int (rv r) :: u32 in
       if \<not> fl AND O_NONBLOCK \<noteq> 0 then ret ()
       else bnd (sys os (Fcntl_setfl fd (fl AND NOT O_NONBLOCK))) (\<lambda>_. ret ()))"

definition write_all :: "'w os \<Rightarrow> fd \<Rightarrow> bytes \<Rightarrow> (('w, 'm) sys_scheme, bool) prog" where
  "write_all os fd buf =
     loop (\<lambda>written.
       if written < length buf then
         bnd (sys os (Write fd (drop written buf))) (\<lambda>r.
         bnd (gets errno) (\<lambda>e.
           if rv r = -1 \<and> e = EINTR then ret (Inl written)
           else if rv r \<le> 0 then ret (Inr False)
           else ret (Inl (written + nat (rv r)))))
       else ret (Inr True)) 0"

definition read_all :: "'w os \<Rightarrow> fd \<Rightarrow> nat \<Rightarrow> (('w, 'm) sys_scheme, bytes option) prog" where
  "read_all os fd n =
     loop (\<lambda>got.
       if length got < n then
         bnd (sys os (Read fd (n - length got))) (\<lambda>r.
         bnd (gets errno) (\<lambda>e.
           if rv r = -1 \<and> e = EINTR then ret (Inl got)
           else if rv r = 0 then
             seq (modify (\<lambda>s. s\<lparr>errno := 0\<rparr>))
             (seq (say os (Stderr ''EOF''))
             (ret (Inr None)))
           else if rv r < 0 then
             seq (guarded (e \<noteq> EAGAIN) (perror_wrapper os ''read''))
             (ret (Inr None))
           else
             seq (guarded (length got = 0) (set_block os fd))
             (ret (Inl (got @ rdata r)))))
       else ret (Inr (Some got))) []"

definition copy_fd_all :: "'w os \<Rightarrow> fd \<Rightarrow> fd \<Rightarrow> (('w, 'm) sys_scheme, bool) prog" where
  "copy_fd_all os fdout fdin =
     loop (\<lambda>_ :: unit.
       bnd (sys os (Read fdin 4096)) (\<lambda>r.
       bnd (gets errno) (\<lambda>e.
         if rv r = -1 \<and> e = EINTR then ret (Inl ())
         else if rv r = 0 then ret (Inr True)
         else if rv r < 0 then seq (perror_wrapper os ''read'') (ret (Inr False))
         else
           bnd (write_all os fdout (rdata r)) (\<lambda>ok.
             if \<not> ok then seq (perror_wrapper os ''write'') (ret (Inr False))
             else ret (Inl ()))))) ()"

section \<open>copy-file.c\<close>

datatype copy_status = COPY_FILE_OK | COPY_FILE_READ_EOF | COPY_FILE_READ_ERROR | COPY_FILE_WRITE_ERROR

text \<open>
  \<open>notify\<close> says whether a progress callback is registered; \<open>crc\<close> is the value behind the
  \<open>crc32\<close> pointer, \<open>None\<close> for a null pointer, and is returned as the loop leaves it.
\<close>

definition copy_file ::
  "'w os \<Rightarrow> bool \<Rightarrow> fd \<Rightarrow> fd \<Rightarrow> int \<Rightarrow> u64 option \<Rightarrow> (('w, 'm) sys_scheme, copy_status \<times> u64 option) prog" where
  "copy_file os notify outfd infd len crc =
     loop (\<lambda>(written, crc).
       if written < len then
         let count = (if len - written > 4096 then 4096 else len - written) in
         bnd (sys os (Read infd (nat count))) (\<lambda>r.
           if rv r = 0 then ret (Inr (COPY_FILE_READ_EOF, crc))
           else if rv r < 0 then ret (Inr (COPY_FILE_READ_ERROR, crc))
           else
             let crc = map_option (\<lambda>c. crc32_buf c (rdata r)) crc in
             bnd (write_all os outfd (rdata r)) (\<lambda>ok.
               if \<not> ok then ret (Inr (COPY_FILE_WRITE_ERROR, crc))
               else
                 seq (guarded notify (say os (Notify_progress (rv r) 0)))
                 (ret (Inl (written + rv r, crc)))))
       else ret (Inr (COPY_FILE_OK, crc))) (0, crc)"

fun copy_file_status_to_str :: "copy_status option \<Rightarrow> string" where
  "copy_file_status_to_str (Some COPY_FILE_OK) = ''OK''"
| "copy_file_status_to_str (Some COPY_FILE_READ_EOF) = ''Unexpected end of data while reading''"
| "copy_file_status_to_str (Some COPY_FILE_READ_ERROR) = ''Error reading''"
| "copy_file_status_to_str (Some COPY_FILE_WRITE_ERROR) = ''Error writing''"
| "copy_file_status_to_str None = ''????????''"

section \<open>What the routines do to the trace\<close>

definition reaches :: "('w, 'm) sys_scheme \<Rightarrow> (syscall \<times> response) list \<Rightarrow> ('w, 'm) sys_scheme \<Rightarrow> bool" where
  "reaches s tr t \<longleftrightarrow> t = sys_upd (world t) (errno t) tr s"

lemma reaches_refl [intro]: "reaches s [] s"
  by (simp add: reaches_def sys_upd_def)

lemma reaches_step [intro]: "reaches s tr t \<Longrightarrow> reaches s (tr @ tr') (sys_upd w e tr' t)"
  unfolding reaches_def by (metis sys_upd_simps(1,2) sys_upd_upd)

lemma reaches_trans: "reaches s tr t \<Longrightarrow> reaches t tr' u \<Longrightarrow> reaches s (tr @ tr') u"
  unfolding reaches_def by (metis sys_upd_upd)

lemma reaches_errno: "reaches s tr t \<Longrightarrow> reaches s tr (t\<lparr>errno := e\<rparr>)"
  using reaches_step [of s tr t "[]" "world t" e] by (simp add: errno_upd_sys_upd)

lemma reaches_trace: "reaches s tr t \<Longrightarrow> trace t = trace s @ tr"
  by (metis reaches_def sys_upd_simps(3))

fun is_write :: "fd \<Rightarrow> syscall \<Rightarrow> bool" where
  "is_write fd (Write f b) \<longleftrightarrow> f = fd"
| "is_write fd _ \<longleftrightarrow> False"

text \<open>The calls of \<open>read_all\<close>: reads of its descriptor, its \<open>fcntl\<close>s, and messages.\<close>

fun is_read :: "fd \<Rightarrow> syscall \<Rightarrow> bool" where
  "is_read fd (Read f n) \<longleftrightarrow> f = fd"
| "is_read fd (Fcntl_getfl f) \<longleftrightarrow> f = fd"
| "is_read fd (Fcntl_setfl f fl) \<longleftrightarrow> f = fd"
| "is_read fd (Stderr m) \<longleftrightarrow> True"
| "is_read fd _ \<longleftrightarrow> False"

definition write_inv :: "fd \<Rightarrow> bytes \<Rightarrow> ('w, 'm) sys_scheme \<Rightarrow> nat \<Rightarrow> ('w, 'm) sys_scheme \<Rightarrow> bool" where
  "write_inv fd buf s k t \<longleftrightarrow>
     (\<exists>tr. reaches s tr t \<and> list_all (is_write fd) (calls tr) \<and> written_to fd tr = take k buf)"

lemma write_inv_step:
  assumes "write_inv fd buf s k t"
  shows "write_inv fd buf s (k + nat (rv r)) (sys_upd w e [(Write fd (drop k buf), r)] t)"
proof -
  from assms obtain tr where "reaches s tr t" "list_all (is_write fd) (calls tr)"
    "written_to fd tr = take k buf" by (auto simp add: write_inv_def)
  then show ?thesis unfolding write_inv_def
    by (intro exI [of _ "tr @ [(Write fd (drop k buf), r)]"]) (auto simp add: take_add)
qed

lemma write_all_wp:
  "wp (write_all os fd buf)
     (\<lambda>ok t. \<exists>k. write_inv fd buf s k t \<and> (if ok then k = length buf else k < length buf))
     (\<lambda>_ _. False) s"
  unfolding write_all_def
proof (rule loop_wp [where I = "\<lambda>k t. write_inv fd buf s k t \<and> k \<le> length buf"], goal_cases)
  case (1 k t)
  let ?r = "sys_res os (Write fd (drop k buf)) t"
  note step = write_inv_step [of fd buf s k t ?r]
  consider "rv ?r = -1" | j where "j \<le> length (drop k buf)" "rv ?r = int j"
    using sys_res_Write [of os fd "drop k buf" t] by blast
  then show ?case
    using 1 step by cases (auto simp add: wp_simps intro: exI [of _ k])
next
  case 2
  have "write_inv fd buf s 0 s" unfolding write_inv_def by (intro exI [of _ "[]"]) auto
  then show ?case by simp
qed

lemma write_all_terminates:
  assumes "eintr_bounded os \<mu>"
  shows "write_all os fd buf s \<noteq> None"
proof (rule twp_terminates)
  let ?R = "measures [\<lambda>(k, t). length buf - k, \<lambda>(k, t). \<mu> (world t)]"
  show "twp (write_all os fd buf) (\<lambda>_ _. True) (\<lambda>_ _. True) s"
    unfolding write_all_def
  proof (rule loop_twp [where R = ?R and I = "\<lambda>_ _. True"], goal_cases)
    case (2 k t)
    let ?r = "sys_res os (Write fd (drop k buf)) t"
    show ?case
      using eintr_boundedD [OF assms, of "Write fd (drop k buf)" t] by (auto simp add: wp_simps)
  qed simp_all
qed

definition read_inv :: "fd \<Rightarrow> ('w, 'm) sys_scheme \<Rightarrow> bytes \<Rightarrow> ('w, 'm) sys_scheme \<Rightarrow> bool" where
  "read_inv fd s got t \<longleftrightarrow>
     (\<exists>tr. reaches s tr t \<and> list_all (is_read fd) (calls tr) \<and> read_from fd tr = got)"

lemma read_inv_step:
  assumes "read_inv fd s got t"
  shows "read_inv fd s (got @ rdata r) (sys_upd w e [(Read fd n, r)] t)"
proof -
  from assms obtain tr where "reaches s tr t" "list_all (is_read fd) (calls tr)"
    "read_from fd tr = got" by (auto simp add: read_inv_def)
  then show ?thesis unfolding read_inv_def
    by (intro exI [of _ "tr @ [(Read fd n, r)]"]) auto
qed

lemma read_inv_other:
  assumes "read_inv fd s got t" and "is_read fd c" and "read_by fd (c, r) = []"
  shows "read_inv fd s got (sys_upd w e [(c, r)] t)"
proof -
  from assms(1) obtain tr where "reaches s tr t" "list_all (is_read fd) (calls tr)"
    "read_from fd tr = got" by (auto simp add: read_inv_def)
  then show ?thesis unfolding read_inv_def
    by (intro exI [of _ "tr @ [(c, r)]"]) (use assms(2,3) in auto)
qed

lemma read_inv_errno: "read_inv fd s got t \<Longrightarrow> read_inv fd s got (t\<lparr>errno := e\<rparr>)"
  by (auto simp add: read_inv_def intro: reaches_errno)

lemma read_inv_refl: "read_inv fd s [] s"
  unfolding read_inv_def by (intro exI [of _ "[]"]) auto

lemma set_block_wp:
  assumes "read_inv fd s got t"
  shows "wp (set_block os fd) (\<lambda>_. read_inv fd s got) (\<lambda>_ _. False) t"
  unfolding set_block_def by (simp add: wp_simps Let_def read_inv_other assms del: sys_upd_upd)

lemma guarded_set_block_wp:
  "read_inv fd s got t \<Longrightarrow> wp (guarded b (set_block os fd)) (\<lambda>_. read_inv fd s got) (\<lambda>_ _. False) t"
  by (simp add: wp_simps set_block_wp)

lemma perror_wrapper_wp [wp_simps]:
  "wp (perror_wrapper os m) Q E = (\<lambda>s.
     Q () (sys_upd (snd (os (Stderr m) (world s))) (errno s) [(Stderr m, sys_res os (Stderr m) s)] s))"
  "twp (perror_wrapper os m) Q E = (\<lambda>s.
     Q () (sys_upd (snd (os (Stderr m) (world s))) (errno s) [(Stderr m, sys_res os (Stderr m) s)] s))"
  by (simp_all add: perror_wrapper_def wp_simps)

lemma read_all_wp:
  "wp (read_all os fd n)
     (\<lambda>d t. case d of
        Some got \<Rightarrow> length got = n \<and> read_inv fd s got t
      | None \<Rightarrow> \<exists>got. length got < n \<and> read_inv fd s got t)
     (\<lambda>_ _. False) s"
  unfolding read_all_def
proof (rule loop_wp [where I = "\<lambda>got t. read_inv fd s got t \<and> length got \<le> n"], goal_cases)
  case (1 got t)
  let ?c = "Read fd (n - length got)"
  let ?r = "sys_res os ?c t"
  let ?t = "sys_upd (snd (os ?c (world t))) (re ?r) [(?c, ?r)] t"
  from 1 have inv: "read_inv fd s (got @ rdata ?r) ?t" by (intro read_inv_step) simp
  consider (fail) "rv ?r = -1" "rdata ?r = []"
    | (data) "length (rdata ?r) \<le> n - length got" "rv ?r = int (length (rdata ?r))"
    using sys_res_Read [of os fd "n - length got" t] by blast
  then show ?case
  proof cases
    case fail
    with 1 inv show ?thesis
      by (auto simp add: wp_simps read_inv_other intro!: exI [of _ got] simp del: sys_upd_upd)
  next
    case data
    show ?thesis
    proof (cases "rdata ?r = []")
      case True
      with 1 inv data show ?thesis
        by (auto simp add: wp_simps read_inv_other read_inv_errno intro!: exI [of _ got] simp del: sys_upd_upd)
    next
      case False
      have "wp (guarded (length got = 0) (set_block os fd))
          (\<lambda>_. read_inv fd s (got @ rdata ?r)) (\<lambda>_ _. False) ?t"
        by (rule guarded_set_block_wp [OF inv])
      with 1 data False show ?thesis
        by (auto simp add: wp_simps elim: wp_mono)
    qed
  qed
qed (simp_all add: read_inv_refl)

fun is_copy :: "fd \<Rightarrow> fd \<Rightarrow> syscall \<Rightarrow> bool" where
  "is_copy outfd infd (Read f n) \<longleftrightarrow> f = infd"
| "is_copy outfd infd (Write f b) \<longleftrightarrow> f = outfd"
| "is_copy outfd infd (Stderr m) \<longleftrightarrow> True"
| "is_copy outfd infd (Notify_progress n e) \<longleftrightarrow> True"
| "is_copy outfd infd _ \<longleftrightarrow> False"

lemma is_write_is_copy: "is_write fd c \<Longrightarrow> is_copy fd fd' c"
  by (cases c) auto

lemma is_write_no_read: "is_write fd c \<Longrightarrow> no_read fd' c"
  by (cases c) (auto simp add: no_read_def)

text \<open>State of a copy: what was read, and how much of it was written.\<close>

definition copy_inv :: "fd \<Rightarrow> fd \<Rightarrow> ('w, 'm) sys_scheme \<Rightarrow> bytes \<Rightarrow> bytes \<Rightarrow> ('w, 'm) sys_scheme \<Rightarrow> bool" where
  "copy_inv outfd infd s d d' t \<longleftrightarrow>
     (\<exists>tr. reaches s tr t \<and> list_all (is_copy outfd infd) (calls tr) \<and>
        read_from infd tr = d \<and> written_to outfd tr = d')"

lemma copy_inv_refl: "copy_inv outfd infd s [] [] s"
  unfolding copy_inv_def by (intro exI [of _ "[]"]) auto

lemma copy_inv_read:
  assumes "copy_inv outfd infd s d d' t"
  shows "copy_inv outfd infd s (d @ rdata r) d' (sys_upd w e [(Read infd n, r)] t)"
proof -
  from assms obtain tr where "reaches s tr t" "list_all (is_copy outfd infd) (calls tr)"
    "read_from infd tr = d" "written_to outfd tr = d'" by (auto simp add: copy_inv_def)
  then show ?thesis unfolding copy_inv_def
    by (intro exI [of _ "tr @ [(Read infd n, r)]"]) auto
qed

lemma copy_inv_message:
  assumes "copy_inv outfd infd s d d' t" and "c = Stderr m \<or> c = Notify_progress i j"
  shows "copy_inv outfd infd s d d' (sys_upd w e [(c, r)] t)"
proof -
  from assms obtain tr where "reaches s tr t" "list_all (is_copy outfd infd) (calls tr)"
    "read_from infd tr = d" "written_to outfd tr = d'" by (auto simp add: copy_inv_def)
  then show ?thesis unfolding copy_inv_def
    by (intro exI [of _ "tr @ [(c, r)]"]) (use assms(2) in auto)
qed

lemma copy_inv_write:
  assumes "copy_inv outfd infd s d d' t" and "write_inv outfd buf t k u"
  shows "copy_inv outfd infd s d (d' @ take k buf) u"
proof -
  from assms(1) obtain tr where tr: "reaches s tr t" "list_all (is_copy outfd infd) (calls tr)"
    "read_from infd tr = d" "written_to outfd tr = d'" by (auto simp add: copy_inv_def)
  from assms(2) obtain tr' where tr': "reaches t tr' u" "list_all (is_write outfd) (calls tr')"
    "written_to outfd tr' = take k buf" by (auto simp add: write_inv_def)
  have "list_all (no_read infd) (calls tr')" "list_all (is_copy outfd infd) (calls tr')"
    using tr'(2) is_write_no_read is_write_is_copy by (auto simp add: list_all_iff)
  with tr tr' reaches_trans [OF tr(1) tr'(1)] show ?thesis
    unfolding copy_inv_def by (intro exI [of _ "tr @ tr'"]) (simp add: no_read_from)
qed

lemma copy_write_wp:
  assumes "copy_inv outfd infd s (d @ x) d t"
  shows "wp (write_all os outfd x)
     (\<lambda>ok u. if ok then copy_inv outfd infd s (d @ x) (d @ x) u
            else \<exists>k<length x. copy_inv outfd infd s (d @ x) (d @ take k x) u)
     (\<lambda>_ _. False) t"
  by (rule wp_mono [OF write_all_wp]) (auto dest: copy_inv_write [OF assms])

lemma copy_fd_all_wp:
  "wp (copy_fd_all os outfd infd)
     (\<lambda>ok t. \<exists>d d'. copy_inv outfd infd s d d' t \<and> prefix d' d \<and> (ok \<longrightarrow> d' = d))
     (\<lambda>_ _. False) s"
  unfolding copy_fd_all_def
proof (rule loop_wp [where I = "\<lambda>_ t. \<exists>d. copy_inv outfd infd s d d t"], goal_cases)
  case (1 x t)
  then obtain d where d: "copy_inv outfd infd s d d t" by blast
  let ?c = "Read infd 4096"
  let ?r = "sys_res os ?c t"
  let ?t = "sys_upd (snd (os ?c (world t))) (re ?r) [(?c, ?r)] t"
  have inv: "copy_inv outfd infd s (d @ rdata ?r) d ?t" by (rule copy_inv_read [OF d])
  have msg: "copy_inv outfd infd s a b u \<Longrightarrow> copy_inv outfd infd s a b (sys_upd w e [(Stderr m, q)] u)"
    for a b u w e m q by (rule copy_inv_message) auto
  consider (fail) "rv ?r = -1" "rdata ?r = []" | (data) "rv ?r = int (length (rdata ?r))"
    using sys_res_Read [of os infd 4096 t] by blast
  then show ?case
  proof cases
    case fail
    with inv show ?thesis by (auto simp add: wp_simps simp del: sys_upd_upd dest: msg)
  next
    case data
    show ?thesis
    proof (cases "rdata ?r = []")
      case True
      with data inv show ?thesis by (auto simp add: wp_simps)
    next
      case False
      with data have "\<not> rv ?r \<le> 0" "rv ?r \<noteq> - 1" by simp_all
      moreover have "wp (write_all os outfd (rdata ?r)) (\<lambda>ok u.
          wp (if \<not> ok then seq (perror_wrapper os ''write'') (ret (Inr False)) else ret (Inl ()))
            (\<lambda>r t. case r of Inl y \<Rightarrow> \<exists>d. copy_inv outfd infd s d d t
               | Inr ok \<Rightarrow> \<exists>d d'. copy_inv outfd infd s d d' t \<and> prefix d' d \<and> (ok \<longrightarrow> d' = d))
            (\<lambda>_ _. False) u) (\<lambda>_ _. False) ?t"
      proof (rule wp_mono [OF copy_write_wp [OF inv]], goal_cases)
        case (1 ok u)
        then show ?case
        proof (cases ok)
          case False
          with 1 obtain k where "copy_inv outfd infd s (d @ rdata ?r) (d @ take k (rdata ?r)) u" by auto
          from msg [OF this] have "\<exists>d d'. copy_inv outfd infd s d d' (sys_upd w e [(Stderr m, q)] u) \<and> prefix d' d"
            for w e m q by (meson same_prefix_prefix take_is_prefix)
          then show ?thesis unfolding wp_simps using False by simp
        qed (auto simp add: wp_simps)
      qed simp
      ultimately show ?thesis by (simp add: wp_simps)
    qed
  qed
next
  case 2
  then show ?case using copy_inv_refl by blast
qed

text \<open>What the four results of \<open>copy_file\<close> promise, \<open>d\<close> read and \<open>d'\<close> written.\<close>

definition copy_result :: "int \<Rightarrow> copy_status \<Rightarrow> bytes \<Rightarrow> bytes \<Rightarrow> bool" where
  "copy_result len st d d' =
     (case st of
        COPY_FILE_OK \<Rightarrow> length d = nat len \<and> d' = d
      | COPY_FILE_READ_EOF \<Rightarrow> int (length d) < len \<and> d' = d
      | COPY_FILE_READ_ERROR \<Rightarrow> int (length d) < len \<and> d' = d
      | COPY_FILE_WRITE_ERROR \<Rightarrow> int (length d) \<le> len \<and> strict_prefix d' d)"

definition copy_post ::
  "fd \<Rightarrow> fd \<Rightarrow> int \<Rightarrow> u64 option \<Rightarrow> ('w, 'm) sys_scheme \<Rightarrow> copy_status \<times> u64 option \<Rightarrow> ('w, 'm) sys_scheme \<Rightarrow> bool" where
  "copy_post outfd infd len crc s = (\<lambda>(st, crc') t.
     \<exists>d d'. copy_inv outfd infd s d d' t \<and> copy_result len st d d' \<and>
       crc' = map_option (\<lambda>c. crc32_buf c d) crc)"

definition copy_file_inv ::
  "fd \<Rightarrow> fd \<Rightarrow> int \<Rightarrow> u64 option \<Rightarrow> ('w, 'm) sys_scheme \<Rightarrow> int \<times> u64 option \<Rightarrow> ('w, 'm) sys_scheme \<Rightarrow> bool" where
  "copy_file_inv outfd infd len crc s x t \<longleftrightarrow>
     (\<exists>d. copy_inv outfd infd s d d t \<and> int (length d) = fst x \<and> (d = [] \<or> fst x \<le> len) \<and>
        snd x = map_option (\<lambda>c. crc32_buf c d) crc)"

lemma copy_file_wp:
  "wp (copy_file os notify outfd infd len crc) (copy_post outfd infd len crc s) (\<lambda>_ _. False) s"
  unfolding copy_file_def
proof (rule loop_wp [where I = "copy_file_inv outfd infd len crc s"], goal_cases)
  case (1 x t)
  then obtain written d where x: "x = (written, map_option (\<lambda>c. crc32_buf c d) crc)"
    and d: "copy_inv outfd infd s d d t" "int (length d) = written" "d = [] \<or> written \<le> len"
    by (cases x) (auto simp add: copy_file_inv_def)
  define n where "n = nat (if len - written > 4096 then 4096 else len - written)"
  let ?c = "Read infd n"
  let ?r = "sys_res os ?c t"
  let ?t = "sys_upd (snd (os ?c (world t))) (re ?r) [(?c, ?r)] t"
  let ?crc = "map_option (\<lambda>c. crc32_buf c (d @ rdata ?r)) crc"
  have inv: "copy_inv outfd infd s (d @ rdata ?r) d ?t" by (rule copy_inv_read [OF d(1)])
  have crc: "map_option (\<lambda>c. crc32_buf c (rdata ?r)) (map_option (\<lambda>c. crc32_buf c d) crc) = ?crc"
    by (simp add: option.map_comp comp_def crc.update_append)
  show ?case
  proof (cases "written < len")
    case False
    with d x show ?thesis by (auto simp add: wp_simps copy_post_def copy_result_def)
  next
    case True
    consider (none) "rv ?r \<le> 0" "rdata ?r = []"
      | (data) "length (rdata ?r) \<le> n" "rv ?r = int (length (rdata ?r))" "0 < rv ?r"
      using sys_res_Read [of os infd n t] by fastforce
    then show ?thesis
    proof cases
      case none
      with True x d inv show ?thesis
        by (auto simp add: wp_simps copy_post_def copy_result_def Let_def simp flip: n_def)
    next
      case data
      have n: "int n \<le> len - written" using True by (simp add: n_def)
      have "wp (write_all os outfd (rdata ?r)) (\<lambda>ok.
          wp (if \<not> ok then ret (Inr (COPY_FILE_WRITE_ERROR, ?crc))
              else seq (guarded notify (say os (Notify_progress (rv ?r) 0))) (ret (Inl (written + rv ?r, ?crc))))
            (\<lambda>r t. case r of Inl x \<Rightarrow> copy_file_inv outfd infd len crc s x t
               | Inr a \<Rightarrow> copy_post outfd infd len crc s a t) (\<lambda>_ _. False))
          (\<lambda>_ _. False) ?t"
      proof (rule wp_mono [OF copy_write_wp [OF inv]], goal_cases)
        case (1 ok u)
        show ?case
        proof (cases ok)
          case False
          with 1 obtain k where "k < length (rdata ?r)"
            "copy_inv outfd infd s (d @ rdata ?r) (d @ take k (rdata ?r)) u" by auto
          moreover from this(1) have "strict_prefix (d @ take k (rdata ?r)) (d @ rdata ?r)"
            by (auto simp add: strict_prefix_def take_is_prefix dest: arg_cong [where f = length])
          moreover have "int (length (d @ rdata ?r)) \<le> len" using d(2) data(1) n by simp
          ultimately have "copy_post outfd infd len crc s (COPY_FILE_WRITE_ERROR, ?crc) u"
            unfolding copy_post_def copy_result_def prod.case
            by (intro exI [of _ "d @ rdata ?r"] exI [of _ "d @ take k (rdata ?r)"]) simp
          then show ?thesis using False by (simp add: wp_simps)
        next
          case True
          with 1 have u: "copy_inv outfd infd s (d @ rdata ?r) (d @ rdata ?r) u" by simp
          then have u': "copy_inv outfd infd s (d @ rdata ?r) (d @ rdata ?r)
              (sys_upd w e [(Notify_progress (rv ?r) 0, q)] u)" for w e q by (blast intro: copy_inv_message)
          have G: "copy_file_inv outfd infd len crc s (written + rv ?r, ?crc) v"
            if "copy_inv outfd infd s (d @ rdata ?r) (d @ rdata ?r) v" for v
            using that d(2) data n unfolding copy_file_inv_def
            by (intro exI [of _ "d @ rdata ?r"]) auto
          from G [OF u] G [OF u']
          show ?thesis using True by (simp add: wp_simps)
        qed
      qed simp
      with True x data(3) show ?thesis by (simp only: wp_simps Let_def prod.case if_True if_False crc flip: n_def) simp
    qed
  qed
next
  case 2
  have "map_option (\<lambda>c. crc32_buf c []) crc = crc" by (cases crc) (simp_all add: crc.update_Nil)
  then show ?case using copy_inv_refl [of outfd infd s] by (auto simp add: copy_file_inv_def)
qed

section \<open>Writes that fail\<close>

text \<open>
  A write fails when it takes nothing, or reports an error other than an interruption; any
  other answer takes some bytes or is tried again.
\<close>

fun failing :: "fd \<Rightarrow> syscall \<times> response \<Rightarrow> bool" where
  "failing fd (Write f b, r) \<longleftrightarrow> f = fd \<and> rv r \<le> 0 \<and> \<not> (rv r = - 1 \<and> re r = EINTR)"
| "failing fd _ \<longleftrightarrow> False"

definition write_failed :: "fd \<Rightarrow> (syscall \<times> response) list \<Rightarrow> bool" where
  "write_failed fd tr \<longleftrightarrow> list_ex (failing fd) tr"

lemma write_failed_simps [simp]:
  "write_failed fd [] \<longleftrightarrow> False" "write_failed fd (x # tr) \<longleftrightarrow> failing fd x \<or> write_failed fd tr"
  "write_failed fd (tr @ tr') \<longleftrightarrow> write_failed fd tr \<or> write_failed fd tr'"
  by (simp_all add: write_failed_def)

lemma write_all_fails:
  "wp (write_all os fd buf) (\<lambda>ok t. ok \<or> (\<exists>tr. trace t = trace s @ tr \<and> write_failed fd tr)) (\<lambda>_ _. True) s"
  unfolding write_all_def
proof (rule loop_wp [where I = "\<lambda>_ t. \<exists>tr. trace t = trace s @ tr"], goal_cases)
  case (1 k t)
  then show ?case by (auto simp add: wp_simps)
qed simp

text \<open>The whole buffer is written, or a write failed.\<close>

lemma write_all_or_failed:
  "wp (write_all os fd buf) (\<lambda>ok t. \<exists>tr. reaches s tr t \<and> list_all (is_write fd) (calls tr) \<and>
     (if ok then written_to fd tr = buf else write_failed fd tr)) (\<lambda>_ _. False) s"
  by (rule wp_mono [OF wp_conj [OF write_all_wp write_all_fails]])
    (fastforce simp add: write_inv_def reaches_trace split: if_splits)+

section \<open>Termination\<close>

lemma set_block_twp: "(\<And>t. Q () t) \<Longrightarrow> twp (guarded b (set_block os fd)) Q E s"
  by (simp add: set_block_def wp_simps Let_def)

lemma read_all_terminates:
  assumes "eintr_bounded os \<mu>"
  shows "read_all os fd n s \<noteq> None"
proof (rule twp_terminates)
  let ?R = "measures [\<lambda>(got, t). n - length got, \<lambda>(got, t). \<mu> (world t)]"
  show "twp (read_all os fd n) (\<lambda>_ _. True) (\<lambda>_ _. True) s"
    unfolding read_all_def
  proof (rule loop_twp [where R = ?R and I = "\<lambda>_ _. True"], goal_cases)
    case (2 got t)
    let ?r = "sys_res os (Read fd (n - length got)) t"
    have "rv ?r = -1 \<or> rv ?r = int (length (rdata ?r))"
      using sys_res_Read [of os fd "n - length got" t] by blast
    then show ?case
      using eintr_boundedD [OF assms, of "Read fd (n - length got)" t]
      by (auto simp add: wp_simps set_block_def Let_def)
  qed simp_all
qed

lemma copy_file_terminates:
  assumes "eintr_bounded os \<mu>"
  shows "copy_file os notify outfd infd len crc s \<noteq> None"
proof (rule twp_terminates)
  let ?R = "measure (\<lambda>(x, t). nat (len - fst x))"
  show "twp (copy_file os notify outfd infd len crc) (\<lambda>_ _. True) (\<lambda>_ _. True) s"
    unfolding copy_file_def
  proof (rule loop_twp [where R = ?R and I = "\<lambda>_ _. True"], goal_cases)
    case (2 x t)
    have wr: "twp (write_all os outfd buf) Q (\<lambda>_ _. True) u" if "\<And>ok u. Q ok u" for Q buf u
      by (rule twp_mono [OF twpI [OF write_all_terminates [OF assms] write_all_wp]]) (simp_all add: that)
    show ?case by (cases x) (auto simp add: wp_simps Let_def intro!: wr)
  qed simp_all
qed

section \<open>Properties\<close>

lemma total:
  assumes "m s \<noteq> None" and "wp m Q (\<lambda>_ _. False) s"
  shows "\<exists>x t. m s = Some (Inr x, t) \<and> Q x t"
proof -
  from assms(1) obtain r t where "m s = Some (r, t)" by auto
  with assms(2) show ?thesis by (cases r) (simp_all add: wp_def)
qed

text \<open>
  C40: \<open>write_all\<close> returns, for every environment that does not interrupt forever; it makes no
  call but \<open>write\<close> on its descriptor, and what reaches the descriptor, through any sequence of
  short writes and interruptions, is the whole buffer when it reports success and a proper
  prefix of it when it reports failure.
\<close>

theorem write_all_total:
  assumes "eintr_bounded os \<mu>"
  shows "\<exists>ok t tr k. write_all os fd buf s = Some (Inr ok, t) \<and> reaches s tr t \<and>
     list_all (is_write fd) (calls tr) \<and> written_to fd tr = take k buf \<and>
     (if ok then k = length buf else k < length buf)"
proof -
  from total [OF write_all_terminates [OF assms] write_all_wp] obtain ok t k
    where "write_all os fd buf s = Some (Inr ok, t)" "write_inv fd buf s k t"
      "if ok then k = length buf else k < length buf" by metis
  then show ?thesis unfolding write_inv_def by metis
qed

text \<open>A concrete environment: every read delivers one byte, every write takes all it gets.\<close>

definition zero_stat :: stat where
  "zero_stat = \<lparr> st_mode = 0, st_size = 0, st_atim_sec = 0, st_atim_nsec = 0, st_mtim_sec = 0, st_mtim_nsec = 0, st_rdev = 0 \<rparr>"

definition letter_os :: "nat os" where
  "letter_os c w = (\<lparr> rv = 4096, re = 0, rdata = [0x41], rstat = zero_stat, rvfs = (1, 1), rval = 0, rext = zero_ext2 \<rparr>, Suc w)"

lemma letter_os_bounded: "eintr_bounded letter_os (\<lambda>_. 0)"
  by (simp add: eintr_bounded_def letter_os_def)

abbreviation start :: "nat sys" where "start \<equiv> \<lparr> world = 0, errno = 0, trace = [] \<rparr>"

lemma write_all_total_witness:
  "\<exists>ok t tr k. write_all letter_os 1 [1, 2, 3] start = Some (Inr ok, t) \<and>
     written_to 1 tr = take k [1, 2, 3] \<and> (if ok then k = 3 else k < 3)"
proof -
  have "length [1, 2, 3 :: u8] = 3" by simp
  with write_all_total [OF letter_os_bounded, of 1 "[1, 2, 3]" start] show ?thesis by metis
qed

text \<open>
  \<open>read_all\<close> returns, for every environment that does not interrupt forever, and on
  success delivers exactly the requested number of bytes, the ones the descriptor delivered
  in that order; on failure fewer bytes than requested were consumed.
\<close>

theorem read_all_total:
  assumes "eintr_bounded os \<mu>"
  shows "\<exists>d t tr. read_all os fd n s = Some (Inr d, t) \<and> reaches s tr t \<and>
     list_all (is_read fd) (calls tr) \<and>
     (case d of Some b \<Rightarrow> length b = n \<and> read_from fd tr = b | None \<Rightarrow> length (read_from fd tr) < n)"
proof -
  from total [OF read_all_terminates [OF assms] read_all_wp [of os fd n s]] obtain d t
    where r: "read_all os fd n s = Some (Inr d, t)" and
      d: "case d of Some got \<Rightarrow> length got = n \<and> read_inv fd s got t
        | None \<Rightarrow> \<exists>got. length got < n \<and> read_inv fd s got t" by blast
  from d obtain tr where "reaches s tr t" "list_all (is_read fd) (calls tr)"
    "case d of Some b \<Rightarrow> length b = n \<and> read_from fd tr = b | None \<Rightarrow> length (read_from fd tr) < n"
    by (cases d) (auto simp add: read_inv_def)
  with r show ?thesis by blast
qed

lemma read_all_total_witness:
  "\<exists>d t. read_all letter_os 0 2 start = Some (Inr d, t) \<and> (\<forall>b. d = Some b \<longrightarrow> length b = 2)"
  using read_all_total [OF letter_os_bounded, of 0 2 start] by (auto split: option.splits)

text \<open>
  \<open>copy_file\<close> returns, for every environment that does not interrupt forever.  On
  \<open>COPY_FILE_OK\<close> it consumed exactly the requested number of bytes and wrote exactly these
  bytes; when it stops early at end of file or on a read error it wrote everything it read;
  on a write error it wrote a proper prefix.  The accumulated checksum is the CRC of the bytes
  read, in every case.
\<close>

theorem copy_file_total:
  assumes "eintr_bounded os \<mu>"
  shows "\<exists>st crc' t tr. copy_file os notify outfd infd len crc s = Some (Inr (st, crc'), t) \<and>
     reaches s tr t \<and> list_all (is_copy outfd infd) (calls tr) \<and>
     copy_result len st (read_from infd tr) (written_to outfd tr) \<and>
     crc' = map_option (\<lambda>c. crc32_buf c (read_from infd tr)) crc"
proof -
  from total [OF copy_file_terminates [OF assms] copy_file_wp] obtain x t
    where r: "copy_file os notify outfd infd len crc s = Some (Inr x, t)"
      and x: "copy_post outfd infd len crc s x t" by metis
  from x obtain st crc' tr where "x = (st, crc')" "reaches s tr t"
    "list_all (is_copy outfd infd) (calls tr)"
    "copy_result len st (read_from infd tr) (written_to outfd tr)"
    "crc' = map_option (\<lambda>c. crc32_buf c (read_from infd tr)) crc"
    by (auto simp add: copy_post_def copy_inv_def)
  with r show ?thesis by blast
qed

lemma copy_file_total_witness:
  "\<exists>st crc' t tr. copy_file letter_os True 1 0 2 (Some 0) start = Some (Inr (st, crc'), t) \<and>
     copy_result 2 st (read_from 0 tr) (written_to 1 tr)"
  using copy_file_total [OF letter_os_bounded, of True 1 0 2 "Some 0" start] by blast

text \<open>
  When \<open>copy_fd_all\<close> returns 1, everything read from the source was written to the
  destination; when it returns 0, what was written is a prefix of what was read.
\<close>

theorem copy_fd_all_copies:
  assumes "copy_fd_all os outfd infd s = Some (r, t)"
  shows "\<exists>ok tr. r = Inr ok \<and> trace t = trace s @ tr \<and>
     (if ok then written_to outfd tr = read_from infd tr else prefix (written_to outfd tr) (read_from infd tr))"
proof -
  from assms copy_fd_all_wp [of os outfd infd s] obtain ok d d' where r: "r = Inr ok"
    and d: "copy_inv outfd infd s d d' t" "prefix d' d" "ok \<longrightarrow> d' = d"
    by (cases r) (auto simp add: wp_def)
  from d obtain tr where "reaches s tr t" "read_from infd tr = d" "written_to outfd tr = d'"
    by (auto simp add: copy_inv_def)
  with r d show ?thesis by (intro exI [of _ ok] exI [of _ tr]) (auto simp add: reaches_trace)
qed

definition eof_os :: "nat os" where
  "eof_os c w = (\<lparr> rv = 0, re = 0, rdata = [], rstat = zero_stat, rvfs = (1, 1), rval = 0, rext = zero_ext2 \<rparr>, Suc w)"

lemma copy_fd_all_copies_witness:
  "\<exists>t tr. copy_fd_all eof_os 1 0 start = Some (Inr True, t) \<and> trace t = tr \<and>
     written_to 1 tr = read_from 0 tr"
proof -
  have "\<exists>t. copy_fd_all eof_os 1 0 start = Some (Inr True, t)"
    by (simp add: copy_fd_all_def loop.simps bnd_def sys_def sys_res_def eof_os_def gets_def ret_def Let_def)
  then obtain t where t: "copy_fd_all eof_os 1 0 start = Some (Inr True, t)" by blast
  from copy_fd_all_copies [OF this] t show ?thesis by auto
qed

end
