(* ===== verification/Filecopy_Format.thy ===== *)
theory Filecopy_Format
  imports Syscalls
begin

text \<open>
  The structures of the file-copy protocol, \<open>src/qrexec-lib/libqubes-rpc-filecopy.h\<close>, and
  their layout on the wire (little-endian, no padding), as packer and unpacker exchange them
  by writing and reading the objects' bytes.  The locale \<open>wire_format\<close> is what both rely on.
\<close>

unbundle bit_operations_syntax

section \<open>Little-endian words\<close>

definition le_bytes :: "nat \<Rightarrow> 'a :: len word \<Rightarrow> bytes" where
  "le_bytes n w = map (\<lambda>i. ucast (drop_bit (8 * i) w)) [0..<n]"

fun le_value :: "bytes \<Rightarrow> 'a :: len word" where
  "le_value [] = 0"
| "le_value (b # bs) = ucast b OR push_bit 8 (le_value bs)"

lemma length_le_bytes [simp]: "length (le_bytes n w) = n"
  by (simp add: le_bytes_def)

lemma bit_ucast_u8: "bit (b :: u8) i \<Longrightarrow> i < 8"
  using bit_imp_le_length [of b i] by simp

lemma bit_le_value:
  "i < LENGTH('a) \<Longrightarrow>
   bit (le_value bs :: 'a :: len word) i \<longleftrightarrow> i div 8 < length bs \<and> bit (bs ! (i div 8)) (i mod 8)"
proof (induction bs arbitrary: i)
  case (Cons b bs)
  show ?case
  proof (cases "i < 8")
    case True
    then show ?thesis using Cons.prems by (simp add: bit_simps)
  next
    case False
    then have "\<not> bit b i" using bit_ucast_u8 by blast
    moreover obtain j where j: "i = j + 8" using False by (metis add.commute le_Suc_ex not_less)
    moreover have "(j + 8) div 8 = Suc (j div 8)" by simp
    ultimately show ?thesis using Cons.prems Cons.IH [of j] by (simp add: bit_simps)
  qed
qed simp

lemma le_value_le_bytes:
  assumes "LENGTH('a) \<le> 8 * n"
  shows "le_value (le_bytes n w) = (w :: 'a :: len word)"
proof (rule bit_word_eqI)
  fix i assume i: "i < LENGTH('a)"
  with assms have "i div 8 < n" by simp
  with i show "bit (le_value (le_bytes n w) :: 'a word) i = bit w i"
    by (simp add: bit_le_value le_bytes_def bit_simps)
qed

lemma le_bytes_le_value:
  assumes "8 * length bs \<le> LENGTH('a :: len)"
  shows "le_bytes (length bs) (le_value bs :: 'a word) = bs"
proof (rule nth_equalityI)
  fix k assume "k < length (le_bytes (length bs) (le_value bs :: 'a word))"
  then have k: "k < length bs" by simp
  have "ucast (drop_bit (8 * k) (le_value bs :: 'a word)) = bs ! k"
  proof (rule bit_word_eqI)
    fix i :: nat assume "i < LENGTH(8)"
    then have i: "i < 8" by simp
    then have "8 * k + i < 8 * (k + 1)" by simp
    also have "\<dots> \<le> 8 * length bs" using k by simp
    also note assms
    finally have "8 * k + i < LENGTH('a)" .
    with i k show "bit (ucast (drop_bit (8 * k) (le_value bs :: 'a word)) :: u8) i = bit (bs ! k) i"
      by (simp add: bit_simps bit_le_value)
  qed
  with k show "le_bytes (length bs) (le_value bs :: 'a word) ! k = bs ! k" by (simp add: le_bytes_def)
qed simp

section \<open>Structures\<close>

record file_header =
  namelen :: u32
  mode :: u32
  filelen :: u64
  atime :: u32
  atime_nsec :: u32
  mtime :: u32
  mtime_nsec :: u32

record result_header =
  error_code :: u32
  pad :: u32
  crc32 :: u64

record result_header_ext =
  last_namelen :: u32

definition encode_file_header :: "file_header \<Rightarrow> bytes" where
  "encode_file_header h =
     le_bytes 4 (namelen h) @ le_bytes 4 (mode h) @ le_bytes 8 (filelen h) @
     le_bytes 4 (atime h) @ le_bytes 4 (atime_nsec h) @ le_bytes 4 (mtime h) @ le_bytes 4 (mtime_nsec h)"

definition decode_file_header :: "bytes \<Rightarrow> file_header" where
  "decode_file_header b =
     \<lparr> namelen = le_value (take 4 b), mode = le_value (take 4 (drop 4 b)),
       filelen = le_value (take 8 (drop 8 b)), atime = le_value (take 4 (drop 16 b)),
       atime_nsec = le_value (take 4 (drop 20 b)), mtime = le_value (take 4 (drop 24 b)),
       mtime_nsec = le_value (take 4 (drop 28 b)) \<rparr>"

definition encode_result_header :: "result_header \<Rightarrow> bytes" where
  "encode_result_header h = le_bytes 4 (error_code h) @ le_bytes 4 (pad h) @ le_bytes 8 (crc32 h)"

definition decode_result_header :: "bytes \<Rightarrow> result_header" where
  "decode_result_header b =
     \<lparr> error_code = le_value (take 4 b), pad = le_value (take 4 (drop 4 b)), crc32 = le_value (take 8 (drop 8 b)) \<rparr>"

definition encode_result_header_ext :: "result_header_ext \<Rightarrow> bytes" where
  "encode_result_header_ext h = le_bytes 4 (last_namelen h)"

definition decode_result_header_ext :: "bytes \<Rightarrow> result_header_ext" where
  "decode_result_header_ext b = \<lparr> last_namelen = le_value (take 4 b) \<rparr>"

definition sizeof_file_header :: nat where "sizeof_file_header = 32"
definition sizeof_result_header :: nat where "sizeof_result_header = 16"
definition sizeof_result_header_ext :: nat where "sizeof_result_header_ext = 4"

definition FILECOPY_VMNAME_SIZE :: nat where "FILECOPY_VMNAME_SIZE = 32"
definition MAX_PATH_LENGTH :: nat where "MAX_PATH_LENGTH = 16384"
definition LEGAL_EOF :: int where "LEGAL_EOF = 31415926"

definition COPY_ALLOW_SYMLINKS :: u32 where "COPY_ALLOW_SYMLINKS = push_bit 0 1"
definition COPY_ALLOW_DIRECTORIES :: u32 where "COPY_ALLOW_DIRECTORIES = push_bit 1 1"
definition COPY_ALLOW_UNSAFE_CHARACTERS :: u32 where "COPY_ALLOW_UNSAFE_CHARACTERS = push_bit 2 1"
definition COPY_ALLOW_NON_CANONICAL_SYMLINKS :: u32 where "COPY_ALLOW_NON_CANONICAL_SYMLINKS = push_bit 3 1"
definition COPY_ALLOW_UNSAFE_SYMLINKS :: u32 where "COPY_ALLOW_UNSAFE_SYMLINKS = push_bit 4 1"

section \<open>Wire formats\<close>

locale wire_format =
  fixes enc :: "'h \<Rightarrow> bytes" and dec :: "bytes \<Rightarrow> 'h" and n :: nat
  assumes length_enc: "length (enc h) = n"
    and dec_enc: "dec (enc h) = h"
    and enc_dec: "length b = n \<Longrightarrow> enc (dec b) = b"
begin

lemma enc_inject: "enc h = enc h' \<longleftrightarrow> h = h'"
  by (metis dec_enc)

lemma enc_prefix_free: "enc h @ x = enc h' @ y \<longleftrightarrow> h = h' \<and> x = y"
  by (simp add: length_enc enc_inject)

lemma dec_stream: "dec (take n (enc h @ rest)) = h" "drop n (enc h @ rest) = rest"
  by (simp_all add: length_enc dec_enc)

end

lemma bytes_split:
  assumes "length b = k + n"
  obtains x y where "b = x @ y" "length x = k" "length y = n"
  using that [of "take k b" "drop k b"] assms by simp

lemma le_bytes_exact:
  "length b = 4 \<Longrightarrow> le_bytes 4 (le_value b :: u32) = b"
  "length b = 8 \<Longrightarrow> le_bytes 8 (le_value b :: u64) = b"
  using le_bytes_le_value [of b, where 'a = 32] le_bytes_le_value [of b, where 'a = 64] by simp_all

lemma le_value_exact:
  "le_value (le_bytes 4 w) = (w :: u32)" "le_value (le_bytes 8 v) = (v :: u64)"
  by (simp_all add: le_value_le_bytes)

interpretation file_hdr: wire_format encode_file_header decode_file_header sizeof_file_header
proof
  fix h show "length (encode_file_header h) = sizeof_file_header"
    by (simp add: encode_file_header_def sizeof_file_header_def)
  show "decode_file_header (encode_file_header h) = h"
    by (simp add: encode_file_header_def decode_file_header_def le_value_exact)
next
  fix b :: bytes assume "length b = sizeof_file_header"
  then have "length b = 4 + (4 + (8 + (4 + (4 + (4 + 4)))))" by (simp add: sizeof_file_header_def)
  then obtain x1 x2 x3 x4 x5 x6 x7 where "b = x1 @ x2 @ x3 @ x4 @ x5 @ x6 @ x7"
    "length x1 = 4" "length x2 = 4" "length x3 = 8" "length x4 = 4" "length x5 = 4" "length x6 = 4" "length x7 = 4"
    by (elim bytes_split) blast
  then show "encode_file_header (decode_file_header b) = b"
    by (simp add: encode_file_header_def decode_file_header_def le_bytes_exact)
qed

interpretation result_hdr: wire_format encode_result_header decode_result_header sizeof_result_header
proof
  fix h show "length (encode_result_header h) = sizeof_result_header"
    by (simp add: encode_result_header_def sizeof_result_header_def)
  show "decode_result_header (encode_result_header h) = h"
    by (simp add: encode_result_header_def decode_result_header_def le_value_exact)
next
  fix b :: bytes assume "length b = sizeof_result_header"
  then have "length b = 4 + (4 + 8)" by (simp add: sizeof_result_header_def)
  then obtain x1 x2 x3 where "b = x1 @ x2 @ x3" "length x1 = 4" "length x2 = 4" "length x3 = 8"
    by (elim bytes_split) blast
  then show "encode_result_header (decode_result_header b) = b"
    by (simp add: encode_result_header_def decode_result_header_def le_bytes_exact)
qed

interpretation result_ext: wire_format encode_result_header_ext decode_result_header_ext sizeof_result_header_ext
  by unfold_locales
    (simp_all add: encode_result_header_ext_def decode_result_header_ext_def sizeof_result_header_ext_def
      le_value_exact le_bytes_exact)

section \<open>Streams of entries\<close>

type_synonym entry = "file_header \<times> bytes \<times> bytes"

fun entry_bytes :: "entry \<Rightarrow> bytes" where
  "entry_bytes (h, name, payload) = encode_file_header h @ name @ payload"

definition stream :: "entry list \<Rightarrow> bytes" where
  "stream es = concat (map entry_bytes es)"

lemma stream_Nil [simp]: "stream [] = []"
  by (simp add: stream_def)

lemma stream_Cons [simp]: "stream (e # es) = entry_bytes e @ stream es"
  by (simp add: stream_def)

lemma stream_append: "stream (es @ es') = stream es @ stream es'"
  by (simp add: stream_def)

lemma stream_snoc: "stream (es @ [e]) = stream es @ entry_bytes e"
  by (simp add: stream_def)

text \<open>The shape of an entry: its header announces the lengths of its name and payload.\<close>

fun entry_form :: "entry \<Rightarrow> bool" where
  "entry_form (h, name, payload) \<longleftrightarrow>
     namelen h \<noteq> 0 \<and> length name = unat (namelen h) \<and>
     length payload = (if S_ISREG (mode h) \<or> S_ISLNK (mode h) then unat (filelen h) else 0)"

text \<open>An entry is read off the front of a stream in one way only.\<close>

lemma entry_bytes_inject:
  assumes "entry_form e" and "entry_form e'" and "entry_bytes e @ x = entry_bytes e' @ y"
  shows "e = e' \<and> x = y"
proof -
  obtain h n b h' n' b' where e: "e = (h, n, b)" "e' = (h', n', b')" by (metis prod_cases3)
  with assms(3) have "h = h'" "n @ b @ x = n' @ b' @ y"
    using file_hdr.enc_prefix_free [of h "n @ b @ x" h' "n' @ b' @ y"] by simp_all
  with assms(1,2) e show ?thesis by auto
qed

lemma entry_bytes_not_end:
  assumes "entry_form e" and "namelen h = 0"
  shows "entry_bytes e @ x \<noteq> encode_file_header h @ y"
proof -
  obtain h' n b where e: "e = (h', n, b)" by (metis prod_cases3)
  show ?thesis using assms file_hdr.enc_prefix_free [of h' "n @ b @ x" h y] by (auto simp add: e)
qed

lemma stream_parse_front:
  assumes "list_all entry_form es" and "list_all entry_form es'"
    and "namelen h = 0" and "namelen h' = 0"
    and "stream es @ encode_file_header h @ x = stream es' @ encode_file_header h' @ y"
  shows "es = es' \<and> h = h' \<and> x = y"
  using assms(1,2,5)
proof (induction es arbitrary: es')
  case Nil
  then show ?case
    using assms(3) entry_bytes_not_end [of "hd es'" h "stream (tl es') @ encode_file_header h' @ y" x]
    by (cases es') (simp_all add: file_hdr.enc_prefix_free)
next
  case (Cons e es)
  then obtain e' es'' where es': "es' = e' # es''"
    using assms(4) entry_bytes_not_end [of e h' "stream es @ encode_file_header h @ x" y] by (cases es') simp_all
  with Cons.prems have "e = e' \<and> stream es @ encode_file_header h @ x = stream es'' @ encode_file_header h' @ y"
    by (intro entry_bytes_inject) simp_all
  with Cons.IH [of es''] Cons.prems es' show ?case by simp
qed

text \<open>
  A transfer is read in one way only: if two sequences of entries, each ended by a header
  without a name, make the same bytes, they are the same entries in the same order, with the
  same end marker.  What the receiver reads is what the sender wrote.
\<close>

theorem stream_unique:
  assumes "list_all entry_form es" and "list_all entry_form es'"
    and "namelen h = 0" and "namelen h' = 0"
    and "stream es @ encode_file_header h = stream es' @ encode_file_header h'"
  shows "es = es' \<and> h = h'"
  using stream_parse_front [OF assms(1-4), of "[]" "[]"] assms(5) by simp

definition sample_header :: "u32 \<Rightarrow> u32 \<Rightarrow> file_header" where
  "sample_header n m = \<lparr> namelen = n, mode = m, filelen = 0, atime = 0, atime_nsec = 0, mtime = 0, mtime_nsec = 0 \<rparr>"

lemma stream_unique_witness:
  "stream [(sample_header 2 0x4000, [0x61, 0], [])] @ encode_file_header (sample_header 0 0) \<noteq>
   stream [(sample_header 2 0x4000, [0x62, 0], [])] @ encode_file_header (sample_header 0 0)"
  using stream_unique [of "[(sample_header 2 0x4000, [0x61, 0], [])]" "[(sample_header 2 0x4000, [0x62, 0], [])]"
      "sample_header 0 0" "sample_header 0 0"]
  by (auto simp add: sample_header_def S_ISREG_def S_ISLNK_def)

text \<open>
  The headers of the protocol survive the wire in both directions: decoding an encoded
  header gives it back with the rest of the stream, and every 32-byte (16-byte) string is the
  encoding of exactly one file header (result header), so the receiver reads exactly what the
  sender meant.
\<close>

theorem header_round_trip:
  "decode_file_header (take sizeof_file_header (encode_file_header h @ rest)) = h \<and>
   drop sizeof_file_header (encode_file_header h @ rest) = rest \<and>
   decode_result_header (take sizeof_result_header (encode_result_header r @ rest)) = r \<and>
   drop sizeof_result_header (encode_result_header r @ rest) = rest \<and>
   decode_result_header_ext (take sizeof_result_header_ext (encode_result_header_ext x @ rest)) = x \<and>
   (length b = sizeof_file_header \<longrightarrow> encode_file_header (decode_file_header b) = b) \<and>
   (length b = sizeof_result_header \<longrightarrow> encode_result_header (decode_result_header b) = b)"
  by (intro conjI impI; rule file_hdr.dec_stream result_hdr.dec_stream result_ext.dec_stream
      file_hdr.enc_dec result_hdr.enc_dec)

lemma header_round_trip_witness:
  "encode_result_header (decode_result_header (replicate 16 7)) = replicate 16 7"
  using header_round_trip [where b = "replicate 16 7"] by (simp add: sizeof_result_header_def)

end
