(* ===== verification/Unpack.thy ===== *)
theory Unpack
  imports File_Io Filecopy_Format Path_Validation
begin

text \<open>
  The receiving side of file copy, \<open>src/qrexec-lib/unpack.c\<close>.  The file-scope variables are
  the record \<open>unpack\<close>, which extends the state of the system-call layer; each C function is one
  program.  Undefined behaviour of a validator (a \<open>None\<close> of the checked-buffer models) and a
  failed \<open>assert\<close> are \<open>Abort\<close>.  The allocator's \<open>strdup\<close> may fail, which is an answer of the
  environment; \<open>free\<close> is not modelled.
\<close>

unbundle bit_operations_syntax

section \<open>State and constants\<close>

record 'w unpack = "'w sys" +
  untrusted_namebuf :: bytes
  bytes_limit :: u64
  files_limit :: u64
  total_bytes :: u64
  total_files :: u64
  verbose :: int
  opt_wait_for_space_margin :: u64
  use_tmpfile :: bool
  procdir_fd :: int
  crc32_sum :: u64
  notify_progress_func :: bool

definition AT_FDCWD :: fd where "AT_FDCWD = -100"

definition AT_SYMLINK_FOLLOW :: u32 where "AT_SYMLINK_FOLLOW = 0x400"

definition set_size_limit :: "u64 \<Rightarrow> u64 \<Rightarrow> ('w unpack, unit) prog" where
  "set_size_limit new_bytes_limit new_files_limit =
     modify (\<lambda>s. s\<lparr>bytes_limit := new_bytes_limit, files_limit := new_files_limit\<rparr>)"

definition set_verbose :: "int \<Rightarrow> ('w unpack, unit) prog" where
  "set_verbose v = modify (\<lambda>s. s\<lparr>verbose := v\<rparr>)"

definition set_wait_for_space :: "u64 \<Rightarrow> ('w unpack, unit) prog" where
  "set_wait_for_space v = modify (\<lambda>s. s\<lparr>opt_wait_for_space_margin := v\<rparr>)"

definition set_procfs_fd :: "int \<Rightarrow> ('w unpack, unit) prog" where
  "set_procfs_fd v = modify (\<lambda>s. s\<lparr>procdir_fd := v, use_tmpfile := True\<rparr>)"

section \<open>Status and exit\<close>

definition send_status_and_crc :: "'w os \<Rightarrow> int \<Rightarrow> bytes option \<Rightarrow> ('w unpack, unit) prog" where
  "send_status_and_crc os code last_filename =
     bnd (gets errno) (\<lambda>saved_errno.
     bnd (gets crc32_sum) (\<lambda>crc.
     bnd (write_all os 1 (encode_result_header
            \<lparr> error_code = word_of_int code, pad = 0, crc32 = crc \<rparr>)) (\<lambda>ok.
     seq (guarded (\<not> ok) (say os (Stderr ''write status'')))
     (seq (case last_filename of
             None \<Rightarrow> ret ()
           | Some name \<Rightarrow>
               let namelen = word_of_nat (length (c_str name)) :: u32 in
               bnd (write_all os 1 (encode_result_header_ext \<lparr> last_namelen = namelen \<rparr>)) (\<lambda>ok.
               seq (guarded (\<not> ok) (say os (Stderr ''write status ext'')))
               (bnd (write_all os 1 (take (unat namelen) (c_str name))) (\<lambda>ok.
               guarded (\<not> ok) (say os (Stderr ''write last_filename''))))))
     (modify (\<lambda>s. s\<lparr>errno := saved_errno\<rparr>))))))"

definition do_exit :: "'w os \<Rightarrow> int \<Rightarrow> bytes option \<Rightarrow> ('w unpack, 'a) prog" where
  "do_exit os code last_filename =
     bnd (sys os (Close 0)) (\<lambda>_.
     seq (send_status_and_crc os code last_filename)
     (halt (Exit code)))"

text \<open>\<open>do_exit(errno, name)\<close>.\<close>

definition exit_errno :: "'w os \<Rightarrow> bytes option \<Rightarrow> ('w unpack, 'a) prog" where
  "exit_errno os name = bnd (gets errno) (\<lambda>e. do_exit os e name)"

definition wait_for_space :: "'w os \<Rightarrow> fd \<Rightarrow> u64 \<Rightarrow> ('w unpack, int) prog" where
  "wait_for_space os fd how_much =
     loop (\<lambda>counter :: nat.
       bnd (sys os (Fstatvfs fd)) (\<lambda>r.
         if rv r = -1 then seq (say os (Stderr ''fstatvfs'')) (ret (Inr (-1)))
         else
           seq (guarded (counter > 0) (bnd (sys os (Usleep 1000000)) (\<lambda>_. ret ())))
           (if fst (rvfs r) * snd (rvfs r) < how_much then ret (Inl (counter + 1)) else ret (Inr 0)))) 0"

definition read_all_with_crc :: "'w os \<Rightarrow> fd \<Rightarrow> nat \<Rightarrow> ('w unpack, bytes option) prog" where
  "read_all_with_crc os fd n =
     bnd (read_all os fd n) (\<lambda>d.
       case d of
         None \<Rightarrow> ret None
       | Some buf \<Rightarrow>
           seq (modify (\<lambda>s. s\<lparr>crc32_sum := crc32_buf (crc32_sum s) buf\<rparr>))
           (ret (Some buf)))"

definition validate_utime_nsec :: "'w os \<Rightarrow> u32 \<Rightarrow> ('w unpack, u32) prog" where
  "validate_utime_nsec os untrusted_nsec =
     (if untrusted_nsec > 999999999
      then seq (say os (Stderr ''Invalid nanoseconds value'')) (halt (Exit 1))
      else ret untrusted_nsec)"

definition fix_times_and_perms :: "'w os \<Rightarrow> fd \<Rightarrow> file_header \<Rightarrow> bytes \<Rightarrow> ('w unpack, unit) prog" where
  "fix_times_and_perms os fd hdr untrusted_name =
     bnd (validate_utime_nsec os (atime_nsec hdr)) (\<lambda>ansec.
     bnd (validate_utime_nsec os (mtime_nsec hdr)) (\<lambda>mnsec.
     seq (if S_ISLNK (mode hdr) then ret ()
          else bnd (sys os (Fchmod fd (mode hdr AND 0xFFF))) (\<lambda>r.
            guarded (rv r \<noteq> 0) (exit_errno os (Some untrusted_name))))
     (bnd (sys os (Futimens fd (atime hdr) ansec (mtime hdr) mnsec)) (\<lambda>r.
        guarded (rv r \<noteq> 0) (exit_errno os (Some untrusted_name))))))"

section \<open>Opening the directory of a path\<close>

definition seg_head :: "bytes \<Rightarrow> bytes" where
  "seg_head p = takeWhile (\<lambda>c. c \<noteq> 0x2F) p"

definition seg_rest :: "bytes \<Rightarrow> bytes" where
  "seg_rest p = tl (dropWhile (\<lambda>c. c \<noteq> 0x2F) p)"

text \<open>\<open>path\<close> is the string in the (modifiable) copy of the name.\<close>

definition opendir_safe :: "'w os \<Rightarrow> fd \<Rightarrow> bytes \<Rightarrow> ('w unpack, fd \<times> bytes) prog" where
  "opendir_safe os dirfd path =
     (if path = [] then halt Abort
      else loop (\<lambda>(cur_fd, this_segment).
        if 0x2F \<notin> set this_segment then ret (Inr (cur_fd, this_segment))
        else
          let seg = seg_head this_segment; next_segment = seg_rest this_segment in
          if length seg \<le> 2 \<and> seg = take (length seg) dotdot
          then seq (say os (Stderr ''BUG: path component not rejected earlier!'')) (halt Abort)
          else
            bnd (sys os (Openat cur_fd seg
                  (O_RDONLY OR O_DIRECTORY OR O_NOFOLLOW OR O_NOCTTY OR O_CLOEXEC) 0)) (\<lambda>r.
            if rv r = -1 then exit_errno os (Some seg)
            else
              seq (guarded (cur_fd \<noteq> dirfd) (bnd (sys os (Close cur_fd)) (\<lambda>_. ret ())))
              (ret (Inl (rv r, next_segment))))) (dirfd, path))"

section \<open>The three kinds of entries\<close>

definition duplicate :: "'w os \<Rightarrow> bytes \<Rightarrow> ('w unpack, unit) prog" where
  "duplicate os untrusted_name =
     bnd (sys os (Strdup (c_str untrusted_name))) (\<lambda>r.
       guarded (rv r = -1) (do_exit os ENOMEM (Some untrusted_name)))"

definition open_output :: "'w os \<Rightarrow> fd \<Rightarrow> bytes \<Rightarrow> bytes \<Rightarrow> ('w unpack, fd) prog" where
  "open_output os safe_dirfd last_segment untrusted_name =
     bnd (gets use_tmpfile) (\<lambda>tmp.
     bnd (if tmp then
            bnd (sys os (Openat safe_dirfd dot (O_WRONLY OR O_TMPFILE OR O_CLOEXEC OR O_NOCTTY) 0x1C0)) (\<lambda>r.
            bnd (gets errno) (\<lambda>e.
            seq (if rv r < 0 then
                   (if e = ENOENT \<or> e = EOPNOTSUPP then modify (\<lambda>s. s\<lparr>use_tmpfile := False\<rparr>)
                    else do_exit os e (Some untrusted_name))
                 else ret ())
            (ret (rv r))))
          else ret (-1)) (\<lambda>fdout.
     bnd (if fdout < 0 then
            bnd (sys os (Openat safe_dirfd last_segment
                  (O_WRONLY OR O_CREAT OR O_EXCL OR O_NOFOLLOW OR O_CLOEXEC OR O_NOCTTY) 0)) (\<lambda>r. ret (rv r))
          else ret fdout) (\<lambda>fdout.
     if fdout < 0 then exit_errno os (Some untrusted_name) else ret fdout)))"

definition check_quota :: "'w os \<Rightarrow> u64 \<Rightarrow> bytes \<Rightarrow> ('w unpack, unit) prog" where
  "check_quota os len untrusted_name =
     bnd (gets bytes_limit) (\<lambda>limit.
     bnd (gets total_bytes) (\<lambda>total.
     if unat len > 2 ^ 63 - 1 \<or> limit \<noteq> 0 \<and> len > limit then do_exit os EDQUOT (Some untrusted_name)
     else if limit \<noteq> 0 \<and> total > limit - len then do_exit os EDQUOT (Some untrusted_name)
     else ret ()))"

definition link_output :: "'w os \<Rightarrow> fd \<Rightarrow> fd \<Rightarrow> bytes \<Rightarrow> bytes \<Rightarrow> ('w unpack, unit) prog" where
  "link_output os fdout safe_dirfd last_segment untrusted_name =
     bnd (gets use_tmpfile) (\<lambda>tmp.
     guarded tmp
       (if length (decimal fdout) \<ge> 11 then halt Abort
        else
          bnd (gets procdir_fd) (\<lambda>pfd.
          bnd (sys os (Linkat pfd (decimal fdout) safe_dirfd last_segment AT_SYMLINK_FOLLOW)) (\<lambda>r.
          guarded (rv r < 0) (exit_errno os (Some untrusted_name))))))"

definition process_one_file_reg :: "'w os \<Rightarrow> file_header \<Rightarrow> bytes \<Rightarrow> u32 \<Rightarrow> ('w unpack, unit) prog" where
  "process_one_file_reg os untrusted_hdr untrusted_name flags =
     bnd (checked (qubes_pure_validate_file_name_v2 untrusted_name flags)) (\<lambda>v.
     if v \<noteq> 0 then do_exit os (- v) (Some untrusted_name)
     else
       seq (duplicate os untrusted_name)
       (bnd (opendir_safe os AT_FDCWD (c_str untrusted_name)) (\<lambda>(safe_dirfd, last_segment).
       bnd (open_output os safe_dirfd last_segment untrusted_name) (\<lambda>fdout.
       seq (check_quota os (filelen untrusted_hdr) untrusted_name)
       (bnd (gets opt_wait_for_space_margin) (\<lambda>margin.
       seq (guarded (margin \<noteq> 0)
              (bnd (wait_for_space os fdout (filelen untrusted_hdr + margin)) (\<lambda>_. ret ())))
       (seq (modify (\<lambda>s. s\<lparr>total_bytes := total_bytes s + filelen untrusted_hdr\<rparr>))
       (bnd (gets (\<lambda>s. (notify_progress_func s, crc32_sum s))) (\<lambda>(notify, crc).
       bnd (copy_file os notify fdout 0 (sint (filelen untrusted_hdr)) (Some crc)) (\<lambda>(st, crc').
       seq (modify (\<lambda>s. s\<lparr>crc32_sum := the crc'\<rparr>))
       (seq (if st = COPY_FILE_OK then ret ()
             else if st = COPY_FILE_READ_EOF \<or> st = COPY_FILE_READ_ERROR
                  then do_exit os LEGAL_EOF (Some untrusted_name)
                  else exit_errno os (Some untrusted_name))
       (seq (link_output os fdout safe_dirfd last_segment untrusted_name)
       (seq (fix_times_and_perms os fdout untrusted_hdr untrusted_name)
       (seq (guarded (safe_dirfd \<noteq> AT_FDCWD) (bnd (sys os (Close safe_dirfd)) (\<lambda>_. ret ())))
       (bnd (sys os (Close fdout)) (\<lambda>_. ret ()))))))))))))))))"

definition process_one_file_dir :: "'w os \<Rightarrow> file_header \<Rightarrow> bytes \<Rightarrow> u32 \<Rightarrow> ('w unpack, unit) prog" where
  "process_one_file_dir os untrusted_hdr untrusted_name flags =
     bnd (checked (qubes_pure_validate_file_name_v2 untrusted_name flags)) (\<lambda>rc.
     if rc \<noteq> 0 then do_exit os rc (Some untrusted_name)
     else
       seq (duplicate os untrusted_name)
       (bnd (opendir_safe os AT_FDCWD (c_str untrusted_name)) (\<lambda>(safe_dirfd, last_segment).
       bnd (sys os (Mkdirat safe_dirfd last_segment 0x1C0)) (\<lambda>r.
       if rv r = 0 then bnd (sys os (Close safe_dirfd)) (\<lambda>_. ret ())
       else
         bnd (gets errno) (\<lambda>e.
         if e \<noteq> EEXIST then do_exit os e (Some untrusted_name)
         else
           bnd (sys os (Openat safe_dirfd last_segment
                 (O_RDONLY OR O_NOFOLLOW OR O_CLOEXEC OR O_DIRECTORY) 0)) (\<lambda>r.
           if rv r < 0 then exit_errno os (Some untrusted_name)
           else
             bnd (sys os (Fstat (rv r))) (\<lambda>q.
             if rv q < 0 then exit_errno os (Some untrusted_name)
             else
               seq (modify (\<lambda>s. s\<lparr>total_bytes := total_bytes s + st_size (rstat q)\<rparr>))
               (seq (fix_times_and_perms os (rv r) untrusted_hdr untrusted_name)
               (bnd (sys os (Close (rv r))) (\<lambda>_.
               guarded (safe_dirfd \<noteq> AT_FDCWD) (bnd (sys os (Close safe_dirfd)) (\<lambda>_. ret ()))))))))))))"

definition process_one_file_link :: "'w os \<Rightarrow> file_header \<Rightarrow> bytes \<Rightarrow> u32 \<Rightarrow> ('w unpack, unit) prog" where
  "process_one_file_link os untrusted_hdr untrusted_name flags =
     (if unat (filelen untrusted_hdr) > MAX_PATH_LENGTH - 1 then do_exit os ENAMETOOLONG (Some untrusted_name)
      else
        seq (modify (\<lambda>s. s\<lparr>total_bytes := total_bytes s + filelen untrusted_hdr\<rparr>))
        (bnd (gets (\<lambda>s. bytes_limit s \<noteq> 0 \<and> total_bytes s > bytes_limit s)) (\<lambda>over.
        if over then do_exit os EDQUOT (Some untrusted_name)
        else
          bnd (read_all_with_crc os 0 (unat (filelen untrusted_hdr))) (\<lambda>d.
          case d of
            None \<Rightarrow> do_exit os LEGAL_EOF (Some untrusted_name)
          | Some data \<Rightarrow>
              let untrusted_content = data @ [0] in
              bnd (checked (qubes_pure_validate_symbolic_link_v2 untrusted_name untrusted_content flags)) (\<lambda>rc.
              if rc \<noteq> 0 then do_exit os (- rc) (Some untrusted_content)
              else
                seq (duplicate os untrusted_name)
                (bnd (opendir_safe os AT_FDCWD (c_str untrusted_name)) (\<lambda>(safe_dirfd, last_segment).
                bnd (sys os (Symlinkat (c_str untrusted_content) safe_dirfd last_segment)) (\<lambda>r.
                seq (guarded (rv r \<noteq> 0) (exit_errno os (Some untrusted_name)))
                (guarded (safe_dirfd \<noteq> AT_FDCWD) (bnd (sys os (Close safe_dirfd)) (\<lambda>_. ret ())))))))))))"

section \<open>The transfer\<close>

definition validate_flags :: "u32 \<Rightarrow> u32" where
  "validate_flags flags = drop_bit 2 flags AND
     (QUBES_PURE_ALLOW_UNSAFE_CHARACTERS OR QUBES_PURE_ALLOW_UNSAFE_SYMLINKS OR
      QUBES_PURE_ALLOW_NON_CANONICAL_SYMLINKS)"

definition process_one_file :: "'w os \<Rightarrow> file_header \<Rightarrow> u32 \<Rightarrow> ('w unpack, unit) prog" where
  "process_one_file os untrusted_hdr flags =
     (if unat (namelen untrusted_hdr) > MAX_PATH_LENGTH - 1 then do_exit os ENAMETOOLONG None
      else
        bnd (read_all_with_crc os 0 (unat (namelen untrusted_hdr))) (\<lambda>d.
        case d of
          None \<Rightarrow> do_exit os LEGAL_EOF None
        | Some name \<Rightarrow>
            seq (modify (\<lambda>s. s\<lparr>untrusted_namebuf := name @ 0 # drop (length name + 1) (untrusted_namebuf s)\<rparr>))
            (bnd (gets untrusted_namebuf) (\<lambda>namebuf.
            seq (if S_ISREG (mode untrusted_hdr)
                 then process_one_file_reg os untrusted_hdr namebuf (validate_flags flags)
                 else if S_ISLNK (mode untrusted_hdr) \<and> flags AND COPY_ALLOW_SYMLINKS \<noteq> 0
                 then process_one_file_link os untrusted_hdr namebuf (validate_flags flags)
                 else if S_ISDIR (mode untrusted_hdr) \<and> flags AND COPY_ALLOW_DIRECTORIES \<noteq> 0
                 then process_one_file_dir os untrusted_hdr namebuf (validate_flags flags)
                 else do_exit os EINVAL (Some namebuf))
            (bnd (gets verbose) (\<lambda>v.
             guarded (v \<noteq> 0 \<and> \<not> S_ISDIR (mode untrusted_hdr)) (say os (Stderr ''name''))))))))"

text \<open>The main loop; its value is \<open>end_of_transfer_marker_seen\<close>.\<close>

definition unpack_loop :: "'w os \<Rightarrow> u32 \<Rightarrow> ('w unpack, bool) prog" where
  "unpack_loop os flags =
     loop (\<lambda>_ :: unit.
       bnd (read_all_with_crc os 0 sizeof_file_header) (\<lambda>d.
       case d of
         None \<Rightarrow> ret (Inr False)
       | Some b \<Rightarrow>
           let untrusted_hdr = decode_file_header b in
           if namelen untrusted_hdr = 0 then
             seq (modify (\<lambda>s. s\<lparr>errno := 0\<rparr>)) (ret (Inr True))
           else
             seq (modify (\<lambda>s. s\<lparr>total_files := total_files s + 1\<rparr>))
             (bnd (gets (\<lambda>s. files_limit s \<noteq> 0 \<and> total_files s > files_limit s)) (\<lambda>over.
              bnd (gets untrusted_namebuf) (\<lambda>namebuf.
              if over then do_exit os EDQUOT (Some namebuf)
              else seq (process_one_file os untrusted_hdr flags) (ret (Inl ()))))))) ()"

definition sync_and_report :: "'w os \<Rightarrow> ('w unpack, int) prog" where
  "sync_and_report os =
     bnd (gets errno) (\<lambda>saved_errno.
     bnd (sys os (Open dot O_RDONLY)) (\<lambda>r.
     seq (guarded (rv r \<ge> 0)
           (bnd (sys os (Syncfs (rv r))) (\<lambda>q.
            guarded (rv q = 0)
              (bnd (sys os (Close (rv r))) (\<lambda>q.
               guarded (rv q = 0) (modify (\<lambda>s. s\<lparr>errno := saved_errno\<rparr>)))))))
     (bnd (gets (\<lambda>s. (errno s, untrusted_namebuf s))) (\<lambda>(e, namebuf).
      seq (send_status_and_crc os e (Some namebuf))
      (gets errno)))))"

definition do_unpack_ext :: "'w os \<Rightarrow> u32 \<Rightarrow> ('w unpack, int) prog" where
  "do_unpack_ext os flags =
     seq (modify (\<lambda>s. s\<lparr>total_bytes := 0, total_files := 0, crc32_sum := 0\<rparr>))
     (bnd (unpack_loop os flags) (\<lambda>seen.
      seq (modify (\<lambda>s. if \<not> seen \<and> errno s = 0 then s\<lparr>errno := EREMOTEIO\<rparr> else s))
      (sync_and_report os)))"

definition do_unpack :: "'w os \<Rightarrow> ('w unpack, int) prog" where
  "do_unpack os = do_unpack_ext os (COPY_ALLOW_DIRECTORIES OR COPY_ALLOW_SYMLINKS)"

end
