(* ===== verification/Unpack_Props.thy ===== *)
theory Unpack_Props
  imports Unpack
begin

text \<open>
  Correctness of the unpacker for every environment and every input stream: it never aborts,
  it touches the file system only through single safe path components relative to directories
  it opened itself without following links, it respects the file limit and the byte limit, and
  when it reports success it consumed a well-formed stream and its status carries the checksum
  of exactly that stream.
\<close>

unbundle bit_operations_syntax

section \<open>Confined traces\<close>

definition safe_component :: "bytes \<Rightarrow> bool" where
  "safe_component p \<longleftrightarrow> normal_component p \<and> 0x2F \<notin> set p \<and> 0 \<notin> set p"

text \<open>
  \<open>call_ok D c\<close>: a call that names a file does so by one safe component below a directory
  descriptor in \<open>D\<close>, without following a symbolic link there and without opening a file that
  exists already for writing; the only other path is \<open>.\<close>, for the working directory itself and
  for unnamed temporary files in a directory of \<open>D\<close>.  Nothing but standard input is read.
\<close>

fun call_ok :: "fd set \<Rightarrow> syscall \<Rightarrow> bool" where
  "call_ok D (Read f n) \<longleftrightarrow> f = 0"
| "call_ok D (Openat d p fl m) \<longleftrightarrow> d \<in> D \<and>
     (safe_component p \<and> fl AND O_NOFOLLOW \<noteq> 0 \<and>
        (fl AND O_WRONLY = 0 \<or> fl AND O_CREAT \<noteq> 0 \<and> fl AND O_EXCL \<noteq> 0) \<or>
      p = dot \<and> fl AND O_TMPFILE = O_TMPFILE)"
| "call_ok D (Mkdirat d p m) \<longleftrightarrow> d \<in> D \<and> safe_component p"
| "call_ok D (Linkat f p d q fl) \<longleftrightarrow> d \<in> D \<and> safe_component q"
| "call_ok D (Symlinkat tg d p) \<longleftrightarrow> d \<in> D \<and> safe_component p"
| "call_ok D (Open p fl) \<longleftrightarrow> p = dot \<and> fl = O_RDONLY"
| "call_ok D (Lstat p) \<longleftrightarrow> False"
| "call_ok D (Readlink p n) \<longleftrightarrow> False"
| "call_ok D (Opendir p) \<longleftrightarrow> False"
| "call_ok D (Readdir f) \<longleftrightarrow> False"
| "call_ok D (Closedir f) \<longleftrightarrow> False"
| "call_ok D _ \<longleftrightarrow> True"

text \<open>A successful \<open>openat\<close> adds a descriptor to the known ones.\<close>

fun grow :: "fd set \<Rightarrow> syscall \<times> response \<Rightarrow> fd set" where
  "grow D (Openat d p fl m, r) = insert (rv r) D"
| "grow D _ = D"

fun confined :: "fd set \<Rightarrow> (syscall \<times> response) list \<Rightarrow> bool" where
  "confined D [] = True"
| "confined D (x # tr) = (call_ok D (fst x) \<and> confined (grow D x) tr)"

abbreviation known :: "(syscall \<times> response) list \<Rightarrow> fd set" where
  "known tr \<equiv> foldl grow {AT_FDCWD} tr"

lemma grow_mono: "D \<subseteq> D' \<Longrightarrow> grow D x \<subseteq> grow D' x"
  by (cases x; cases "fst x") auto

lemma subset_grow: "D \<subseteq> grow D x"
  by (cases x; cases "fst x") auto

lemma subset_foldl_grow: "D \<subseteq> foldl grow D tr"
  by (induction tr arbitrary: D) (auto dest: subsetD [OF subset_grow])

lemma call_ok_mono: "call_ok D c \<Longrightarrow> D \<subseteq> D' \<Longrightarrow> call_ok D' c"
  by (cases c) auto

lemma confined_append: "confined D (tr @ tr') \<longleftrightarrow> confined D tr \<and> confined (foldl grow D tr) tr'"
  by (induction tr arbitrary: D) auto

lemma confined_plain: "list_all (call_ok {}) (calls tr) \<Longrightarrow> confined D tr"
  by (induction tr arbitrary: D) (auto intro: call_ok_mono)

lemma plain_calls:
  "is_write fd c \<Longrightarrow> call_ok {} c" "is_read 0 c \<Longrightarrow> call_ok {} c" "is_copy fd 0 c \<Longrightarrow> call_ok {} c"
  by (cases c; simp)+

section \<open>The invariant\<close>

text \<open>
  \<open>unp s N T D d k t\<close>: from \<open>s\<close> the program came to \<open>t\<close> by a confined trace that knows the
  descriptors \<open>D\<close> and consumed \<open>d\<close> from standard input; the checksum is \<open>k\<close>, \<open>N\<close> files and
  \<open>T\<close> bytes were counted and the limits are those of \<open>s\<close>.
\<close>

definition unp :: "'w unpack \<Rightarrow> u64 \<Rightarrow> u64 \<Rightarrow> fd set \<Rightarrow> bytes \<Rightarrow> u64 \<Rightarrow> 'w unpack \<Rightarrow> bool" where
  "unp s N T D d k t \<longleftrightarrow>
     (\<exists>tr. trace t = trace s @ tr \<and> confined {AT_FDCWD} tr \<and> D \<subseteq> known tr \<and> read_from 0 tr = d) \<and>
     crc32_sum t = k \<and> total_files t = N \<and> total_bytes t = T \<and> bytes_limit t = bytes_limit s \<and> files_limit t = files_limit s"

definition stopped :: "'w unpack \<Rightarrow> stop \<Rightarrow> 'w unpack \<Rightarrow> bool" where
  "stopped s e t \<longleftrightarrow> e \<noteq> Abort \<and> (\<exists>tr. trace t = trace s @ tr \<and> confined {AT_FDCWD} tr)"

lemma unp_stopped: "unp s N T D d k t \<Longrightarrow> stopped s (Exit c) t"
  by (auto simp add: unp_def stopped_def)

lemma unp_mono: "unp s N T D d k t \<Longrightarrow> D' \<subseteq> D \<Longrightarrow> unp s N T D' d k t"
  by (fastforce simp add: unp_def)

lemma unpack_sys_upd [simp]:
  "untrusted_namebuf (sys_upd w e tr s) = untrusted_namebuf s" "bytes_limit (sys_upd w e tr s) = bytes_limit s"
  "files_limit (sys_upd w e tr s) = files_limit s" "total_bytes (sys_upd w e tr s) = total_bytes s"
  "total_files (sys_upd w e tr s) = total_files s" "verbose (sys_upd w e tr s) = verbose s"
  "opt_wait_for_space_margin (sys_upd w e tr s) = opt_wait_for_space_margin s"
  "use_tmpfile (sys_upd w e tr s) = use_tmpfile s" "procdir_fd (sys_upd w e tr s) = procdir_fd s"
  "crc32_sum (sys_upd w e tr s) = crc32_sum s" "notify_progress_func (sys_upd w e tr s) = notify_progress_func s"
  by (simp_all add: sys_upd_def)

lemma unp_update [simp]:
  "unp s N T D d k (t\<lparr>errno := e\<rparr>) = unp s N T D d k t"
  "unp s N T D d k (t\<lparr>use_tmpfile := b\<rparr>) = unp s N T D d k t"
  "unp s N T D d k (t\<lparr>untrusted_namebuf := y\<rparr>) = unp s N T D d k t"
  by (simp_all add: unp_def)

lemma unp_call:
  assumes "unp s N T D d k t" and "call_ok D c" and "read_by 0 (c, r) = []"
  shows "unp s N T (grow D (c, r)) d k (sys_upd w e [(c, r)] t)"
proof -
  from assms(1) obtain tr where tr: "trace t = trace s @ tr" "confined {AT_FDCWD} tr" "D \<subseteq> known tr"
    "read_from 0 tr = d" by (auto simp add: unp_def)
  then have "confined {AT_FDCWD} (tr @ [(c, r)])" "grow D (c, r) \<subseteq> known (tr @ [(c, r)])"
    using assms(2) call_ok_mono [of D c "known tr"] grow_mono [of D "known tr" "(c, r)"]
    by (auto simp add: confined_append)
  with tr assms show ?thesis unfolding unp_def
    by (intro conjI exI [of _ "tr @ [(c, r)]"]) simp_all
qed

lemma unp_plain_call:
  assumes "unp s N T D d k t" and "call_ok D c" and "read_by 0 (c, r) = []"
  shows "unp s N T D d k (sys_upd w e [(c, r)] t)"
  using unp_mono [OF unp_call [OF assms] subset_grow] .

lemma unp_reaches:
  assumes "unp s N T D d k t" and "reaches t tr u" and "list_all (call_ok {}) (calls tr)"
  shows "unp s N T D (d @ read_from 0 tr) k u"
proof -
  from assms(1) obtain tr0 where tr: "trace t = trace s @ tr0" "confined {AT_FDCWD} tr0" "D \<subseteq> known tr0"
    "read_from 0 tr0 = d" by (auto simp add: unp_def)
  have D: "D \<subseteq> known (tr0 @ tr)" using tr(3) subset_foldl_grow [of "known tr0" tr] by auto
  have u: "u = sys_upd (world u) (errno u) tr t" using assms(2) by (simp add: reaches_def)
  have "unp s N T D (d @ read_from 0 tr) k (sys_upd w e tr t)" for w e
    using tr D assms(1) confined_plain [OF assms(3)] unfolding unp_def
    by (intro conjI exI [of _ "tr0 @ tr"]) (simp_all add: confined_append)
  with u show ?thesis by metis
qed

section \<open>System calls that keep the invariant\<close>

lemma hoare_sys:
  "call_ok D c \<Longrightarrow> (\<And>r. read_by 0 (c, r) = []) \<Longrightarrow>
   hoare (stopped s) (unp s N T D d k) (sys os c) (\<lambda>r. unp s N T (grow D (c, r)) d k)"
  by (simp add: hoare_def wp_simps unp_call)

lemma keep_sys [keep_intros]:
  "call_ok D c \<Longrightarrow> (\<And>r. read_by 0 (c, r) = []) \<Longrightarrow>
   hoare (stopped s) (unp s N T D d k) (sys os c) (\<lambda>_. unp s N T D d k)"
  by (simp add: hoare_def wp_simps unp_plain_call)

lemma keep_say [keep_intros]:
  "call_ok D c \<Longrightarrow> (\<And>r. read_by 0 (c, r) = []) \<Longrightarrow>
   hoare (stopped s) (unp s N T D d k) (say os c) (\<lambda>_. unp s N T D d k)"
  by (simp add: hoare_def wp_simps unp_plain_call)

lemma hoare_exit [keep_intros]: "hoare (stopped s) (unp s N T D d k) (halt (Exit c)) Q"
  by (simp add: hoare_def wp_simps unp_stopped)

section \<open>Operations that keep the invariant\<close>

lemma keep_write_all [keep_intros]:
  "hoare (stopped s) (unp s N T D d k) (write_all os fd buf) (\<lambda>_. unp s N T D d k)"
proof (rule hoareI, rule wp_mono [OF write_all_wp])
  fix t ok u assume t: "unp s N T D d k t"
    and "\<exists>k. write_inv fd buf t k u \<and> (if ok then k = length buf else k < length buf)"
  then obtain tr where tr: "reaches t tr u" "list_all (is_write fd) (calls tr)" by (auto simp add: write_inv_def)
  then have "list_all (call_ok {}) (calls tr)" "list_all (no_read 0) (calls tr)"
    by (auto simp add: list_all_iff plain_calls is_write_no_read)
  with unp_reaches [OF t tr(1)] show "unp s N T D d k u" by (simp add: no_read_from)
qed simp

lemma keep_send_status [keep_intros]:
  "hoare (stopped s) (unp s N T D d k) (send_status_and_crc os code nm) (\<lambda>_. unp s N T D d k)"
  unfolding send_status_and_crc_def Let_def by (intro keep_intros) simp_all

lemma hoare_do_exit [keep_intros]: "hoare (stopped s) (unp s N T D d k) (do_exit os code nm) Q"
  unfolding do_exit_def by (intro keep_intros) simp_all

lemma hoare_exit_errno [keep_intros]: "hoare (stopped s) (unp s N T D d k) (exit_errno os nm) Q"
  unfolding exit_errno_def by (intro keep_intros)

lemma keep_wait_for_space [keep_intros]:
  "hoare (stopped s) (unp s N T D d k) (wait_for_space os fd m) (\<lambda>_. unp s N T D d k)"
  unfolding wait_for_space_def
  by (rule keep_loop) (intro keep_intros; simp)

lemma keep_fix_times_and_perms [keep_intros]:
  "hoare (stopped s) (unp s N T D d k) (fix_times_and_perms os fd hdr nm) (\<lambda>_. unp s N T D d k)"
  unfolding fix_times_and_perms_def validate_utime_nsec_def
  by (intro keep_intros) simp_all

section \<open>Opening directories and files\<close>

lemma split_slash_seg: "0x2F \<in> set p \<Longrightarrow> split_slash p = seg_head p # split_slash (seg_rest p)"
proof -
  assume "0x2F \<in> set p"
  then obtain c t where p: "0x2F \<notin> set c" "p = c @ 0x2F # t" by (metis split_list_first)
  then have "seg_head p = c" "seg_rest p = t"
    by (auto simp add: seg_head_def seg_rest_def takeWhile_append dropWhile_append)
  with p show ?thesis by (simp add: split_slash_append)
qed

lemma safe_component_not_bug: "safe_component seg \<Longrightarrow> \<not> (length seg \<le> 2 \<and> seg = take (length seg) dotdot)"
  by (cases seg; cases "tl seg") (auto simp add: safe_component_def normal_component_def)

lemma hoare_openat:
  "call_ok D (Openat fd p fl m) \<Longrightarrow>
   hoare (stopped s) (unp s N T D d k) (sys os (Openat fd p fl m))
     (\<lambda>r t. unp s N T (insert (rv r) D) d k t \<and> rv r < 2 ^ 31)"
proof (rule hoareI)
  fix t assume "call_ok D (Openat fd p fl m)" "unp s N T D d k t"
  have "rv (sys_res os (Openat fd p fl m) t) < 2 ^ 31"
    by (simp add: sys_res_def take_bit_int_less_exp [of 31, simplified])
  moreover note unp_call [OF \<open>unp s N T D d k t\<close> \<open>call_ok D (Openat fd p fl m)\<close>]
  ultimately show "wp (sys os (Openat fd p fl m)) (\<lambda>r t. unp s N T (insert (rv r) D) d k t \<and> rv r < 2 ^ 31) (stopped s) t"
    by (simp add: wp_simps)
qed

lemma hoare_opendir_safe:
  assumes "dirfd \<in> D" and "path \<noteq> []" and "list_all safe_component (split_slash path)"
  shows "hoare (stopped s) (unp s N T D d k) (opendir_safe os dirfd path)
     (\<lambda>(fd, seg) t. unp s N T (insert fd D) d k t \<and> safe_component seg)"
proof -
  let ?I = "\<lambda>(fd, this) t. unp s N T (insert fd D) d k t \<and> list_all safe_component (split_slash this)"
  let ?Q = "\<lambda>(fd, seg) t. unp s N T (insert fd D) d k t \<and> safe_component seg"
  let ?body = "\<lambda>(cur_fd, this_segment).
        if 0x2F \<notin> set this_segment then ret (Inr (cur_fd, this_segment))
        else
          let seg = seg_head this_segment; next_segment = seg_rest this_segment in
          if length seg \<le> 2 \<and> seg = take (length seg) dotdot
          then seq (say os (Stderr ''BUG: path component not rejected earlier!'')) (halt Abort)
          else
            bnd (sys os (Openat cur_fd seg
                  (O_RDONLY OR O_DIRECTORY OR O_NOFOLLOW OR O_NOCTTY OR O_CLOEXEC) 0)) (\<lambda>r.
            if rv r = -1 then exit_errno os (Some seg)
            else
              seq (guarded (cur_fd \<noteq> dirfd) (bnd (sys os (Close cur_fd)) (\<lambda>_. ret ())))
              (ret (Inl (rv r, next_segment))))"
  have "hoare (stopped s) (?I x) (?body x) (\<lambda>r t. case r of Inl y \<Rightarrow> ?I y t | Inr a \<Rightarrow> ?Q a t)" for x
  proof (cases x)
    case (Pair cur this)
    have "hoare (stopped s) (unp s N T (insert cur D) d k) (?body (cur, this))
        (\<lambda>r t. case r of Inl y \<Rightarrow> ?I y t | Inr a \<Rightarrow> ?Q a t)"
      if ok: "list_all safe_component (split_slash this)"
    proof (cases "0x2F \<in> set this")
      case False
      with ok show ?thesis by (auto simp add: split_slash_no_slash intro!: hoare_ret)
    next
      case True
      from ok have safe: "safe_component (seg_head this)" "list_all safe_component (split_slash (seg_rest this))"
        by (simp_all add: split_slash_seg [OF True])
      have call: "call_ok (insert cur D) (Openat cur (seg_head this)
          (O_RDONLY OR O_DIRECTORY OR O_NOFOLLOW OR O_NOCTTY OR O_CLOEXEC) 0)"
        using safe by (simp add: O_RDONLY_def O_DIRECTORY_def O_NOFOLLOW_def O_NOCTTY_def O_CLOEXEC_def O_WRONLY_def)
      have rest: "hoare (stopped s) (unp s N T (insert (rv r) (insert cur D)) d k)
          (seq (guarded (cur \<noteq> dirfd) (bnd (sys os (Close cur)) (\<lambda>_. ret ()))) (ret (Inl (rv r, seg_rest this))))
          (\<lambda>r t. case r of Inl y \<Rightarrow> ?I y t | Inr a \<Rightarrow> ?Q a t)" for r
        by (intro keep_seq keep_guarded keep_bnd keep_sys keep_ret hoare_ret)
          (use safe in \<open>auto elim: unp_mono\<close>)
      have body: "?body (cur, this) = bnd (sys os (Openat cur (seg_head this)
                  (O_RDONLY OR O_DIRECTORY OR O_NOFOLLOW OR O_NOCTTY OR O_CLOEXEC) 0)) (\<lambda>r.
            if rv r = -1 then exit_errno os (Some (seg_head this))
            else
              seq (guarded (cur \<noteq> dirfd) (bnd (sys os (Close cur)) (\<lambda>_. ret ())))
              (ret (Inl (rv r, seg_rest this))))"
        using True safe_component_not_bug [OF safe(1)] by (auto simp add: Let_def)
      show ?thesis unfolding body
        by (rule hoare_bnd [OF hoare_openat [OF call]]) (intro hoare_pull hoare_if hoare_exit_errno rest)
    qed
    then show ?thesis unfolding Pair by (auto intro!: hoare_pull)
  qed
  then have "hoare (stopped s) (?I (dirfd, path)) (loop ?body (dirfd, path)) ?Q" by (rule hoare_loop)
  moreover have "insert dirfd D = D" using assms(1) by blast
  ultimately show ?thesis
    using assms(2,3) unfolding opendir_safe_def by (auto elim!: hoare_pre)
qed

lemma hoare_open_output:
  assumes "fd \<in> D" and "safe_component seg"
  shows "hoare (stopped s) (unp s N T D d k) (open_output os fd seg nm)
     (\<lambda>r t. unp s N T D d k t \<and> 0 \<le> r \<and> r < 2 ^ 31)"
proof -
  note flags = O_WRONLY_def O_CREAT_def O_EXCL_def O_NOFOLLOW_def O_CLOEXEC_def O_NOCTTY_def O_TMPFILE_def O_DIRECTORY_def
  have tmp: "call_ok D (Openat fd dot (O_WRONLY OR O_TMPFILE OR O_CLOEXEC OR O_NOCTTY) 0x1C0)"
    and new: "call_ok D (Openat fd seg (O_WRONLY OR O_CREAT OR O_EXCL OR O_NOFOLLOW OR O_CLOEXEC OR O_NOCTTY) 0)"
    using assms by (simp_all add: flags)
  have weaken: "hoare (stopped s) (unp s N T D d k) (sys os c) (\<lambda>r t. unp s N T D d k t \<and> rv r < 2 ^ 31)"
    if "c = Openat fd p fl m" "call_ok D c" for c p fl m
    unfolding that(1) by (rule hoare_post [OF hoare_openat [OF that(2) [unfolded that(1)]]]) (auto elim: unp_mono)
  note openat = weaken [OF refl tmp] weaken [OF refl new]
  let ?R = "\<lambda>r t. unp s N T D d k t \<and> r < (2 :: int) ^ 31"
  have 1: "hoare (stopped s) (unp s N T D d k)
      (if b then
            bnd (sys os (Openat fd dot (O_WRONLY OR O_TMPFILE OR O_CLOEXEC OR O_NOCTTY) 0x1C0)) (\<lambda>r.
            bnd (gets errno) (\<lambda>e.
            seq (if rv r < 0 then
                   (if e = ENOENT \<or> e = EOPNOTSUPP then modify (\<lambda>s. s\<lparr>use_tmpfile := False\<rparr>)
                    else do_exit os e (Some nm))
                 else ret ())
            (ret (rv r))))
          else ret (-1)) ?R" for b
  proof (cases b)
    case True
    have "hoare (stopped s) (unp s N T D d k) (bnd (gets errno) (\<lambda>e.
            seq (if rv r < 0 then
                   (if e = ENOENT \<or> e = EOPNOTSUPP then modify (\<lambda>s. s\<lparr>use_tmpfile := False\<rparr>)
                    else do_exit os e (Some nm))
                 else ret ())
            (ret (rv r)))) ?R" if "rv r < 2 ^ 31" for r
      by (intro keep_intros hoare_ret) (use that in simp_all)
    with True show ?thesis by (simp, intro hoare_bnd [OF openat(1)] hoare_pull) simp
  qed (auto intro: hoare_ret)
  have 2: "hoare (stopped s) (unp s N T D d k)
     (if x < 0 then bnd (sys os (Openat fd seg
                  (O_WRONLY OR O_CREAT OR O_EXCL OR O_NOFOLLOW OR O_CLOEXEC OR O_NOCTTY) 0)) (\<lambda>r. ret (rv r))
          else ret x) ?R" if "x < 2 ^ 31" for x
    using that by (auto intro!: hoare_bnd [OF openat(2)] hoare_ret)
  show ?thesis unfolding open_output_def
    by (intro keep_bnd [OF keep_gets] hoare_bnd [OF 1] hoare_pull hoare_bnd [OF 2] hoare_if hoare_exit_errno hoare_ret)
      simp_all
qed

lemma keep_link_output:
  assumes "fd \<in> D" and "safe_component seg" and "0 \<le> out" and "out < 2 ^ 31"
  shows "hoare (stopped s) (unp s N T D d k) (link_output os out fd seg nm) (\<lambda>_. unp s N T D d k)"
proof -
  have "length (decimal out) \<le> 10"
    using assms(3,4) length_digits [of "nat out" 10] by (simp add: decimal_def)
  then have "\<not> length (decimal out) \<ge> 11" by simp
  then show ?thesis unfolding link_output_def using assms(1,2)
    by (simp, intro keep_intros) simp_all
qed

lemma hoare_check_quota:
  "hoare (stopped s) (unp s N T D d k) (check_quota os len nm)
     (\<lambda>_ t. unp s N T D d k t \<and> unat len < 2 ^ 63 \<and>
        (bytes_limit s \<noteq> 0 \<longrightarrow> unat T + unat len \<le> unat (bytes_limit s)))"
proof (rule hoareI)
  fix t assume t: "unp s N T D d k t"
  let ?L = "bytes_limit s"
  have L: "bytes_limit t = ?L" "total_bytes t = T" using t by (simp_all add: unp_def)
  have "unat T + unat len \<le> unat ?L" if "len \<le> ?L" "T \<le> ?L - len"
  proof -
    have "unat (?L - len) = unat ?L - unat len" using that(1) by (simp add: unat_sub)
    with that show ?thesis by (simp add: word_le_nat_alt)
  qed
  then show "wp (check_quota os len nm)
     (\<lambda>_ t. unp s N T D d k t \<and> unat len < 2 ^ 63 \<and>
        (?L \<noteq> 0 \<longrightarrow> unat T + unat len \<le> unat ?L)) (stopped s) t"
    using t hoareD [OF hoare_do_exit t] unfolding check_quota_def
    by (auto simp add: wp_simps L not_less)
qed

section \<open>Names\<close>

lemma last_split_slash: "last (split_slash s) = [] \<longleftrightarrow> s = [] \<or> last s = 0x2F"
proof (induction "length s" arbitrary: s rule: less_induct)
  case less
  show ?case
  proof (cases s rule: first_component_cases)
    case last
    then have "s \<noteq> [] \<Longrightarrow> last s \<noteq> 0x2F" by (metis last_in_set)
    with last show ?thesis by (auto simp add: split_slash_no_slash)
  next
    case (more c t)
    then show ?thesis using less.hyps [of t] by (simp add: split_slash_append)
  qed
qed

lemma names_safe:
  assumes "file_name_ok f s" and "\<not> has_flag f QUBES_PURE_ALLOW_NON_CANONICAL_PATHS"
    and "\<not> has_flag f QUBES_PURE_ALLOW_TRAILING_SLASH" and "0 \<notin> set s"
  shows "list_all safe_component (split_slash s)"
proof -
  let ?cs = "split_slash s"
  have "[] \<notin> set (butlast ?cs)" "last ?cs \<noteq> []" "dot \<notin> set ?cs" "dotdot \<notin> set ?cs"
    using assms(1-3) last_split_slash [of s] by (auto simp add: file_name_ok_def Let_def)
  moreover have "set ?cs = insert (last ?cs) (set (butlast ?cs))"
    by (cases "split_slash s" rule: rev_cases) auto
  ultimately have "normal_component c" if "c \<in> set ?cs" for c
    using that unfolding normal_component_def by (metis insert_iff)
  moreover have "\<forall>c\<in>set ?cs. 0x2F \<notin> set c \<and> 0 \<notin> set c"
    using split_slash_components [of _ s] assms(4) by blast
  ultimately show ?thesis by (auto simp add: list_all_iff safe_component_def)
qed

lemma validate_flags_known:
  "flag_check (validate_flags flags)"
  "\<not> has_flag (validate_flags flags) QUBES_PURE_ALLOW_NON_CANONICAL_PATHS"
  "\<not> has_flag (validate_flags flags) QUBES_PURE_ALLOW_TRAILING_SLASH"
  by (simp_all add: flag_check_def has_flag_def validate_flags_def flag_defs and.assoc)

lemma link_name_ok:
  assumes "nul_terminated name" and "nul_terminated target"
    and "qubes_pure_validate_symbolic_link_v2 name target flags = Some 0"
  shows "file_name_ok flags (c_str name)"
  using assms(3)
  by (auto simp add: qubes_pure_validate_symbolic_link_v2_def validate_path_c_str [OF assms(1)]
      validate_path_c_str [OF assms(2)] Let_def simp flip: path_spec_pos_iff split: if_splits)

text \<open>The validators depend on the string in the buffer alone.\<close>

lemma validate_name_cong:
  "nul_terminated b \<Longrightarrow> qubes_pure_validate_file_name_v2 b f = qubes_pure_validate_file_name_v2 (c_str b @ [0]) f"
  by (simp add: qubes_pure_validate_file_name_v2_def validate_path_c_str)

lemma validate_link_cong:
  "nul_terminated b \<Longrightarrow>
   qubes_pure_validate_symbolic_link_v2 b t f = qubes_pure_validate_symbolic_link_v2 (c_str b @ [0]) t f"
  by (simp add: qubes_pure_validate_symbolic_link_v2_def validate_path_c_str)

lemma validate_name_total: "nul_terminated b \<Longrightarrow> \<exists>v. qubes_pure_validate_file_name_v2 b f = Some v"
  by (simp add: qubes_pure_validate_file_name_v2_def validate_path_c_str)

lemma validate_link_total:
  "nul_terminated b \<Longrightarrow> nul_terminated t \<Longrightarrow> \<exists>v. qubes_pure_validate_symbolic_link_v2 b t f = Some v"
  by (simp add: qubes_pure_validate_symbolic_link_v2_def validate_path_c_str Let_def)

lemma validate_name_ok:
  "nul_terminated b \<Longrightarrow> qubes_pure_validate_file_name_v2 b f = Some 0 \<Longrightarrow> file_name_ok f (c_str b)"
  by (auto simp add: qubes_pure_validate_file_name_v2_def validate_path_c_str path_spec_pos_iff split: if_splits)

lemma file_name_ok_nonempty: "file_name_ok f s \<Longrightarrow> s \<noteq> []"
  by (simp add: file_name_ok_def Let_def)

section \<open>Entries\<close>

lemma keep_duplicate [keep_intros]: "hoare (stopped s) (unp s N T D d k) (duplicate os nm) (\<lambda>_. unp s N T D d k)"
  unfolding duplicate_def by (intro keep_intros) simp_all

lemma hoare_read_all_with_crc:
  "hoare (stopped s) (unp s N T D d k) (read_all_with_crc os 0 n)
     (\<lambda>r t. case r of Some b \<Rightarrow> unp s N T D (d @ b) (crc32_buf k b) t \<and> length b = n
        | None \<Rightarrow> \<exists>d'. unp s N T D d' k t)"
proof (rule hoareI)
  fix t assume t: "unp s N T D d k t"
  have *: "unp s N T D (d @ b) k u" if "read_inv 0 t b u" for b u
  proof -
    from that obtain tr where tr: "reaches t tr u" "list_all (is_read 0) (calls tr)" "read_from 0 tr = b"
      by (auto simp add: read_inv_def)
    then have "list_all (call_ok {}) (calls tr)" by (auto simp add: list_all_iff plain_calls)
    with unp_reaches [OF t tr(1)] tr(3) show ?thesis by simp
  qed
  have "unp s N T D x (crc32_buf (crc32_sum u) b) (u\<lparr>crc32_sum := crc32_buf (crc32_sum u) b\<rparr>)"
    if "unp s N T D x k u" for x b u using that by (simp add: unp_def)
  moreover have "crc32_sum u = k" if "unp s N T D x k u" for x u using that by (simp add: unp_def)
  ultimately show "wp (read_all_with_crc os 0 n)
     (\<lambda>r t. case r of Some b \<Rightarrow> unp s N T D (d @ b) (crc32_buf k b) t \<and> length b = n
        | None \<Rightarrow> \<exists>d'. unp s N T D d' k t) (stopped s) t"
    unfolding read_all_with_crc_def wp_simps
    by (intro wp_mono [OF read_all_wp [where s = t]]) (auto simp add: wp_simps split: option.splits dest!: *)
qed

lemma hoare_copy_file:
  "hoare (stopped s) (unp s N T D d k) (copy_file os notify fd 0 len (Some k))
     (\<lambda>(st, crc') t. \<exists>b. unp s N T D (d @ b) k t \<and>
        (crc' = Some (crc32_buf k b) \<and> (st = COPY_FILE_OK \<longrightarrow> length b = nat len)))"
proof (rule hoareI, rule wp_mono [OF copy_file_wp])
  fix t x u assume t: "unp s N T D d k t" and "copy_post fd 0 len (Some k) t x u"
  then obtain st crc' tr where x: "x = (st, crc')" "reaches t tr u"
    "list_all (is_copy fd 0) (calls tr)" "copy_result len st (read_from 0 tr) (written_to fd tr)"
    "crc' = Some (crc32_buf k (read_from 0 tr))"
    by (auto simp add: copy_post_def copy_inv_def)
  then have "list_all (call_ok {}) (calls tr)" by (auto simp add: list_all_iff plain_calls)
  from unp_reaches [OF t x(2) this] x
  show "(case x of (st, crc') \<Rightarrow> \<lambda>t. \<exists>b. unp s N T D (d @ b) k t \<and>
      (crc' = Some (crc32_buf k b) \<and> (st = COPY_FILE_OK \<longrightarrow> length b = nat len))) u"
    by (auto simp add: copy_result_def)
qed simp

lemma keep_close [keep_intros]:
  "hoare (stopped s) (unp s N T D d k) (bnd (sys os (Close fd)) (\<lambda>_. ret ())) (\<lambda>_. unp s N T D d k)"
  by (intro keep_bnd keep_sys keep_ret) simp_all

text \<open>Opening the directory of a validated name.\<close>

lemma hoare_opendir_name:
  assumes "nul_terminated nm" and "file_name_ok (validate_flags flags) (c_str nm)"
    and "\<And>fd seg. safe_component seg \<Longrightarrow> hoare (stopped s) (unp s N T (insert fd {AT_FDCWD}) d k) (f (fd, seg)) Q"
  shows "hoare (stopped s) (unp s N T {AT_FDCWD} d k) (bnd (opendir_safe os AT_FDCWD (c_str nm)) f) Q"
proof -
  have "list_all safe_component (split_slash (c_str nm))"
    using names_safe [OF assms(2) validate_flags_known(2,3)] by simp
  with file_name_ok_nonempty [OF assms(2)]
  have "hoare (stopped s) (unp s N T {AT_FDCWD} d k) (opendir_safe os AT_FDCWD (c_str nm))
     (\<lambda>(fd, seg) t. unp s N T (insert fd {AT_FDCWD}) d k t \<and> safe_component seg)"
    by (intro hoare_opendir_safe) simp_all
  then show ?thesis
  proof (rule hoare_bnd)
    fix x show "hoare (stopped s) (case x of (fd, seg) \<Rightarrow> \<lambda>t. unp s N T (insert fd {AT_FDCWD}) d k t \<and> safe_component seg) (f x) Q"
      by (cases x) (auto intro: hoare_pull assms(3))
  qed
qed

definition reg_post :: "'w unpack \<Rightarrow> u64 \<Rightarrow> u64 \<Rightarrow> bytes \<Rightarrow> u64 \<Rightarrow> u64 \<Rightarrow> 'w unpack \<Rightarrow> bool" where
  "reg_post s N T d k len t \<longleftrightarrow>
     (\<exists>b. unp s N (T + len) {AT_FDCWD} (d @ b) (crc32_buf k b) t \<and> length b = unat len) \<and>
     (bytes_limit s \<noteq> 0 \<longrightarrow> unat T + unat len \<le> unat (bytes_limit s))"

lemma unp_total_bytes: "unp s N T D d k t \<Longrightarrow> unp s N (total_bytes t + x) D d k (t\<lparr>total_bytes := total_bytes t + x\<rparr>)"
  by (simp add: unp_def)

lemma unp_crc: "unp s N T D d k t \<Longrightarrow> unp s N T D d k' (t\<lparr>crc32_sum := k'\<rparr>)"
  by (simp add: unp_def)

lemma unp_sel: "unp s N T D d k t \<Longrightarrow> total_bytes t = T" "unp s N T D d k t \<Longrightarrow> crc32_sum t = k"
  by (simp_all add: unp_def)

lemma nat_sint: "unat (len :: u64) < 2 ^ 63 \<Longrightarrow> nat (sint len) = unat len"
proof -
  assume a: "unat len < 2 ^ 63"
  have "sint len = signed_take_bit 63 (uint len)" by (simp add: sint_uint)
  also have "\<dots> = uint len" 
  proof (rule signed_take_bit_int_eq_self)
    show "- (2 ^ 63) \<le> uint len" by (rule order_trans [of _ 0]) simp_all
    show "uint len < 2 ^ 63" using a by (metis nat_uint_eq nat_less_numeral_power_cancel_iff)
  qed
  finally show ?thesis by (simp add: nat_uint_eq)
qed

text \<open>What \<open>process_one_file_reg\<close> does after the copy, and from the copy on.\<close>

abbreviation (input) "finish_file os hdr nm fd seg fdout st \<equiv>
  seq (if st = COPY_FILE_OK then ret ()
       else if st = COPY_FILE_READ_EOF \<or> st = COPY_FILE_READ_ERROR then do_exit os LEGAL_EOF (Some nm)
       else exit_errno os (Some nm))
   (seq (link_output os fdout fd seg nm)
   (seq (fix_times_and_perms os fdout hdr nm)
   (seq (guarded (fd \<noteq> AT_FDCWD) (bnd (sys os (Close fd)) (\<lambda>_. ret ())))
   (bnd (sys os (Close fdout)) (\<lambda>_. ret ())))))"

abbreviation (input) "receive_file os hdr nm fd seg fdout \<equiv>
  bnd (gets (\<lambda>s. (notify_progress_func s, crc32_sum s))) (\<lambda>(notify, crc).
  bnd (copy_file os notify fdout 0 (sint (filelen hdr)) (Some crc)) (\<lambda>(st, crc').
  seq (modify (\<lambda>s. s\<lparr>crc32_sum := the crc'\<rparr>)) (finish_file os hdr nm fd seg fdout st)))"

lemma hoare_finish_file:
  assumes q: "unat (filelen hdr) < 2 ^ 63" "bytes_limit s \<noteq> 0 \<longrightarrow> unat T + unat (filelen hdr) \<le> unat (bytes_limit s)"
    and f: "0 \<le> fdout" "fdout < 2 ^ 31" and b: "st = COPY_FILE_OK \<longrightarrow> length b = nat (sint (filelen hdr))"
    and seg: "safe_component seg"
  shows "hoare (stopped s) (unp s N (T + filelen hdr) (insert fd {AT_FDCWD}) (d @ b) (crc32_buf k b))
     (finish_file os hdr nm fd seg fdout st) (\<lambda>_. reg_post s N T d k (filelen hdr))"
proof (cases "st = COPY_FILE_OK")
  case True
  with b q have "length b = unat (filelen hdr)" by (simp add: nat_sint)
  then have post: "reg_post s N T d k (filelen hdr) t"
    if "unp s N (T + filelen hdr) (insert fd {AT_FDCWD}) (d @ b) (crc32_buf k b) t" for t
    using that q unfolding reg_post_def by (auto elim: unp_mono)
  show ?thesis
    by (rule hoare_post [where Q = "\<lambda>_. unp s N (T + filelen hdr) (insert fd {AT_FDCWD}) (d @ b) (crc32_buf k b)"],
        intro keep_intros keep_link_output) (use True seg f post in simp_all)
next
  case False
  then show ?thesis
    by (intro hoare_seq [where R = "\<lambda>_. False"] hoare_False hoare_if hoare_do_exit hoare_exit_errno) simp
qed

lemma hoare_receive_file:
  assumes q: "unat (filelen hdr) < 2 ^ 63" "bytes_limit s \<noteq> 0 \<longrightarrow> unat T + unat (filelen hdr) \<le> unat (bytes_limit s)"
    and f: "0 \<le> fdout" "fdout < 2 ^ 31" and seg: "safe_component seg"
  shows "hoare (stopped s) (unp s N (T + filelen hdr) (insert fd {AT_FDCWD}) d k)
     (receive_file os hdr nm fd seg fdout) (\<lambda>_. reg_post s N T d k (filelen hdr))"
proof (rule hoare_gets_pair [OF unp_sel(2)], assumption, unfold prod.case,
    rule hoare_bnd [OF hoare_copy_file], goal_cases)
  case (1 notify x)
  obtain st crc' where x: "x = (st, crc')" by (cases x)
  show ?case unfolding x prod.case
  proof (intro hoare_ex hoare_pull, goal_cases)
    case (1 b)
    show ?case
      by (rule hoare_seq [OF hoare_modify hoare_finish_file]) (use 1 q f seg in \<open>auto intro: unp_crc\<close>)
  qed
qed

lemma hoare_reg:
  assumes "nul_terminated nm"
  shows "hoare (stopped s) (unp s N T {AT_FDCWD} d k) (process_one_file_reg os hdr nm (validate_flags flags))
     (\<lambda>_ t. reg_post s N T d k (filelen hdr) t \<and> file_name_ok (validate_flags flags) (c_str nm))"
proof -
  let ?len = "filelen hdr"
  from validate_name_total [OF assms] obtain v
    where v: "qubes_pure_validate_file_name_v2 nm (validate_flags flags) = Some v" by blast
  show ?thesis
    unfolding process_one_file_reg_def
  proof (rule hoare_checked [OF v], rule hoare_if, goal_cases)
    case 1
    show ?case by (rule hoare_do_exit)
  next
    case 2
    then have ok: "file_name_ok (validate_flags flags) (c_str nm)"
      using validate_name_ok [OF assms] v by simp
    show ?case
    proof (rule keep_seq [OF keep_duplicate], rule hoare_opendir_name [OF assms ok], unfold prod.case, goal_cases)
      case (1 fd seg)
      let ?D = "insert fd {AT_FDCWD}"
      have received: "hoare (stopped s) (unp s N (T + ?len) ?D d k) (receive_file os hdr nm fd seg fdout)
          (\<lambda>_ t. reg_post s N T d k ?len t \<and> file_name_ok (validate_flags flags) (c_str nm))"
        if "unat ?len < 2 ^ 63" "bytes_limit s \<noteq> 0 \<longrightarrow> unat T + unat ?len \<le> unat (bytes_limit s)"
          "0 \<le> fdout" "fdout < 2 ^ 31" for fdout
        by (rule hoare_post [OF hoare_receive_file [OF that 1]]) (use ok in simp)
      have wait: "hoare (stopped s) (unp s N T ?D d k)
          (guarded (margin \<noteq> 0) (bnd (wait_for_space os fdout h) (\<lambda>_. ret ()))) (\<lambda>_. unp s N T ?D d k)"
        for margin :: u64 and fdout h by (intro keep_intros)
      have count: "hoare (stopped s) (unp s N T ?D d k)
          (modify (\<lambda>s. s\<lparr>total_bytes := total_bytes s + ?len\<rparr>)) (\<lambda>_. unp s N (T + ?len) ?D d k)"
        by (rule hoare_modify) (metis unp_total_bytes unp_sel(1))
      show ?case
        by (rule hoare_bnd [OF hoare_open_output], simp, rule 1, rule hoare_pull,
            rule hoare_seq [OF hoare_check_quota], rule hoare_pull, rule keep_bnd [OF keep_gets],
            rule keep_seq [OF wait], rule hoare_seq [OF count], rule received) auto
    qed
  qed
qed

lemma hoare_dir:
  assumes "nul_terminated nm"
  shows "hoare (stopped s) (unp s N T {AT_FDCWD} d k) (process_one_file_dir os hdr nm (validate_flags flags))
     (\<lambda>_ t. (\<exists>T. unp s N T {AT_FDCWD} d k t) \<and> file_name_ok (validate_flags flags) (c_str nm))"
proof -
  from validate_name_total [OF assms] obtain v
    where v: "qubes_pure_validate_file_name_v2 nm (validate_flags flags) = Some v" by blast
  show ?thesis
    unfolding process_one_file_dir_def
  proof (rule hoare_checked [OF v], rule hoare_if, goal_cases)
    case 1
    show ?case by (rule hoare_do_exit)
  next
    case 2
    then have ok: "file_name_ok (validate_flags flags) (c_str nm)"
      using validate_name_ok [OF assms] v by simp
    let ?Q = "\<lambda>_ t. (\<exists>T. unp s N T {AT_FDCWD} d k t) \<and> file_name_ok (validate_flags flags) (c_str nm)"
    have post: "?Q x t" if "unp s N T' D d k t" "AT_FDCWD \<in> D" for x t T' D
      using that ok by (auto elim: unp_mono)
    show ?case
    proof (rule keep_seq [OF keep_duplicate], rule hoare_opendir_name [OF assms ok], unfold prod.case, goal_cases)
      case (1 fd seg)
      let ?D = "insert fd {AT_FDCWD}"
      have dir: "call_ok ?D (Openat fd seg (O_RDONLY OR O_NOFOLLOW OR O_CLOEXEC OR O_DIRECTORY) 0)"
        using 1 by (simp add: O_RDONLY_def O_NOFOLLOW_def O_CLOEXEC_def O_DIRECTORY_def O_WRONLY_def)
      have tail: "hoare (stopped s) (unp s N T' D' d k)
          (seq (fix_times_and_perms os x hdr nm)
            (bnd (sys os (Close x)) (\<lambda>_.
             guarded (fd \<noteq> AT_FDCWD) (bnd (sys os (Close fd)) (\<lambda>_. ret ()))))) ?Q"
        if "AT_FDCWD \<in> D'" for T' x D'
        by (rule hoare_post [where Q = "\<lambda>_. unp s N T' D' d k"], intro keep_intros) (use that post in auto)
      have known: "hoare (stopped s) (unp s N T D' d k) (modify (\<lambda>s. s\<lparr>total_bytes := total_bytes s + z\<rparr>))
          (\<lambda>_. unp s N (T + z) D' d k)" for z D'
        by (rule hoare_modify) (metis unp_total_bytes unp_sel(1))
      have again: "hoare (stopped s) (unp s N T ?D d k)
           (bnd (sys os (Openat fd seg (O_RDONLY OR O_NOFOLLOW OR O_CLOEXEC OR O_DIRECTORY) 0)) (\<lambda>r.
           if rv r < 0 then exit_errno os (Some nm)
           else
             bnd (sys os (Fstat (rv r))) (\<lambda>q.
             if rv q < 0 then exit_errno os (Some nm)
             else
               seq (modify (\<lambda>s. s\<lparr>total_bytes := total_bytes s + st_size (rstat q)\<rparr>))
               (seq (fix_times_and_perms os (rv r) hdr nm)
               (bnd (sys os (Close (rv r))) (\<lambda>_.
               guarded (fd \<noteq> AT_FDCWD) (bnd (sys os (Close fd)) (\<lambda>_. ret ())))))))) ?Q"
        by (rule hoare_bnd [OF hoare_openat [OF dir]])
          (intro hoare_pull hoare_if hoare_exit_errno keep_bnd [OF keep_sys] hoare_seq [OF known tail]; simp)
      have first: "hoare (stopped s) (unp s N T ?D d k) (bnd (sys os (Close fd)) (\<lambda>_. ret ())) ?Q"
        by (rule hoare_post [OF keep_close]) (use post in auto)
      show ?case
        by (intro keep_bnd [OF keep_sys] hoare_if first keep_bnd [OF keep_gets] hoare_do_exit again)
          (use 1 in simp_all)
    qed
  qed
qed

lemma c_str_buffer: "c_str (name @ 0 # junk) = c_str (name @ [0])"
  by (induction name) (auto simp add: c_str_def)

lemma hoare_link:
  assumes "nul_terminated nm"
  shows "hoare (stopped s) (unp s N T {AT_FDCWD} d k) (process_one_file_link os hdr nm (validate_flags flags))
     (\<lambda>_ t. \<exists>b. (\<exists>T. unp s N T {AT_FDCWD} (d @ b) (crc32_buf k b) t) \<and> length b = unat (filelen hdr) \<and>
        qubes_pure_validate_symbolic_link_v2 nm (b @ [0]) (validate_flags flags) = Some 0)"
    (is "hoare (stopped s) _ _ ?Q")
proof -
  let ?len = "filelen hdr"
  have count: "hoare (stopped s) (unp s N T {AT_FDCWD} d k)
      (modify (\<lambda>s. s\<lparr>total_bytes := total_bytes s + ?len\<rparr>)) (\<lambda>_. unp s N (T + ?len) {AT_FDCWD} d k)"
    by (rule hoare_modify) (metis unp_total_bytes unp_sel(1))
  have body: "hoare (stopped s) (unp s N T' {AT_FDCWD} (d @ b) (crc32_buf k b))
      (bnd (checked (qubes_pure_validate_symbolic_link_v2 nm (b @ [0]) (validate_flags flags))) (\<lambda>rc.
              if rc \<noteq> 0 then do_exit os (- rc) (Some (b @ [0]))
              else
                seq (duplicate os nm)
                (bnd (opendir_safe os AT_FDCWD (c_str nm)) (\<lambda>(safe_dirfd, last_segment).
                bnd (sys os (Symlinkat (c_str (b @ [0])) safe_dirfd last_segment)) (\<lambda>r.
                seq (guarded (rv r \<noteq> 0) (exit_errno os (Some nm)))
                (guarded (safe_dirfd \<noteq> AT_FDCWD) (bnd (sys os (Close safe_dirfd)) (\<lambda>_. ret ())))))))) ?Q"
    if b: "length b = unat ?len" for T' b
  proof -
    have nul: "nul_terminated (b @ [0])" by simp
    from validate_link_total [OF assms nul] obtain v
      where v: "qubes_pure_validate_symbolic_link_v2 nm (b @ [0]) (validate_flags flags) = Some v" by blast
    show ?thesis
    proof (rule hoare_checked [OF v], rule hoare_if, goal_cases)
      case 1
      show ?case by (rule hoare_do_exit)
    next
      case 2
      then have v0: "qubes_pure_validate_symbolic_link_v2 nm (b @ [0]) (validate_flags flags) = Some 0"
        using v by simp
      show ?case
      proof (rule keep_seq [OF keep_duplicate],
          rule hoare_opendir_name [OF assms link_name_ok [OF assms nul v0]], unfold prod.case, goal_cases)
        case (1 fd seg)
        have post: "?Q x t" if "unp s N T' (insert fd {AT_FDCWD}) (d @ b) (crc32_buf k b) t" for x t
          using that b v0 by (blast intro: unp_mono)
        show ?case
          by (rule hoare_post [where Q = "\<lambda>_. unp s N T' (insert fd {AT_FDCWD}) (d @ b) (crc32_buf k b)"],
              intro keep_intros) (use 1 post in simp_all)
      qed
    qed
  qed
  show ?thesis unfolding process_one_file_link_def
  proof (rule hoare_if [OF hoare_do_exit hoare_seq [OF count keep_bnd [OF keep_gets]]],
      rule hoare_if [OF hoare_do_exit hoare_bnd [OF hoare_read_all_with_crc]], goal_cases)
    case (1 over r)
    show ?case
      by (cases r) (auto simp add: Let_def intro!: hoare_ex hoare_do_exit hoare_pull body)
  qed
qed

section \<open>The stream\<close>

text \<open>The entries the unpacker accepts under given flags.\<close>

fun entry_ok :: "u32 \<Rightarrow> entry \<Rightarrow> bool" where
  "entry_ok flags (h, name, payload) \<longleftrightarrow>
     namelen h \<noteq> 0 \<and> length name = unat (namelen h) \<and> length name < MAX_PATH_LENGTH \<and>
     (if S_ISREG (mode h) then
        length payload = unat (filelen h) \<and> file_name_ok (validate_flags flags) (c_str (name @ [0]))
      else if S_ISLNK (mode h) then
        flags AND COPY_ALLOW_SYMLINKS \<noteq> 0 \<and> length payload = unat (filelen h) \<and>
        qubes_pure_validate_symbolic_link_v2 (name @ [0]) (payload @ [0]) (validate_flags flags) = Some 0
      else
        S_ISDIR (mode h) \<and> flags AND COPY_ALLOW_DIRECTORIES \<noteq> 0 \<and> payload = [] \<and>
        file_name_ok (validate_flags flags) (c_str (name @ [0])))"

declare entry_ok.simps [simp del]

lemma hoare_set_name:
  assumes "\<And>t x. P t \<Longrightarrow> P (t\<lparr>untrusted_namebuf := x\<rparr>)" and "\<And>t. hoare (stopped s) P (f (h t)) Q"
  shows "hoare (stopped s) P (seq (modify (\<lambda>t. t\<lparr>untrusted_namebuf := h t\<rparr>)) (bnd (gets untrusted_namebuf) f)) Q"
  using assms by (simp add: hoare_def wp_simps)

lemma validate_link_buffer:
  "qubes_pure_validate_symbolic_link_v2 (name @ 0 # junk) t f = qubes_pure_validate_symbolic_link_v2 (name @ [0]) t f"
  using validate_link_cong [of "name @ 0 # junk" t f] validate_link_cong [of "name @ [0]" t f]
  unfolding c_str_buffer [of name junk] by simp

text \<open>What is done with an entry once its name is in the buffer \<open>nm\<close>.\<close>

abbreviation (input) "handle_entry os hdr nm flags \<equiv>
  seq (if S_ISREG (mode hdr) then process_one_file_reg os hdr nm (validate_flags flags)
       else if S_ISLNK (mode hdr) \<and> flags AND COPY_ALLOW_SYMLINKS \<noteq> 0 then process_one_file_link os hdr nm (validate_flags flags)
       else if S_ISDIR (mode hdr) \<and> flags AND COPY_ALLOW_DIRECTORIES \<noteq> 0 then process_one_file_dir os hdr nm (validate_flags flags)
       else do_exit os EINVAL (Some nm))
    (bnd (gets verbose) (\<lambda>v. guarded (v \<noteq> 0 \<and> \<not> S_ISDIR (mode hdr)) (say os (Stderr ''name''))))"

lemma hoare_handle_entry:
  assumes hdr: "namelen hdr \<noteq> 0" and name: "length name = unat (namelen hdr)" "length name < MAX_PATH_LENGTH"
    and nm: "nm = name @ 0 # junk"
  shows "hoare (stopped s) (unp s N T {AT_FDCWD} (d @ name) (crc32_buf k name)) (handle_entry os hdr nm flags)
     (\<lambda>_ t. \<exists>name payload T. unp s N T {AT_FDCWD} (d @ name @ payload) (crc32_buf k (name @ payload)) t \<and>
        entry_ok flags (hdr, name, payload))"
    (is "hoare (stopped s) ?P _ ?Q")
proof -
  let ?vf = "validate_flags flags"
  let ?R = "\<lambda>t. \<exists>payload T. unp s N T {AT_FDCWD} ((d @ name) @ payload) (crc32_buf (crc32_buf k name) payload) t \<and>
      entry_ok flags (hdr, name, payload)"
  have nul: "nul_terminated nm" by (simp add: nm)
  have c: "c_str nm = c_str (name @ [0])" unfolding nm by (rule c_str_buffer)
  have v: "qubes_pure_validate_symbolic_link_v2 nm t f = qubes_pure_validate_symbolic_link_v2 (name @ [0]) t f"
    for t f unfolding nm by (rule validate_link_buffer)
  note ok = hdr name
  have reg: "hoare (stopped s) ?P (process_one_file_reg os hdr nm ?vf) (\<lambda>_. ?R)" if "S_ISREG (mode hdr)"
    by (rule hoare_post [OF hoare_reg [OF nul]]) (use that ok in \<open>auto simp add: reg_post_def c entry_ok.simps\<close>)
  have lnk: "hoare (stopped s) ?P (process_one_file_link os hdr nm ?vf) (\<lambda>_. ?R)"
    if "S_ISLNK (mode hdr)" "\<not> S_ISREG (mode hdr)" "flags AND COPY_ALLOW_SYMLINKS \<noteq> 0"
    by (rule hoare_post [OF hoare_link [OF nul]]) (use that ok in \<open>auto simp add: v entry_ok.simps\<close>)
  have dir: "hoare (stopped s) ?P (process_one_file_dir os hdr nm ?vf) (\<lambda>_. ?R)"
    if "S_ISDIR (mode hdr)" "\<not> S_ISREG (mode hdr)" "flags AND COPY_ALLOW_DIRECTORIES \<noteq> 0"
  proof (rule hoare_post [OF hoare_dir [OF nul]])
    fix t assume "(\<exists>T. unp s N T {AT_FDCWD} (d @ name) (crc32_buf k name) t) \<and> file_name_ok ?vf (c_str nm)"
    moreover have "\<not> S_ISLNK (mode hdr)" using that(1) S_IS_disjoint(3) by blast
    ultimately show "?R t" using that ok by (intro exI [of _ "[]"]) (auto simp add: c crc.update_Nil entry_ok.simps)
  qed
  have tail: "hoare (stopped s) ?R (bnd (gets verbose) (\<lambda>v. guarded (v \<noteq> 0 \<and> \<not> S_ISDIR (mode hdr)) (say os (Stderr ''name'')))) ?Q"
  proof (intro hoare_ex hoare_pull, goal_cases)
    case (1 payload T')
    show ?case
      by (rule hoare_post [where Q = "\<lambda>_. unp s N T' {AT_FDCWD} ((d @ name) @ payload) (crc32_buf (crc32_buf k name) payload)"],
          intro keep_intros, simp, simp,
          rule exI [of _ name], rule exI [of _ payload], rule exI [of _ T'])
        (use 1 in \<open>simp only: crc.update_append append_assoc simp_thms\<close>)
  qed
  show ?thesis
    by (rule hoare_seq [OF _ tail]) (intro hoare_if hoare_do_exit reg lnk dir; simp)
qed

lemma hoare_process_one_file:
  assumes "namelen hdr \<noteq> 0"
  shows "hoare (stopped s) (unp s N T {AT_FDCWD} d k) (process_one_file os hdr flags)
     (\<lambda>_ t. \<exists>name payload T. unp s N T {AT_FDCWD} (d @ name @ payload) (crc32_buf k (name @ payload)) t \<and>
        entry_ok flags (hdr, name, payload))"
    (is "hoare (stopped s) _ _ ?Q")
  unfolding process_one_file_def
proof (rule hoare_if [OF hoare_do_exit], rule hoare_bnd [OF hoare_read_all_with_crc], goal_cases)
  case (1 r)
  show ?case
  proof (cases r)
    case None
    then show ?thesis by (auto intro!: hoare_ex hoare_do_exit)
  next
    case (Some name)
    have "hoare (stopped s) (unp s N T {AT_FDCWD} (d @ name) (crc32_buf k name))
       (seq (modify (\<lambda>s. s\<lparr>untrusted_namebuf := name @ 0 # drop (length name + 1) (untrusted_namebuf s)\<rparr>))
          (bnd (gets untrusted_namebuf) (\<lambda>namebuf. handle_entry os hdr namebuf flags))) ?Q"
      if len: "length name = unat (namelen hdr)"
    proof (rule hoare_set_name, simp)
      have "length name < MAX_PATH_LENGTH" using 1 len by (simp add: MAX_PATH_LENGTH_def)
      then show "hoare (stopped s) (unp s N T {AT_FDCWD} (d @ name) (crc32_buf k name))
          (handle_entry os hdr (name @ 0 # junk) flags) ?Q" for junk
        using hoare_handle_entry [OF assms len _ refl] by blast
    qed
    with Some show ?thesis by (auto intro!: hoare_pull)
  qed
qed

text \<open>
  After some entries: they are well-formed, the checksum covers them, they are counted, and
  their number respects the limit (a limit of \<open>2 ^ 64 - 1\<close> cannot be exceeded by a 64-bit
  counter).
\<close>

definition after_entries :: "'w unpack \<Rightarrow> u32 \<Rightarrow> entry list \<Rightarrow> 'w unpack \<Rightarrow> bool" where
  "after_entries s flags es t \<longleftrightarrow>
     (\<exists>T. unp s (word_of_nat (length es)) T {AT_FDCWD} (stream es) (crc32_buf 0 (stream es)) t) \<and>
     list_all (entry_ok flags) es \<and>
     (files_limit s \<noteq> 0 \<and> files_limit s \<noteq> - 1 \<longrightarrow> length es \<le> unat (files_limit s))"

text \<open>After the end marker \<open>h\<close>.\<close>

definition after_marker :: "'w unpack \<Rightarrow> u32 \<Rightarrow> entry list \<Rightarrow> file_header \<Rightarrow> 'w unpack \<Rightarrow> bool" where
  "after_marker s flags es h t \<longleftrightarrow>
     (let d = stream es @ encode_file_header h
      in \<exists>T. unp s (word_of_nat (length es)) T {AT_FDCWD} d (crc32_buf 0 d) t) \<and>
     list_all (entry_ok flags) es \<and> namelen h = 0 \<and>
     (files_limit s \<noteq> 0 \<and> files_limit s \<noteq> - 1 \<longrightarrow> length es \<le> unat (files_limit s))"

lemma count_limit:
  assumes "n \<le> unat L" and "(L :: u64) \<noteq> - 1" and "(word_of_nat n :: u64) + 1 \<le> L"
  shows "Suc n \<le> unat L"
proof -
  have "unat L \<noteq> 2 ^ 64 - 1"
  proof
    assume "unat L = 2 ^ 64 - 1"
    then have "unat L = unat (- 1 :: u64)" by (simp add: unsigned_minus_1_eq_mask mask_eq_exp_minus_1)
    with assms(2) show False by (simp only: word_unat_eq_iff)
  qed
  moreover have "unat L < 2 ^ 64" using unsigned_less [of L] by simp
  ultimately have "Suc n < 2 ^ 64" using assms(1) by linarith
  then have "unat (word_of_nat (Suc n) :: u64) = Suc n" by (intro unat_word_of_nat_small) simp
  then show ?thesis using assms(3) by (simp add: word_le_nat_alt add.commute)
qed

lemma after_entries_snoc:
  assumes "unp s (word_of_nat (length es) + 1) T {AT_FDCWD} ((stream es @ b) @ name @ payload)
      (crc32_buf (crc32_buf (crc32_buf 0 (stream es)) b) (name @ payload)) t"
    and "entry_ok flags (h, name, payload)" and "encode_file_header h = b" and "list_all (entry_ok flags) es"
    and "files_limit s \<noteq> 0 \<and> files_limit s \<noteq> - 1 \<longrightarrow> Suc (length es) \<le> unat (files_limit s)"
  shows "after_entries s flags (es @ [(h, name, payload)]) t"
proof -
  have "stream (es @ [(h, name, payload)]) = (stream es @ b) @ name @ payload"
    using assms(3) by (simp add: stream_snoc)
  moreover have "word_of_nat (length (es @ [(h, name, payload)])) = (word_of_nat (length es) + 1 :: u64)"
    by (simp add: add.commute)
  ultimately show ?thesis
    using assms unfolding after_entries_def by (simp only: flip: crc.update_append) auto
qed

lemma after_markerI:
  assumes "unp s (word_of_nat (length es)) T {AT_FDCWD} (stream es @ b) (crc32_buf (crc32_buf 0 (stream es)) b) t"
    and "encode_file_header h = b" and "list_all (entry_ok flags) es" and "namelen h = 0"
    and "files_limit s \<noteq> 0 \<and> files_limit s \<noteq> - 1 \<longrightarrow> length es \<le> unat (files_limit s)"
  shows "after_marker s flags es h t"
  using assms unfolding after_marker_def by (auto simp add: crc.update_append)


lemma hoare_one_entry:
  assumes es: "list_all (entry_ok flags) es"
      "files_limit s \<noteq> 0 \<and> files_limit s \<noteq> - 1 \<longrightarrow> length es \<le> unat (files_limit s)"
    and b: "length b = sizeof_file_header" "namelen (decode_file_header b) \<noteq> 0"
  shows "hoare (stopped s) (unp s (word_of_nat (length es)) T {AT_FDCWD} (stream es @ b) (crc32_buf (crc32_buf 0 (stream es)) b))
     (seq (modify (\<lambda>s. s\<lparr>total_files := total_files s + 1\<rparr>))
       (bnd (gets (\<lambda>s. files_limit s \<noteq> 0 \<and> total_files s > files_limit s)) (\<lambda>over.
        bnd (gets untrusted_namebuf) (\<lambda>namebuf.
        if over then do_exit os EDQUOT (Some namebuf)
        else seq (process_one_file os (decode_file_header b) flags) (ret x)))))
     (\<lambda>y t. y = x \<and> (\<exists>es. after_entries s flags es t))"
proof -
  let ?n = "word_of_nat (length es) + 1 :: u64"
  let ?P = "unp s ?n T {AT_FDCWD} (stream es @ b) (crc32_buf (crc32_buf 0 (stream es)) b)"
  have over: "(files_limit t \<noteq> 0 \<and> total_files t > files_limit t) = (files_limit s \<noteq> 0 \<and> ?n > files_limit s)"
    if "?P t" for t using that by (simp add: unp_def)
  show ?thesis
  proof (rule hoare_seq [OF hoare_modify [where Q = "\<lambda>_. ?P"]], simp add: unp_def,
      rule hoare_gets_bnd [OF over], assumption, rule keep_bnd [OF keep_gets], rule hoare_if [OF hoare_do_exit],
      rule hoare_seq [OF hoare_process_one_file [OF b(2)]], rule hoare_ret, goal_cases)
    case (1 nm t)
    then have "files_limit s \<noteq> 0 \<and> files_limit s \<noteq> - 1 \<longrightarrow> Suc (length es) \<le> unat (files_limit s)"
      using es(2) count_limit [of "length es" "files_limit s"] by auto
    with 1 es(1) file_hdr.enc_dec [OF b(1)] show ?case by (blast intro: after_entries_snoc)
  qed
qed

lemma hoare_after_entries:
  assumes "\<And>T. list_all (entry_ok flags) es \<Longrightarrow>
      files_limit s \<noteq> 0 \<and> files_limit s \<noteq> - 1 \<longrightarrow> length es \<le> unat (files_limit s) \<Longrightarrow>
      hoare (stopped s) (unp s (word_of_nat (length es)) T {AT_FDCWD} (stream es) (crc32_buf 0 (stream es))) m Q"
  shows "hoare (stopped s) (after_entries s flags es) m Q"
  using assms unfolding hoare_def after_entries_def by blast

lemma hoare_unpack_loop:
  "hoare (stopped s) (after_entries s flags []) (unpack_loop os flags)
     (\<lambda>seen t. if seen then errno t = 0 \<and> (\<exists>es h. after_marker s flags es h t)
        else \<exists>N T d k. unp s N T {} d k t)"
proof -
  let ?I = "\<lambda>_ :: unit. \<lambda>t. \<exists>es. after_entries s flags es t"
  let ?Q = "\<lambda>seen t. if seen then errno t = 0 \<and> (\<exists>es h. after_marker s flags es h t)
        else \<exists>N T d k. unp s N T {} d k t"
  have "hoare (stopped s) (?I ()) (unpack_loop os flags) ?Q"
    unfolding unpack_loop_def
  proof (rule hoare_loop [where I = ?I], goal_cases)
    case (1 x)
    let ?P = "\<lambda>r t. case r of Inl y \<Rightarrow> ?I y t | Inr a \<Rightarrow> ?Q a t"
    show ?case
    proof (rule hoare_ex, rule hoare_after_entries, goal_cases)
      case (1 es T)
      note es = 1
      let ?n = "word_of_nat (length es) :: u64"
      let ?d = "stream es"
      show ?case
      proof (rule hoare_bnd [OF hoare_read_all_with_crc], goal_cases)
        case (1 r)
        show ?case
        proof (cases r)
          case None
          then show ?thesis 
            by (auto intro!: hoare_ret hoare_ex) (blast intro: unp_mono [where D' = "{}"])
        next
          case (Some b)
          let ?h = "decode_file_header b"
          have rest: "hoare (stopped s) (unp s ?n T {AT_FDCWD} (?d @ b) (crc32_buf (crc32_buf 0 ?d) b))
              (if namelen ?h = 0 then seq (modify (\<lambda>s. s\<lparr>errno := 0\<rparr>)) (ret (Inr True))
               else seq (modify (\<lambda>s. s\<lparr>total_files := total_files s + 1\<rparr>))
                 (bnd (gets (\<lambda>s. files_limit s \<noteq> 0 \<and> total_files s > files_limit s)) (\<lambda>over.
                  bnd (gets untrusted_namebuf) (\<lambda>namebuf.
                  if over then do_exit os EDQUOT (Some namebuf)
                  else seq (process_one_file os ?h flags) (ret (Inl ())))))) ?P"
            if len: "length b = sizeof_file_header"
          proof (rule hoare_if, goal_cases)
            case 1
            have "errno (t\<lparr>errno := 0\<rparr>) = 0 \<and> after_marker s flags es ?h (t\<lparr>errno := 0\<rparr>)"
              if "unp s ?n T {AT_FDCWD} (?d @ b) (crc32_buf (crc32_buf 0 ?d) b) t" for t
              using that 1 file_hdr.enc_dec [OF len] es by (auto intro!: after_markerI)
            then show ?case
              by (intro hoare_seq [OF hoare_modify [where Q = "\<lambda>_ t. errno t = 0 \<and> after_marker s flags es ?h t"]]
                  hoare_ret) auto
          next
            case 2
            show ?case
              by (rule hoare_post [OF hoare_one_entry [OF es len 2]]) auto
          qed
          show ?thesis unfolding Some option.case Let_def by (rule hoare_pull) (rule rest)
        qed
      qed
    qed
  qed
  then show ?thesis by (rule hoare_pre) blast
qed

section \<open>The end of the transfer\<close>


lemma start_of_transfer:
  "after_entries s flags [] (s\<lparr>total_bytes := 0, total_files := 0, crc32_sum := 0\<rparr>)"
  unfolding after_entries_def unp_def by (simp add: stream_def crc.update_Nil)


text \<open>
  What POSIX documents of error reporting: a failing call sets errno to a positive value, and
  the calls that only report a status return 0 or -1.
\<close>

fun status_call :: "syscall \<Rightarrow> bool" where
  "status_call (Syncfs f) = True"
| "status_call (Close f) = True"
| "status_call (Fchmod f m) = True"
| "status_call (Futimens f a b c d) = True"
| "status_call (Mkdirat f p m) = True"
| "status_call (Linkat f p g q m) = True"
| "status_call (Symlinkat p f q) = True"
| "status_call (Fstat f) = True"
| "status_call _ = False"

definition posix_errors :: "'w os \<Rightarrow> bool" where
  "posix_errors os \<longleftrightarrow>
     (\<forall>c w. rv (fst (os c w)) < 0 \<longrightarrow> 0 < re (fst (os c w))) \<and>
     (\<forall>c w. status_call c \<longrightarrow> rv (fst (os c w)) \<le> 0)"

definition status_message :: "int \<Rightarrow> u64 \<Rightarrow> bytes \<Rightarrow> bytes" where
  "status_message code crc name =
     encode_result_header \<lparr> error_code = word_of_int code, pad = 0, crc32 = crc \<rparr> @
     encode_result_header_ext \<lparr> last_namelen = word_of_nat (length name) \<rparr> @
     take (unat (word_of_nat (length name) :: u32)) name"

text \<open>Once a write of the status failed, whatever is written later does not matter.\<close>

lemma write_then:
  assumes "\<And>u tr. reaches t tr u \<Longrightarrow> list_all (is_write fd) (calls tr) \<Longrightarrow> written_to fd tr = buf \<Longrightarrow> Q True u"
    and "\<And>u tr. reaches t tr u \<Longrightarrow> list_all (is_write fd) (calls tr) \<Longrightarrow> write_failed fd tr \<Longrightarrow> Q False u"
  shows "wp (write_all os fd buf) Q E t"
proof (rule wp_mono [OF write_all_or_failed])
  fix ok u
  assume "\<exists>tr. reaches t tr u \<and> list_all (is_write fd) (calls tr) \<and> (if ok then written_to fd tr = buf else write_failed fd tr)"
  with assms show "Q ok u" by (cases ok) auto
qed simp

text \<open>What was done for a status: calls that read nothing, which wrote a message unless a write failed.\<close>

definition told :: "'w unpack \<Rightarrow> bytes \<Rightarrow> 'w unpack \<Rightarrow> bool" where
  "told s d u \<longleftrightarrow> (\<exists>tr. trace u = trace s @ tr \<and> read_from 0 tr = [] \<and> (write_failed 1 tr \<or> written_to 1 tr = d))"

lemma told_refl: "told s [] s"
  by (simp add: told_def)

lemma told_write:
  assumes "told s d t" and "reaches t tr u" and "list_all (is_write 1) (calls tr)"
  shows "written_to 1 tr = b \<Longrightarrow> told s (d @ b) u" "write_failed 1 tr \<Longrightarrow> told s c u"
proof -
  have r: "read_from 0 tr = []" using assms(3) by (intro no_read_from) (auto simp add: list_all_iff is_write_no_read)
  from assms(1) obtain tr0 where tr0: "trace t = trace s @ tr0" "read_from 0 tr0 = []" "write_failed 1 tr0 \<or> written_to 1 tr0 = d"
    by (auto simp add: told_def)
  then have t: "trace u = trace s @ tr0 @ tr" "read_from 0 (tr0 @ tr) = []" using reaches_trace [OF assms(2)] r by simp_all
  show "told s (d @ b) u" if "written_to 1 tr = b"
    unfolding told_def by (rule exI [of _ "tr0 @ tr"]) (use t tr0(3) that in auto)
  show "told s c u" if "write_failed 1 tr" unfolding told_def by (rule exI [of _ "tr0 @ tr"]) (use t that in auto)
qed

lemma told_other: "told s d t \<Longrightarrow> read_by 0 x = [] \<Longrightarrow> written_by 1 x = [] \<Longrightarrow> told s d (sys_upd w e [x] t)"
  unfolding told_def by fastforce

lemma told_errno [simp]: "told s d (t\<lparr>errno := e\<rparr>) \<longleftrightarrow> told s d t"
  by (simp add: told_def)

lemma send_status_delivers:
  "wp (send_status_and_crc os code (Some nm))
     (\<lambda>_ u. told t (status_message code (crc32_sum t) (c_str nm)) u \<and> errno u = errno t) E t"
proof -
  let ?h = "encode_result_header \<lparr> error_code = word_of_int code, pad = 0, crc32 = crc32_sum t \<rparr>"
  let ?n = "word_of_nat (length (c_str nm)) :: u32"
  let ?x = "encode_result_header_ext \<lparr> last_namelen = ?n \<rparr>"
  let ?b = "take (unat ?n) (c_str nm)"
  have wr: "hoare E (told t d) (write_all os 1 b) (\<lambda>_. told t (d @ b))" for d b
    by (rule hoareI, rule write_then) (blast intro: told_write)+
  have msg: "hoare E (told t d) (guarded g (say os (Stderr m))) (\<lambda>_. told t d)" for d g m
    by (simp add: hoare_def wp_simps told_other)
  have fin: "hoare E (told t d) (modify (\<lambda>s. s\<lparr>errno := errno t\<rparr>)) (\<lambda>_ u. told t d u \<and> errno u = errno t)" for d
    by (simp add: hoare_def wp_simps)
  have name: "hoare E (told t d) (bnd (write_all os 1 ?x) (\<lambda>ok. seq (guarded (\<not> ok) (say os (Stderr ''write status ext'')))
      (bnd (write_all os 1 ?b) (\<lambda>ok. guarded (\<not> ok) (say os (Stderr ''write last_filename''))))))
      (\<lambda>_. told t ((d @ ?x) @ ?b))" for d
    by (intro hoare_bnd [OF wr] hoare_seq [OF msg] msg)
  have all: "hoare E (told t []) (bnd (write_all os 1 ?h) (\<lambda>ok. seq (guarded (\<not> ok) (say os (Stderr ''write status'')))
     (seq (bnd (write_all os 1 ?x) (\<lambda>ok. seq (guarded (\<not> ok) (say os (Stderr ''write status ext'')))
        (bnd (write_all os 1 ?b) (\<lambda>ok. guarded (\<not> ok) (say os (Stderr ''write last_filename''))))))
      (modify (\<lambda>s. s\<lparr>errno := errno t\<rparr>)))))
     (\<lambda>_ u. told t ((([] @ ?h) @ ?x) @ ?b) u \<and> errno u = errno t)"
    by (intro hoare_bnd [OF wr] hoare_seq [OF msg] hoare_seq [OF name] fin)
  have flat: "status_message code (crc32_sum t) (c_str nm) = (([] @ ?h) @ ?x) @ ?b" by (simp add: status_message_def)
  have run: "wp (bnd (gets f) g) Q E u = wp (g (f u)) Q E u" for f g Q and u :: "'a unpack"
    by (simp add: wp_simps)
  show ?thesis unfolding flat send_status_and_crc_def run Let_def option.case by (rule hoareD [OF all told_refl])
qed

lemma sys_upd_upd2:
  "sys_upd w e a (sys_upd w' e' b (sys_upd w'' e'' c s)) = sys_upd w e (c @ b @ a) s"
  by simp

lemma sync_reports:
  assumes "posix_errors os"
  shows "wp (sync_and_report os)
     (\<lambda>v u. v = 0 \<longrightarrow> errno t = 0 \<and> told t (status_message 0 (crc32_sum t) (c_str (untrusted_namebuf t))) u) (\<lambda>_ _. True) t"
proof -
  let ?m = "status_message 0 (crc32_sum t) (c_str (untrusted_namebuf t))"
  have st: "wp (send_status_and_crc os (errno u) (Some (untrusted_namebuf u)))
     (\<lambda>_ u'. errno u' = 0 \<longrightarrow> errno t = 0 \<and> told t ?m u') (\<lambda>_ _. True) u"
    if u: "u = sys_upd w e tr t" "read_from 0 tr = []" "written_to 1 tr = []" "e = 0 \<longrightarrow> errno t = 0" for u w e tr
  proof (rule wp_mono [OF send_status_delivers [where t = u]], clarify)
    fix u'
    assume "told u (status_message (errno u) (crc32_sum u) (c_str (untrusted_namebuf u))) u'" "errno u' = errno u" "errno u' = 0"
    with u show "errno t = 0 \<and> told t ?m u'" by (auto simp add: told_def)
  qed simp
  have neg: "re (sys_res os c u) \<noteq> 0" if "rv (sys_res os c u) < 0" "c = Open p f \<or> c = Syncfs x \<or> c = Close x" for c u p f x
    using that assms(1) by (fastforce simp add: sys_res_def posix_errors_def split: if_splits)
  have pos: "rv (sys_res os c u) \<noteq> 0 \<Longrightarrow> rv (sys_res os c u) < 0" if "status_call c" for c u
  proof -
    have "rv (fst (os c (world u))) \<le> 0" using that assms(1) by (simp add: posix_errors_def)
    then consider "rv (fst (os c (world u))) < 0" | "rv (fst (os c (world u))) = 0" by linarith
    then show "rv (sys_res os c u) \<noteq> 0 \<Longrightarrow> rv (sys_res os c u) < 0"
      using that by cases (cases c; simp add: sys_res_def)+
  qed
  let ?r1 = "sys_res os (Open dot O_RDONLY) t"
  let ?u1 = "sys_upd (snd (os (Open dot O_RDONLY) (world t))) (re ?r1) [(Open dot O_RDONLY, ?r1)] t"
  let ?r2 = "sys_res os (Syncfs (rv ?r1)) ?u1"
  let ?u2 = "sys_upd (snd (os (Syncfs (rv ?r1)) (world ?u1))) (re ?r2) [(Syncfs (rv ?r1), ?r2)] ?u1"
  let ?r3 = "sys_res os (Close (rv ?r1)) ?u2"
  let ?u3 = "sys_upd (snd (os (Close (rv ?r1)) (world ?u2))) (re ?r3) [(Close (rv ?r1), ?r3)] ?u2"
  show ?thesis
    unfolding sync_and_report_def wp_simps split_def fst_conv snd_conv
  proof (split if_split, intro conjI impI, goal_cases)
    case 1
    show ?case
    proof (split if_split, intro conjI impI, goal_cases)
      case 1
      show ?case
      proof (split if_split, intro conjI impI, goal_cases)
        case 1
        show ?case by (rule st [of _ "world ?u3" "errno t"]) (auto simp add: sys_upd_def)
      next
        case 2
        with neg [of "Close (rv ?r1)" ?u2] pos [of "Close (rv ?r1)" ?u2] have "re ?r3 \<noteq> 0" by auto
        then show ?case by (intro st [OF sys_upd_upd2]) auto
      qed
    next
      case 2
      with neg [of "Syncfs (rv ?r1)" ?u1] pos [of "Syncfs (rv ?r1)" ?u1] have "re ?r2 \<noteq> 0" by auto
      then show ?case by (intro st [OF sys_upd_upd]) auto
    qed
  next
    case 2
    with neg [of "Open dot O_RDONLY" t] have "re ?r1 \<noteq> 0" by auto
    then show ?case by (intro st [OF refl]) auto
  qed
qed

lemma do_unpack_ext_success:
  assumes "posix_errors os"
  shows "wp (do_unpack_ext os flags)
     (\<lambda>v u. v = 0 \<longrightarrow> (\<exists>es h tr tr2 name. trace u = trace s @ tr @ tr2 \<and>
        read_from 0 (tr @ tr2) = stream es @ encode_file_header h \<and> namelen h = 0 \<and>
        list_all (entry_ok flags) es \<and>
        (files_limit s \<noteq> 0 \<and> files_limit s \<noteq> - 1 \<longrightarrow> length es \<le> unat (files_limit s)) \<and>
        (write_failed 1 tr2 \<or> written_to 1 tr2 = status_message 0 (crc32_buf 0 (stream es @ encode_file_header h)) name)))
     (\<lambda>_ _. True) s"
  unfolding do_unpack_ext_def wp_simps
proof (rule wp_mono [OF hoareD [OF hoare_unpack_loop start_of_transfer]], goal_cases)
  case (1 seen t)
  let ?t = "if \<not> seen \<and> errno t = 0 then t\<lparr>errno := EREMOTEIO\<rparr> else t"
  show ?case
  proof (rule wp_mono [OF sync_reports [OF assms, where t = ?t]], clarify, goal_cases)
    case (1 v u)
    then have e: "errno ?t = 0" and u: "told ?t (status_message 0 (crc32_sum ?t) (c_str (untrusted_namebuf ?t))) u"
      by blast+
    from e have seen: "seen" by (auto split: if_splits)
    with \<open>if seen then _ else _\<close> obtain es h where m: "after_marker s flags es h t" by auto
    let ?d = "stream es @ encode_file_header h"
    from m obtain T where "unp s (word_of_nat (length es)) T {AT_FDCWD} ?d (crc32_buf 0 ?d) t"
      by (auto simp add: after_marker_def Let_def)
    then obtain tr where tr: "trace t = trace s @ tr" "read_from 0 tr = ?d" "crc32_sum t = crc32_buf 0 ?d"
      by (auto simp add: unp_def)
    from u obtain tr2 where "trace u = trace t @ tr2" "read_from 0 tr2 = []"
      "write_failed 1 tr2 \<or> written_to 1 tr2 = status_message 0 (crc32_buf 0 ?d) (c_str (untrusted_namebuf t))"
      using seen tr(3) by (auto simp add: told_def)
    with tr have "trace u = trace s @ tr @ tr2" "read_from 0 (tr @ tr2) = ?d"
      "write_failed 1 tr2 \<or> written_to 1 tr2 = status_message 0 (crc32_buf 0 ?d) (c_str (untrusted_namebuf t))" by simp_all
    then show ?case using m unfolding after_marker_def by blast
  qed simp
qed simp

lemma do_exit_total:
  assumes "eintr_bounded os \<mu>"
  shows "\<exists>t. do_exit os code nm s = Some (Inl (Exit code), t)"
proof -
  have wr: "twp (write_all os fd buf) Q E u" if "\<And>ok u. Q ok u" for Q E fd buf u
    by (rule twp_mono [OF twpI [OF write_all_terminates [OF assms] write_all_wp]]) (use that in auto)
  have "twp (do_exit os code nm) (\<lambda>_ _. False) (\<lambda>e _. e = Exit code) s"
    unfolding do_exit_def send_status_and_crc_def
    by (cases nm) (auto simp add: wp_simps Let_def intro!: wr)
  then show ?thesis by (auto simp add: twp_def split: option.splits sum.splits)
qed

section \<open>Properties\<close>


definition fresh :: "nat unpack" where
  "fresh = \<lparr> world = 0, errno = 0, trace = [], untrusted_namebuf = [0], bytes_limit = 0, files_limit = 0,
     total_bytes = 0, total_files = 0, verbose = 0, opt_wait_for_space_margin = 0, use_tmpfile = False,
     procdir_fd = -1, crc32_sum = 0, notify_progress_func = False \<rparr>"

text \<open>An environment that delivers zero bytes: the stream is the end marker.\<close>

definition zero_os :: "nat os" where
  "zero_os c w = (\<lparr> rv = (if status_call c then 0 else 4096), re = 0, rdata = replicate 32 0,
      rstat = zero_stat, rvfs = (1, 1), rval = 0, rext = zero_ext2 \<rparr>, Suc w)"

lemma zero_os_hypotheses: "eintr_bounded zero_os (\<lambda>_. 0)" "posix_errors zero_os"
  by (simp_all add: eintr_bounded_def posix_errors_def zero_os_def)

lemma zero_os_write_all:
  "0 < length buf \<Longrightarrow> length buf \<le> 4096 \<Longrightarrow> write_all zero_os fd buf s =
     Some (Inr True, sys_upd (Suc (world s)) 0 [(Write fd buf, sys_res zero_os (Write fd buf) s)] s)"
  by (simp add: write_all_def loop.simps bnd_def sys_def sys_res_def gets_def ret_def zero_os_def Let_def)

lemma zero_os_read_all:
  "\<exists>t. read_all zero_os 0 sizeof_file_header s = Some (Inr (Some (replicate 32 0)), t)"
  by (simp add: read_all_def loop.simps bnd_def seq_def guarded_def set_block_def O_NONBLOCK_def sys_def sys_res_def
      gets_def ret_def zero_os_def Let_def sizeof_file_header_def)

lemma le_value_zero: "le_value (replicate n 0) = 0"
  by (induction n) simp_all

lemma zero_os_unpack: "\<exists>t. do_unpack_ext zero_os 3 fresh = Some (Inr 0, t)"
proof -
  have h: "namelen (decode_file_header (replicate 32 0)) = 0"
    by (simp add: decode_file_header_def le_value_zero)
  have wr: "twp (write_all zero_os fd buf) Q E u" if "\<And>ok u. Q ok u" for Q E fd buf u
    by (rule twp_mono [OF twpI [OF write_all_terminates [OF zero_os_hypotheses(1)] write_all_wp]]) (use that in auto)
  have res: "rv (sys_res zero_os (Open p f) u) = 4096" "rv (sys_res zero_os (Syncfs x) u) = 0"
    "rv (sys_res zero_os (Close x) u) = 0" "re (sys_res zero_os c u) = 0" for p f x c u
    by (simp_all add: sys_res_def zero_os_def)
  obtain t where t: "read_all zero_os 0 sizeof_file_header (fresh\<lparr>total_bytes := 0, total_files := 0, crc32_sum := 0\<rparr>) =
      Some (Inr (Some (replicate 32 0)), t)" using zero_os_read_all by blast
  have "\<exists>t. unpack_loop zero_os 3 (fresh\<lparr>total_bytes := 0, total_files := 0, crc32_sum := 0\<rparr>) = Some (Inr True, t) \<and> errno t = 0"
    unfolding unpack_loop_def loop.simps [of _ "()"] read_all_with_crc_def bnd_def t
    by (simp add: h seq_def bnd_def modify_def ret_def Let_def)
  then have "twp (do_unpack_ext zero_os 3) (\<lambda>v _. v = 0) (\<lambda>_ _. False) fresh"
    unfolding do_unpack_ext_def wp_simps
    by (auto simp add: twp_def [of "unpack_loop _ _"] sync_and_report_def send_status_and_crc_def wp_simps Let_def
        res intro!: wr)
  then show ?thesis by (auto simp add: twp_def split: option.splits sum.splits)
qed


text \<open>
  C2: When the unpacker returns 0, the bytes it consumed from standard input are exactly a
  sequence of well-formed entries with validated names followed by an end marker, their number
  respects the file limit, and the status it sent reports success with the checksum of exactly
  these bytes, unless a write of the status to standard output failed, which the unpacker only
  reports on standard error.
\<close>

theorem unpack_success:
  assumes "posix_errors os" and "do_unpack_ext os flags s = Some (Inr 0, t)"
  shows "\<exists>es h tr tr2 name. trace t = trace s @ tr @ tr2 \<and>
     read_from 0 (tr @ tr2) = stream es @ encode_file_header h \<and> namelen h = 0 \<and>
     list_all (entry_ok flags) es \<and>
     (files_limit s \<noteq> 0 \<and> files_limit s \<noteq> - 1 \<longrightarrow> length es \<le> unat (files_limit s)) \<and>
     (write_failed 1 tr2 \<or>
      written_to 1 tr2 = status_message 0 (crc32_buf 0 (stream es @ encode_file_header h)) name)"
  using wp_returns [OF do_unpack_ext_success [OF assms(1)] assms(2)] by blast

lemma unpack_success_witness:
  "\<exists>es h t tr tr2. do_unpack_ext zero_os 3 fresh = Some (Inr 0, t) \<and> trace t = tr @ tr2 \<and>
     read_from 0 (tr @ tr2) = stream es @ encode_file_header h \<and> list_all (entry_ok 3) es"
proof -
  obtain t where t: "do_unpack_ext zero_os 3 fresh = Some (Inr 0, t)" using zero_os_unpack by blast
  from unpack_success [OF zero_os_hypotheses(2) t] t show ?thesis unfolding fresh_def by auto
qed

text \<open>
  C27: A regular file is accepted under a byte limit only when the bytes counted so far and its
  length together stay within the limit, without wrap-around; it adds exactly its length to
  the count, and exactly that many bytes are consumed.
\<close>

theorem regular_file_quota:
  assumes "nul_terminated name"
    and "process_one_file_reg os hdr name (validate_flags flags) s = Some (Inr (), t)"
  shows "total_bytes t = total_bytes s + filelen hdr \<and>
     (bytes_limit s \<noteq> 0 \<longrightarrow>
        unat (total_bytes s) + unat (filelen hdr) \<le> unat (bytes_limit s) \<and>
        unat (total_bytes t) = unat (total_bytes s) + unat (filelen hdr)) \<and>
     (\<exists>tr. trace t = trace s @ tr \<and> length (read_from 0 tr) = unat (filelen hdr) \<and>
        crc32_sum t = crc32_buf (crc32_sum s) (read_from 0 tr))"
proof -
  let ?k = "crc32_sum s"
  have "unp s (total_files s) (total_bytes s) {AT_FDCWD} [] ?k s" by (simp add: unp_def)
  from wp_returns [OF hoareD [OF hoare_reg [OF assms(1)] this] assms(2)]
  obtain b where b: "unp s (total_files s) (total_bytes s + filelen hdr) {AT_FDCWD} b (crc32_buf ?k b) t"
    "length b = unat (filelen hdr)"
    and q: "bytes_limit s \<noteq> 0 \<longrightarrow> unat (total_bytes s) + unat (filelen hdr) \<le> unat (bytes_limit s)"
    by (auto simp add: reg_post_def)
  have "unat (total_bytes s + filelen hdr) = unat (total_bytes s) + unat (filelen hdr)" if "bytes_limit s \<noteq> 0"
  proof -
    have "unat (bytes_limit s) < 2 ^ 64" using unsigned_less [of "bytes_limit s"] by simp
    with q that have "unat (total_bytes s) + unat (filelen hdr) < 2 ^ 64" by linarith
    then show ?thesis by (simp add: unat_word_ariths)
  qed
  with b q show ?thesis by (auto simp add: unp_def)
qed

lemma zero_os_reg:
  "\<exists>t. process_one_file_reg zero_os
      \<lparr> namelen = 2, mode = 0x81A4, filelen = 0, atime = 0, atime_nsec = 0, mtime = 0, mtime_nsec = 0 \<rparr>
      [0x61, 0] (validate_flags 4) (fresh\<lparr>bytes_limit := 10\<rparr>) = Some (Inr (), t)"
proof -
  have v: "qubes_pure_validate_file_name_v2 [0x61, 0] (validate_flags 4) = Some 0"
    by (simp add: qubes_pure_validate_file_name_v2_def validate_path_c_str nul_terminated_def c_str_def path_spec_def
        chars_ok_def validate_flags_def flag_check_def has_flag_def flag_defs)
  have res: "rv (sys_res zero_os (Openat a b c d) u) = 4096" "rv (sys_res zero_os (Strdup b) u) = 4096"
    "rv (sys_res zero_os (Fchmod a c) u) = 0" "rv (sys_res zero_os (Futimens a c d e f) u) = 0" for a b c d e f u
    by (simp_all add: sys_res_def zero_os_def)
  have c: "copy_file zero_os n fd 0 0 k = ret (COPY_FILE_OK, k)" for n fd k
    by (simp add: fun_eq_iff copy_file_def loop.simps ret_def)
  have o: "opendir_safe zero_os AT_FDCWD [0x61] = ret (AT_FDCWD, [0x61])"
    by (simp add: fun_eq_iff opendir_safe_def loop.simps ret_def)
  have "twp (process_one_file_reg zero_os
      \<lparr> namelen = 2, mode = 0x81A4, filelen = 0, atime = 0, atime_nsec = 0, mtime = 0, mtime_nsec = 0 \<rparr>
      [0x61, 0] (validate_flags 4)) (\<lambda>_ _. True) (\<lambda>_ _. False) (fresh\<lparr>bytes_limit := 10\<rparr>)"
    by (simp add: process_one_file_reg_def checked_def v duplicate_def wp_simps res c_str_def o open_output_def
        check_quota_def c link_output_def fix_times_and_perms_def validate_utime_nsec_def S_ISLNK_def fresh_def)
  then show ?thesis by (auto simp add: twp_def split: option.splits sum.splits)
qed

lemma regular_file_quota_witness:
  "\<exists>t. process_one_file_reg zero_os
      \<lparr> namelen = 2, mode = 0x81A4, filelen = 0, atime = 0, atime_nsec = 0, mtime = 0, mtime_nsec = 0 \<rparr>
      [0x61, 0] (validate_flags 4) (fresh\<lparr>bytes_limit := 10\<rparr>) = Some (Inr (), t) \<and> total_bytes t = 0"
proof -
  obtain t where t: "process_one_file_reg zero_os
      \<lparr> namelen = 2, mode = 0x81A4, filelen = 0, atime = 0, atime_nsec = 0, mtime = 0, mtime_nsec = 0 \<rparr>
      [0x61, 0] (validate_flags 4) (fresh\<lparr>bytes_limit := 10\<rparr>) = Some (Inr (), t)" using zero_os_reg by blast
  from regular_file_quota [OF _ this] t show ?thesis by (simp add: nul_terminated_def fresh_def)
qed

text \<open>
  C28: For an invalid name the two handlers exit with opposite signs: a regular file with the
  positive errno value, a directory with the negated one, which reaches the sender as an
  unknown error code.
\<close>

theorem directory_exit_code_negated:
  assumes "eintr_bounded os \<mu>" and "qubes_pure_validate_file_name_v2 name flags = Some v" and "v \<noteq> 0"
  shows "\<exists>t u. v < 0 \<and> process_one_file_dir os hdr name flags s = Some (Inl (Exit v), t) \<and>
     process_one_file_reg os hdr name flags s = Some (Inl (Exit (- v)), u)"
proof -
  have "v < 0" using assms(2,3)
    by (auto simp add: qubes_pure_validate_file_name_v2_def bind_eq_Some_conv split: if_splits)
  moreover obtain t where "do_exit os v (Some name) s = Some (Inl (Exit v) :: stop + unit, t)"
    using do_exit_total [OF assms(1)] by blast
  moreover obtain u where "do_exit os (- v) (Some name) s = Some (Inl (Exit (- v)) :: stop + unit, u)"
    using do_exit_total [OF assms(1)] by blast
  ultimately show ?thesis
    using assms(2,3)
    by (simp add: process_one_file_dir_def process_one_file_reg_def checked_def bnd_def [of "ret v"] ret_def)
qed

lemma directory_exit_code_negated_witness:
  "\<exists>t u. process_one_file_dir zero_os (decode_file_header []) [0x2F, 0] 1 fresh = Some (Inl (Exit (- 84)), t) \<and>
     process_one_file_reg zero_os (decode_file_header []) [0x2F, 0] 1 fresh = Some (Inl (Exit 84), u)"
proof -
  have "qubes_pure_validate_file_name_v2 [0x2F, 0] 1 = Some (- EILSEQ)"
    by (simp add: qubes_pure_validate_file_name_v2_def validate_path_def flag_check_def flag_defs)
  from directory_exit_code_negated [OF zero_os_hypotheses(1) this, of "decode_file_header []" fresh] show ?thesis by simp
qed

end
