(* ===== verification/Pack.thy ===== *)
theory Pack
  imports File_Io Filecopy_Format
begin

text \<open>
  The sending side of file copy, \<open>src/qrexec-lib/pack.c\<close>.  The file-scope variables are the
  record \<open>pack\<close>, which extends the state of the system-call layer; each C function is one
  program.  \<open>error_handler\<close> and \<open>notify_progress_func\<close> record whether the client registered a
  callback, which is then a call answered by the environment.  A read outside a buffer is
  \<open>Abort\<close>.  The recursion of \<open>do_fs_walk\<close> carries its nesting depth as fuel; running out of it
  is the value \<open>None\<close>, as for a program that does not return.
\<close>

unbundle bit_operations_syntax

section \<open>State\<close>

record 'w pack = "'w sys" +
  crc32_sum :: u64
  ignore_quota_error :: bool
  error_handler :: bool
  notify_progress_func :: bool

definition register_error_handler :: "bool \<Rightarrow> ('w pack, unit) prog" where
  "register_error_handler value = modify (\<lambda>s. s\<lparr>error_handler := value\<rparr>)"

definition set_ignore_quota_error :: "bool \<Rightarrow> ('w pack, unit) prog" where
  "set_ignore_quota_error value = modify (\<lambda>s. s\<lparr>ignore_quota_error := value\<rparr>)"

definition SIGPIPE :: int where "SIGPIPE = 13"

definition qfile_pack_init :: "'w os \<Rightarrow> ('w pack, unit) prog" where
  "qfile_pack_init os =
     seq (modify (\<lambda>s. s\<lparr>crc32_sum := 0, ignore_quota_error := False\<rparr>))
     (seq (set_nonblock os 0)
     (bnd (sys os (Signal_ignore SIGPIPE)) (\<lambda>_.
     modify (\<lambda>s. s\<lparr>error_handler := False\<rparr>))))"

section \<open>Errors\<close>

text \<open>The arguments of a message are its strings; the text of \<open>strerror\<close> is not among them.\<close>

definition call_error_handler :: "'w os \<Rightarrow> string \<Rightarrow> bytes list \<Rightarrow> ('w pack, 'a) prog" where
  "call_error_handler os fmt args =
     bnd (gets error_handler) (\<lambda>registered.
     seq (if registered then bnd (sys os (Error_handler fmt args)) (\<lambda>_. ret ())
          else say os (Stderr fmt))
     (halt (Exit 1)))"

definition write_all_with_crc :: "'w os \<Rightarrow> fd \<Rightarrow> bytes \<Rightarrow> int \<Rightarrow> ('w pack, bool) prog" where
  "write_all_with_crc os fd buf len =
     (if len < 0 \<or> length buf < nat len then halt Abort
      else
        let data = take (nat len) buf in
        seq (modify (\<lambda>s. s\<lparr>crc32_sum := crc32_buf (crc32_sum s) data\<rparr>))
        (write_all os fd data))"

section \<open>The receiver's verdict\<close>

definition sanitize_byte :: "u8 \<Rightarrow> u8" where
  "sanitize_byte c = (if c < 0x20 \<or> c > 0x7E \<or> c = 0x22 then 0x5F else c)"

fun sanitize_remote_filename :: "bytes \<Rightarrow> bytes" where
  "sanitize_remote_filename [] = []"
| "sanitize_remote_filename (c # cs) =
     (if c = 0 then c # cs else sanitize_byte c # sanitize_remote_filename cs)"

text \<open>The \<open>switch\<close> on a non-zero error code: \<open>True\<close> when \<open>wait_for_result\<close> returns at once.\<close>

definition report_error :: "'w os \<Rightarrow> int \<Rightarrow> bytes \<Rightarrow> bytes \<Rightarrow> ('w pack, bool) prog" where
  "report_error os code name_prefix last_filename =
     (if code = EEXIST then
        call_error_handler os ''A file named \"%s\" already exists in QubesIncoming dir'' [last_filename]
      else if code = EINVAL then
        call_error_handler os ''File copy: Corrupted data from packer%s\"%s\"'' [name_prefix, last_filename]
      else if code = EILSEQ then
        call_error_handler os
          ''Forbidden character in file or link target. Name might look somewhat like \"%s\"'' [last_filename]
      else if code = ENOLINK then
        call_error_handler os ''Cannot verify that link at \"%s\" would not be broken by copy'' [last_filename]
      else
        bnd (gets ignore_quota_error) (\<lambda>ignore.
          if code = EDQUOT \<and> ignore then ret True
          else call_error_handler os ''File copy: \"%s%s%s\"'' [name_prefix, last_filename]))"

definition last_file_prefix :: bytes where
  "last_file_prefix = map (of_char :: char \<Rightarrow> u8) ''; Last file: ''"

text \<open>The end of \<open>wait_for_result\<close>: \<open>buf\<close> is the name of the last file as received.\<close>

definition judge_result :: "'w os \<Rightarrow> result_header \<Rightarrow> bytes \<Rightarrow> ('w pack, unit) prog" where
  "judge_result os hdr buf =
     (let name_prefix = (if buf = [] then [] else last_file_prefix);
          last_filename = c_str (sanitize_remote_filename (buf @ [0])) in
      seq (modify (\<lambda>s. s\<lparr>errno := sint (error_code hdr)\<rparr>))
      (bnd (if error_code hdr \<noteq> 0 then report_error os (uint (error_code hdr)) name_prefix last_filename
            else ret False)
         (\<lambda>return_now.
       if return_now then ret ()
       else
         bnd (gets crc32_sum) (\<lambda>crc.
         guarded (crc32 hdr \<noteq> crc)
           (call_error_handler os ''File transfer failed: checksum mismatch'' [])))))"

definition wait_for_result :: "'w os \<Rightarrow> ('w pack, unit) prog" where
  "wait_for_result os =
     bnd (read_all os 0 sizeof_result_header) (\<lambda>d. case d of
       None \<Rightarrow>
         bnd (gets errno) (\<lambda>e. if e = EAGAIN then ret () else halt (Exit 1))
     | Some b \<Rightarrow>
         bnd (read_all os 0 sizeof_result_header_ext) (\<lambda>d.
         let len = (case d of None \<Rightarrow> 0 | Some x \<Rightarrow> unat (last_namelen (decode_result_header_ext x)));
             len = (if len > MAX_PATH_LENGTH then MAX_PATH_LENGTH else len) in
         bnd (read_all os 0 len) (\<lambda>d.
         seq (guarded (d = None) (say os (Stderr ''Failed to get last filename'')))
         (judge_result os (decode_result_header b) (case d of None \<Rightarrow> [] | Some x \<Rightarrow> x)))))"

definition notify_end_and_wait_for_result :: "'w os \<Rightarrow> ('w pack, unit) prog" where
  "notify_end_and_wait_for_result os =
     bnd (write_all_with_crc os 1 (encode_file_header
            \<lparr> namelen = 0, mode = 0, filelen = 0, atime = 0, atime_nsec = 0, mtime = 0, mtime_nsec = 0 \<rparr>)
            (int sizeof_file_header)) (\<lambda>_.
     seq (set_block os 0)
     (wait_for_result os))"

section \<open>Entries\<close>

text \<open>After a failed write: \<open>set_block(0); wait_for_result(); exit(1)\<close>.\<close>

definition give_up :: "'w os \<Rightarrow> ('w pack, unit) prog" where
  "give_up os = seq (set_block os 0) (seq (wait_for_result os) (halt (Exit 1)))"

definition write_headers :: "'w os \<Rightarrow> file_header \<Rightarrow> bytes \<Rightarrow> ('w pack, unit) prog" where
  "write_headers os hdr filename =
     bnd (write_all_with_crc os 1 (encode_file_header hdr) (int sizeof_file_header)) (\<lambda>ok.
       if \<not> ok then give_up os
       else
         bnd (write_all_with_crc os 1 (filename @ [0]) (sint (namelen hdr))) (\<lambda>ok.
         guarded (\<not> ok) (give_up os)))"

definition copy_file_with_crc :: "'w os \<Rightarrow> fd \<Rightarrow> fd \<Rightarrow> int \<Rightarrow> ('w pack, copy_status) prog" where
  "copy_file_with_crc os outfd infd len =
     bnd (gets (\<lambda>s. (notify_progress_func s, crc32_sum s))) (\<lambda>(notify, crc).
     bnd (copy_file os notify outfd infd len (Some crc)) (\<lambda>(st, crc').
     seq (modify (\<lambda>s. s\<lparr>crc32_sum := the crc'\<rparr>))
     (ret st)))"

definition header_of :: "bytes \<Rightarrow> stat \<Rightarrow> file_header" where
  "header_of filename st =
     \<lparr> namelen = word_of_nat (length filename) + 1, mode = st_mode st, filelen = 0,
       atime = ucast (st_atim_sec st), atime_nsec = ucast (st_atim_nsec st),
       mtime = ucast (st_mtim_sec st), mtime_nsec = ucast (st_mtim_nsec st) \<rparr>"

text \<open>\<open>filename\<close> is the string without its terminator.\<close>

definition send_regular :: "'w os \<Rightarrow> file_header \<Rightarrow> bytes \<Rightarrow> stat \<Rightarrow> ('w pack, unit) prog" where
  "send_regular os hdr filename st =
     bnd (sys os (Open filename O_RDONLY)) (\<lambda>r.
       if rv r < 0 then call_error_handler os ''open %s'' [filename]
       else
         let hdr = hdr\<lparr>filelen := st_size st\<rparr> in
         seq (write_headers os hdr filename)
         (bnd (copy_file_with_crc os 1 (rv r) (sint (filelen hdr))) (\<lambda>ret_code.
          seq (if ret_code \<noteq> COPY_FILE_OK then
                 (if ret_code \<noteq> COPY_FILE_WRITE_ERROR then
                    call_error_handler os (''Copying file %s: '' @ copy_file_status_to_str (Some ret_code)) [filename]
                  else give_up os)
               else ret ())
          (bnd (sys os (Close (rv r))) (\<lambda>_. ret ())))))"

definition send_link :: "'w os \<Rightarrow> file_header \<Rightarrow> bytes \<Rightarrow> stat \<Rightarrow> ('w pack, unit) prog" where
  "send_link os hdr filename st =
     bnd (sys os (Readlink filename (unat (st_size st) + 1))) (\<lambda>r.
       if rv r \<noteq> sint (st_size st) then call_error_handler os ''readlink %s'' [filename]
       else
         seq (write_headers os (hdr\<lparr>filelen := st_size st\<rparr>) filename)
         (bnd (write_all_with_crc os 1 (rdata r) (sint (ucast (st_size st) :: u32))) (\<lambda>ok.
          guarded (\<not> ok) (give_up os))))"

definition single_file_processor :: "'w os \<Rightarrow> bytes \<Rightarrow> stat \<Rightarrow> ('w pack, unit) prog" where
  "single_file_processor os filename st =
     (let hdr = header_of filename st; mode = st_mode st in
      seq (guarded (S_ISREG mode) (send_regular os hdr filename st))
     (seq (guarded (S_ISDIR mode) (write_headers os (hdr\<lparr>filelen := 0\<rparr>) filename))
     (seq (guarded (S_ISLNK mode) (send_link os hdr filename st))
     (wait_for_result os))))"

section \<open>Directory trees\<close>

definition dot_name :: bytes where "dot_name = [0x2E]"
definition dotdot_name :: bytes where "dotdot_name = [0x2E, 0x2E]"

text \<open>The \<open>while\<close> loop over the members of a directory, with the recursive call as \<open>walk\<close>.\<close>

definition walk_members :: "'w os \<Rightarrow> (bytes \<Rightarrow> ('w pack, unit) prog) \<Rightarrow> fd \<Rightarrow> bytes \<Rightarrow> ('w pack, unit) prog" where
  "walk_members os walk dir path =
     loop (\<lambda>_ :: unit.
       bnd (sys os (Readdir dir)) (\<lambda>ent.
         if rv ent < 0 then ret (Inr ())
         else
           let fname = c_str (rdata ent @ [0]) in
           if fname = dot_name \<or> fname = dotdot_name then ret (Inl ())
           else
             let newfile = path @ [0x2F] @ fname in
             bnd (sys os (Asprintf newfile)) (\<lambda>a.
               if rv a \<ge> 0 then seq (walk newfile) (ret (Inl ()))
               else seq (say os (Stderr ''asprintf failed'')) (halt (Exit 1))))) ()"

primrec do_fs_walk :: "nat \<Rightarrow> 'w os \<Rightarrow> bytes \<Rightarrow> bool \<Rightarrow> ('w pack, unit) prog" where
  "do_fs_walk 0 os path ignore_symlinks = (\<lambda>s. None)"
| "do_fs_walk (Suc depth) os path ignore_symlinks =
     bnd (sys os (Lstat path)) (\<lambda>r.
       if rv r \<noteq> 0 then call_error_handler os ''stat %s'' [path]
       else
         let st = rstat r in
         if S_ISLNK (st_mode st) \<and> ignore_symlinks then ret ()
         else
           seq (single_file_processor os path st)
           (if \<not> S_ISDIR (st_mode st) then ret ()
            else
              bnd (sys os (Opendir path)) (\<lambda>d.
                if rv d < 0 then call_error_handler os ''opendir %s'' [path]
                else
                  seq (walk_members os (\<lambda>newfile. do_fs_walk depth os newfile ignore_symlinks) (rv d) path)
                  (bnd (sys os (Closedir (rv d))) (\<lambda>_.
                   single_file_processor os path st)))))"

end
