(* ===== verification/Pack_Props.thy ===== *)
theory Pack_Props
  imports Pack
begin

text \<open>
  What the packer of \<open>Pack\<close> does, for every behaviour of the environment.  The calls of a walk
  are a sentence of a grammar: which file is looked at, opened and listed, what is written and
  when the verdict is asked for; the entries sent are determined by the answers.  The packer
  keeps the checksum of the bytes it wrote, and accepts only certain verdicts of the receiver.
  The walk over a directory tree is shown to return.
\<close>

unbundle bit_operations_syntax

section \<open>Stops\<close>

text \<open>The packer ends its process only with status 1.\<close>

definition exits1 :: "stop \<Rightarrow> 's \<Rightarrow> bool" where
  "exits1 e t \<longleftrightarrow> e = Exit 1"

lemma pack_sys_upd [simp]:
  "crc32_sum (sys_upd w e tr s) = crc32_sum s" "ignore_quota_error (sys_upd w e tr s) = ignore_quota_error s"
  "error_handler (sys_upd w e tr s) = error_handler s"
  "notify_progress_func (sys_upd w e tr s) = notify_progress_func s"
  by (simp_all add: sys_upd_def)

lemma hoare_error: "hoare exits1 P (call_error_handler os fmt args) Q"
  by (simp add: call_error_handler_def hoare_def wp_simps exits1_def)

section \<open>The verdict\<close>

text \<open>What \<open>wait_for_result\<close> accepts, in terms of the bytes \<open>i\<close> it read.\<close>

definition accepted :: "bool \<Rightarrow> u64 \<Rightarrow> bytes \<Rightarrow> bool" where
  "accepted ignore crc i \<longleftrightarrow>
     (\<exists>hdr rest. i = encode_result_header hdr @ rest \<and>
        (error_code hdr = 0 \<and> crc32 hdr = crc \<or> uint (error_code hdr) = EDQUOT \<and> ignore))"

lemma read_inv_append:
  assumes "read_inv fd s i t" and "read_inv fd t j u"
  shows "read_inv fd s (i @ j) u"
proof -
  from assms obtain tr tr' where "reaches s tr t" "reaches t tr' u" "list_all (is_read fd) (calls tr)"
    "list_all (is_read fd) (calls tr')" "read_from fd tr = i" "read_from fd tr' = j"
    by (auto simp add: read_inv_def)
  then show ?thesis unfolding read_inv_def by (intro exI [of _ "tr @ tr'"]) (auto intro: reaches_trans)
qed

lemma hoare_read_all:
  "hoare E (read_inv fd s i) (read_all os fd n)
     (\<lambda>d t. case d of Some b \<Rightarrow> length b = n \<and> read_inv fd s (i @ b) t
        | None \<Rightarrow> \<exists>j. length j < n \<and> read_inv fd s (i @ j) t)"
proof (rule hoareI, rule wp_mono [OF read_all_wp], goal_cases)
  case (1 t d u)
  then show ?case by (auto split: option.splits intro: read_inv_append)
qed simp

lemma read_inv_sel:
  "read_inv fd s i t \<Longrightarrow> crc32_sum t = crc32_sum s \<and> ignore_quota_error t = ignore_quota_error s"
  by (auto simp add: read_inv_def reaches_def) (metis pack_sys_upd)+

lemma hoare_report_error:
  "hoare exits1 (read_inv 0 s i) (report_error os code p n)
     (\<lambda>b t. read_inv 0 s i t \<and> (b \<and> code = EDQUOT \<and> ignore_quota_error s))"
  unfolding report_error_def
  by (intro hoare_if hoare_error hoare_gets_bnd [where x = "ignore_quota_error s"])
    (auto simp add: read_inv_sel intro!: hoare_ret hoare_error)

text \<open>The outcome when the bytes \<open>i\<close> were read since \<open>s\<close>.\<close>

definition verdict :: "'w pack \<Rightarrow> 'w pack \<Rightarrow> bool" where
  "verdict s t \<longleftrightarrow> (\<exists>i. read_inv 0 s i t \<and>
     (errno t = EAGAIN \<and> length i < sizeof_result_header \<or>
      accepted (ignore_quota_error s) (crc32_sum s) i))"

lemma hoare_judge_result:
  assumes "i = encode_result_header hdr @ rest"
  shows "hoare exits1 (read_inv 0 s i) (judge_result os hdr buf) (\<lambda>_. verdict s)"
proof -
  let ?R = "\<lambda>b t. read_inv 0 s i t \<and> (if error_code hdr = 0 then \<not> b
        else b \<and> uint (error_code hdr) = EDQUOT \<and> ignore_quota_error s)"
  have 1: "hoare exits1 (read_inv 0 s i)
      (if error_code hdr \<noteq> 0 then report_error os (uint (error_code hdr)) p n else ret False) ?R" for p n
    by (rule hoare_if) (auto intro!: hoare_ret hoare_post [OF hoare_report_error])
  have 2: "hoare exits1 (?R b) (if b then ret ()
      else bnd (gets crc32_sum) (\<lambda>crc. guarded (crc32 hdr \<noteq> crc)
          (call_error_handler os ''File transfer failed: checksum mismatch'' []))) (\<lambda>_. verdict s)" for b
    by (intro hoare_if hoare_pull hoare_gets_bnd [where x = "crc32_sum s"] hoare_ret hoare_guarded hoare_error)
      (auto simp add: verdict_def accepted_def assms read_inv_sel split: if_splits)
  show ?thesis unfolding judge_result_def Let_def
    by (intro hoare_seq [where R = "read_inv 0 s i"] hoare_bnd [OF 1 2] hoare_modify) (rule read_inv_errno)
qed

lemma hoare_wait_for_result:
  "hoare exits1 (read_inv 0 s []) (wait_for_result os) (\<lambda>_. verdict s)"
  unfolding wait_for_result_def
proof (rule hoare_bnd [OF hoare_read_all], goal_cases)
  case (1 d)
  let ?I = "\<lambda>b t. \<exists>rest. read_inv 0 s (b @ rest) t"
  have more: "hoare exits1 (?I b) (read_all os 0 n) (\<lambda>_. ?I b)" for b n
    by (intro hoare_ex hoare_post [OF hoare_read_all]) (auto split: option.splits)
  have msg: "hoare exits1 (?I b) (guarded g (say os (Stderr m))) (\<lambda>_. ?I b)" for b g m
    using read_inv_other [of 0 s _ _ "Stderr m"]
    by (intro keep_guarded) (simp add: hoare_def wp_simps, blast)
  have judge: "hoare exits1 (?I b) (judge_result os (decode_result_header b) buf) (\<lambda>_. verdict s)"
    if "length b = sizeof_result_header" for b buf
    using that by (intro hoare_ex hoare_judge_result) (simp add: result_hdr.enc_dec)
  show ?case
  proof (cases d)
    case None
    then show ?thesis by (auto simp add: hoare_def wp_simps exits1_def verdict_def)
  next
    case (Some b)
    have "hoare exits1 (\<lambda>t. ?I b t \<and> length b = sizeof_result_header)
         (bnd (read_all os 0 sizeof_result_header_ext) (\<lambda>d.
         let len = (case d of None \<Rightarrow> 0 | Some x \<Rightarrow> unat (last_namelen (decode_result_header_ext x)));
             len = (if len > MAX_PATH_LENGTH then MAX_PATH_LENGTH else len) in
         bnd (read_all os 0 len) (\<lambda>d.
         seq (guarded (d = None) (say os (Stderr ''Failed to get last filename'')))
         (judge_result os (decode_result_header b) (case d of None \<Rightarrow> [] | Some x \<Rightarrow> x))))) (\<lambda>_. verdict s)"
      unfolding Let_def
      by (intro hoare_pull hoare_bnd [OF more] hoare_seq [OF msg] judge)
    then show ?thesis unfolding Some option.case
      by (rule hoare_pre) (auto intro: exI [of _ "[]"])
  qed
qed

section \<open>Steps\<close>

text \<open>
  Since state \<open>s\<close> the calls \<open>tr\<close> were made, and the checksum is the one of the bytes they
  wrote to standard output.
\<close>

definition so_far :: "'w pack \<Rightarrow> (syscall \<times> response) list \<Rightarrow> 'w pack \<Rightarrow> bool" where
  "so_far s tr t \<longleftrightarrow> trace t = trace s @ tr \<and> crc32_sum t = crc32_buf (crc32_sum s) (written_to 1 tr) \<and>
     ignore_quota_error t = ignore_quota_error s"

text \<open>A program adds calls that satisfy \<open>P\<close>, together with its result.\<close>

definition adds :: "('w pack, 'a) prog \<Rightarrow> ('a \<Rightarrow> (syscall \<times> response) list \<Rightarrow> bool) \<Rightarrow> bool" where
  "adds m P \<longleftrightarrow> (\<forall>s tr. hoare exits1 (so_far s tr) m (\<lambda>x t. \<exists>w. P x w \<and> so_far s (tr @ w) t))"

named_theorems adds_intros \<open>programs that add calls\<close>

lemma so_far_refl: "so_far s [] s"
  by (simp add: so_far_def crc.update_Nil)

lemma so_far_reaches:
  assumes "so_far s tr t" and "reaches t w u" and "written_to 1 w = []"
  shows "so_far s (tr @ w) u"
proof -
  have "u = sys_upd (world u) (errno u) w t" using assms(2) by (simp add: reaches_def)
  moreover have "so_far s (tr @ w) (sys_upd v e w t)" for v e using assms(1,3) by (simp add: so_far_def)
  ultimately show ?thesis by metis
qed

lemma so_far_call: "so_far s tr t \<Longrightarrow> written_by 1 (c, r) = [] \<Longrightarrow> so_far s (tr @ [(c, r)]) (sys_upd w e [(c, r)] t)"
  by (simp add: so_far_def)

lemma addsI:
  "(\<And>s tr t. so_far s tr t \<Longrightarrow> wp m (\<lambda>x u. \<exists>w. P x w \<and> so_far s (tr @ w) u) exits1 t) \<Longrightarrow> adds m P"
  unfolding adds_def by (intro allI hoareI)

lemma addsD: "adds m P \<Longrightarrow> so_far s tr t \<Longrightarrow> wp m (\<lambda>x u. \<exists>w. P x w \<and> so_far s (tr @ w) u) exits1 t"
  unfolding adds_def by (blast intro: hoareD)

lemma adds_ret [adds_intros]: "P x [] \<Longrightarrow> adds (ret x) P"
  by (rule addsI) (auto simp add: wp_simps intro: exI [of _ "[]"])

lemma adds_bnd:
  assumes "adds m P" and "\<And>x w. P x w \<Longrightarrow> adds (f x) (\<lambda>y w'. Q y (w @ w'))"
  shows "adds (bnd m f) Q"
proof (rule addsI, unfold wp_simps, rule wp_mono [OF addsD [OF assms(1)]], assumption, goal_cases)
  case (1 s tr t x u)
  then obtain w where w: "P x w" "so_far s (tr @ w) u" by blast
  show ?case by (rule wp_mono [OF addsD [OF assms(2) [OF w(1)] w(2)]]) (auto intro: exI [of _ "w @ w'" for w'])
qed

lemma adds_seq: "adds m P \<Longrightarrow> (\<And>w. P () w \<Longrightarrow> adds n (\<lambda>y w'. Q y (w @ w'))) \<Longrightarrow> adds (seq m n) Q"
  unfolding seq_def by (erule adds_bnd) simp

lemma adds_post: "adds m P \<Longrightarrow> (\<And>x w. P x w \<Longrightarrow> Q x w) \<Longrightarrow> adds m Q"
  unfolding adds_def by (blast intro: hoare_post)

lemma adds_cases [adds_intros]:
  "(b \<Longrightarrow> adds m Q) \<Longrightarrow> (\<not> b \<Longrightarrow> adds n Q) \<Longrightarrow> adds (if b then m else n) Q"
  by simp

lemma adds_guarded: "(b \<Longrightarrow> adds m P) \<Longrightarrow> (\<not> b \<Longrightarrow> P () []) \<Longrightarrow> adds (guarded b m) P"
  by (simp add: guarded_def adds_ret)

lemma adds_sys_bnd:
  fixes f :: "response \<Rightarrow> ('w pack, 'a) prog"
  assumes "\<And>r. written_by 1 (c, r) = []"
    and "\<And>u :: 'w pack. adds (f (sys_res os c u)) (\<lambda>y w. Q y ((c, sys_res os c u) # w))"
  shows "adds (bnd (sys os c) f) Q"
proof (rule addsI, unfold wp_simps)
  fix s t :: "'w pack" and tr
  assume "so_far s tr t"
  from addsD [OF assms(2) so_far_call [OF this assms(1)]]
  show "wp (f (sys_res os c t)) (\<lambda>x u. \<exists>w. Q x w \<and> so_far s (tr @ w) u) exits1
     (sys_upd (snd (os c (world t))) (re (sys_res os c t)) [(c, sys_res os c t)] t)"
    by (rule wp_mono) fastforce+
qed

lemma adds_loop:
  fixes body :: "'x \<Rightarrow> ('w pack, 'x + 'a) prog"
  assumes init: "I x []" and step: "\<And>x w. I x w \<Longrightarrow>
      adds (body x) (\<lambda>r w'. case r of Inl y \<Rightarrow> I y (w @ w') | Inr a \<Rightarrow> Q a (w @ w'))"
  shows "adds (loop body x) Q"
proof (rule addsI)
  fix s t :: "'w pack" and tr
  assume t: "so_far s tr t"
  show "wp (loop body x) (\<lambda>a u. \<exists>w. Q a w \<and> so_far s (tr @ w) u) exits1 t"
  proof (rule loop_wp [where I = "\<lambda>x t. \<exists>w. I x w \<and> so_far s (tr @ w) t"])
    show "\<exists>w. I x w \<and> so_far s (tr @ w) t" using init t by (auto intro: exI [of _ "[]"])
  next
    fix y u
    assume "\<exists>w. I y w \<and> so_far s (tr @ w) u"
    then obtain w where w: "I y w" "so_far s (tr @ w) u" by blast
    from addsD [OF step [OF w(1)] w(2)]
    show "wp (body y) (\<lambda>r v. case r of Inl z \<Rightarrow> \<exists>w. I z w \<and> so_far s (tr @ w) v
        | Inr a \<Rightarrow> \<exists>w. Q a w \<and> so_far s (tr @ w) v) exits1 u"
    proof (rule wp_mono)
      fix r v
      assume "\<exists>w'. (case r of Inl z \<Rightarrow> I z (w @ w') | Inr a \<Rightarrow> Q a (w @ w')) \<and> so_far s ((tr @ w) @ w') v"
      then show "case r of Inl z \<Rightarrow> \<exists>w. I z w \<and> so_far s (tr @ w) v | Inr a \<Rightarrow> \<exists>w. Q a w \<and> so_far s (tr @ w) v"
        by (cases r) (auto intro: exI [of _ "w @ w'" for w'])
    qed simp
  qed
qed

text \<open>A program that does not return, wherever it starts.\<close>

definition lost :: "('w pack, 'a) prog \<Rightarrow> bool" where
  "lost m \<longleftrightarrow> hoare exits1 (\<lambda>_. True) m (\<lambda>_ _. False)"

lemma adds_lost: "lost m \<Longrightarrow> adds m P"
  unfolding lost_def by (rule addsI, drule hoareD, rule TrueI, erule wp_mono) simp_all

lemma lost_basic: "lost (halt (Exit 1))" "lost (call_error_handler os fmt args)"
  by (simp_all add: lost_def hoare_error) (simp add: hoare_def wp_simps exits1_def)

lemma lost_seq: "lost m \<Longrightarrow> lost (seq m n)"
  unfolding lost_def by (rule hoare_seq [where R = "\<lambda>_. False"]) (simp_all add: hoare_False)

lemma adds_stop [adds_intros]:
  "adds (halt (Exit 1)) P" "adds (call_error_handler os fmt args) P" "adds (seq (say os c) (halt (Exit 1))) P"
  by (simp_all add: adds_lost lost_basic) (simp add: adds_def hoare_def wp_simps exits1_def)

text \<open>Waiting for the verdict adds reads of standard input, which write nothing.\<close>

abbreviation asks :: "(syscall \<times> response) list \<Rightarrow> bool" where
  "asks w \<equiv> list_all (is_read 0) (calls w)"

lemma asks_written: "asks w \<Longrightarrow> written_to 1 w = []"
proof -
  have "no_write 1 c" if "is_read 0 c" for c using that by (cases c) (auto simp add: no_write_def)
  then show "asks w \<Longrightarrow> written_to 1 w = []" by (intro no_written_to) (auto simp add: list_all_iff)
qed

lemma adds_wait_for_result: "adds (wait_for_result os) (\<lambda>_. asks)"
proof (rule addsI, rule wp_mono [OF hoareD [OF hoare_wait_for_result read_inv_refl]], goal_cases)
  case (1 s tr t x u)
  from 1(2) obtain w where "reaches t w u" "asks w" by (auto simp add: verdict_def read_inv_def)
  with so_far_reaches [OF 1(1)] show ?case by (blast intro: asks_written)
qed

lemma lost_give_up: "lost (give_up os)"
proof -
  have "hoare exits1 (\<lambda>_. True) (wait_for_result os) (\<lambda>_ _. True)"
    by (rule hoareI, rule wp_mono [OF hoareD [OF hoare_wait_for_result read_inv_refl]]) simp_all
  then show ?thesis unfolding lost_def give_up_def set_block_def Let_def
    by (intro hoare_seq [where R = "\<lambda>_. True"]) (auto simp add: hoare_def wp_simps exits1_def)
qed

section \<open>Writing\<close>

abbreviation writes :: "(syscall \<times> response) list \<Rightarrow> bool" where
  "writes w \<equiv> list_all (is_write 1) (calls w)"

lemma writes_read: "writes w \<Longrightarrow> read_from fd w = []"
  by (rule no_read_from) (auto simp add: list_all_iff is_write_no_read)

lemma adds_write_bnd:
  fixes os :: "'w os"
  assumes len: "0 \<le> len" "nat len \<le> length buf" and failed: "lost (f False)"
    and ok: "\<And>w. writes w \<Longrightarrow> written_to 1 w = take (nat len) buf \<Longrightarrow> adds (f True) (\<lambda>y w'. Q y (w @ w'))"
  shows "adds (bnd (write_all_with_crc os 1 buf len) f) Q"
proof (rule addsI)
  let ?b = "take (nat len) buf"
  fix s t :: "'w pack" and tr
  assume t: "so_far s tr t"
  let ?t = "t\<lparr>crc32_sum := crc32_buf (crc32_sum t) ?b\<rparr>"
  have "wp (write_all os 1 ?b) (\<lambda>ok. wp (f ok) (\<lambda>x u. \<exists>w. Q x w \<and> so_far s (tr @ w) u) exits1) exits1 ?t"
  proof (rule wp_mono [OF write_all_or_failed])
    fix r u
    assume "\<exists>w. reaches ?t w u \<and> writes w \<and> (if r then written_to 1 w = ?b else write_failed 1 w)"
    then obtain w where w: "reaches ?t w u" "writes w" "if r then written_to 1 w = ?b else write_failed 1 w" by blast
    show "wp (f r) (\<lambda>x u. \<exists>w. Q x w \<and> so_far s (tr @ w) u) exits1 u"
    proof (cases r)
      case True
      have "u = sys_upd (world u) (errno u) w ?t" using w(1) by (simp add: reaches_def)
      moreover have "so_far s (tr @ w) (sys_upd v e w ?t)" for v e
        using t w(3) True by (simp add: so_far_def crc.update_append)
      ultimately have "so_far s (tr @ w) u" by metis
      from addsD [OF ok [OF w(2)] this] show ?thesis
        using True w(3) by (auto elim!: wp_mono intro: exI [of _ "w @ w'" for w'])
    next
      case False
      with failed show ?thesis unfolding lost_def by (auto dest!: hoareD elim: wp_mono)
    qed
  qed simp
  then show "wp (bnd (write_all_with_crc os 1 buf len) f) (\<lambda>x u. \<exists>w. Q x w \<and> so_far s (tr @ w) u) exits1 t"
    using len by (simp add: write_all_with_crc_def Let_def wp_simps not_less)
qed

lemma lost_give_up_if: "lost (guarded (\<not> False) (give_up os))"
  by (simp add: guarded_def lost_give_up)

section \<open>Entries\<close>

lemma unat_namelen:
  assumes "length name < 2 ^ 31 - 1"
  shows "unat (word_of_nat (length name) + 1 :: u32) = length name + 1"
    "nat (sint (word_of_nat (length name) + 1 :: u32)) = length name + 1"
    "0 \<le> sint (word_of_nat (length name) + 1 :: u32)"
proof -
  let ?n = "word_of_nat (length name + 1) :: u32"
  have n: "word_of_nat (length name) + 1 = ?n" by simp
  show u: "unat (word_of_nat (length name) + 1 :: u32) = length name + 1"
    unfolding n using assms by (subst unat_word_of_nat_small) simp_all
  have "sint ?n = int (length name + 1)"
    using u assms unfolding n by (subst sint_small) simp_all
  then show "nat (sint (word_of_nat (length name) + 1 :: u32)) = length name + 1"
    "0 \<le> sint (word_of_nat (length name) + 1 :: u32)" unfolding n by simp_all
qed

lemma adds_write_headers:
  assumes "namelen hdr = word_of_nat (length filename) + 1" and "length filename < 2 ^ 31 - 1"
  shows "adds (write_headers os hdr filename)
     (\<lambda>_ w. writes w \<and> written_to 1 w = encode_file_header hdr @ filename @ [0])"
  unfolding write_headers_def
proof (rule adds_write_bnd, goal_cases)
  case (4 w)
  then have head: "writes w" "written_to 1 w = encode_file_header hdr" by (simp_all add: file_hdr.length_enc)
  show ?case unfolding if_False not_True_eq_False
  proof (rule adds_write_bnd, goal_cases)
    case (4 w')
    with head show ?case by (simp add: guarded_def assms(1) unat_namelen [OF assms(2)] adds_ret)
  qed (simp_all add: assms(1) unat_namelen [OF assms(2)] lost_give_up guarded_def)
qed (simp_all add: file_hdr.length_enc lost_give_up)

abbreviation copies :: "fd \<Rightarrow> (syscall \<times> response) list \<Rightarrow> bool" where
  "copies fd w \<equiv> list_all (is_copy 1 fd) (calls w)"

lemma writes_copies: "writes w \<Longrightarrow> copies fd w"
  by (auto simp add: list_all_iff is_write_is_copy)

lemma adds_copy_bnd:
  fixes os :: "'w os"
  assumes failed: "\<And>st. st \<noteq> COPY_FILE_OK \<Longrightarrow> lost (f st)"
    and ok: "\<And>w. copies fd w \<Longrightarrow> length (read_from fd w) = nat len \<Longrightarrow> written_to 1 w = read_from fd w \<Longrightarrow>
      adds (f COPY_FILE_OK) (\<lambda>y w'. Q y (w @ w'))"
  shows "adds (bnd (copy_file_with_crc os 1 fd len) f) Q"
proof (rule addsI)
  fix s t :: "'w pack" and tr
  assume t: "so_far s tr t"
  let ?Q = "\<lambda>x u. \<exists>w. Q x w \<and> so_far s (tr @ w) u"
  have "wp (copy_file os notify 1 fd len (Some (crc32_sum t)))
     (\<lambda>(st, crc') u. wp (f st) ?Q exits1 (u\<lparr>crc32_sum := the crc'\<rparr>)) exits1 t" for notify
  proof (rule wp_mono [OF copy_file_wp])
    fix x u
    assume "copy_post 1 fd len (Some (crc32_sum t)) t x u"
    then obtain st crc' w where x: "x = (st, crc')" "reaches t w u" "copies fd w"
      "copy_result len st (read_from fd w) (written_to 1 w)" "crc' = Some (crc32_buf (crc32_sum t) (read_from fd w))"
      by (auto simp add: copy_post_def copy_inv_def)
    show "(case x of (st, crc') \<Rightarrow> \<lambda>u. wp (f st) ?Q exits1 (u\<lparr>crc32_sum := the crc'\<rparr>)) u"
    proof (cases "st = COPY_FILE_OK")
      case True
      with x(4) have d: "length (read_from fd w) = nat len" "written_to 1 w = read_from fd w"
        by (simp_all add: copy_result_def)
      have "u = sys_upd (world u) (errno u) w t" using x(2) by (simp add: reaches_def)
      moreover have "so_far s (tr @ w) ((sys_upd v e w t)\<lparr>crc32_sum := the crc'\<rparr>)" for v e
        using t x(5) d(2) by (simp add: so_far_def crc.update_append)
      ultimately have "so_far s (tr @ w) (u\<lparr>crc32_sum := the crc'\<rparr>)" by metis
      from addsD [OF ok [OF x(3) d] this] show ?thesis
        using True x(1) by (auto elim!: wp_mono intro: exI [of _ "w @ w'" for w'])
    next
      case False
      from failed [OF this] show ?thesis unfolding lost_def x(1) prod.case
        by (auto dest!: hoareD elim: wp_mono)
    qed
  qed simp
  then show "wp (bnd (copy_file_with_crc os 1 fd len) f) ?Q exits1 t"
    by (simp add: copy_file_with_crc_def wp_simps split_def)
qed

text \<open>The entry for a file.\<close>

definition entry_for :: "bytes \<Rightarrow> stat \<Rightarrow> bytes \<Rightarrow> entry" where
  "entry_for filename st payload =
     ((header_of filename st)\<lparr>filelen := (if S_ISDIR (st_mode st) then 0 else st_size st)\<rparr>, filename @ [0], payload)"

text \<open>
  The calls that send a file, and its entry: a regular file is opened and its content read to the
  length of its header; a link is read; a directory is its name.  At the end the verdict is asked for.
\<close>

definition file_sent :: "bytes \<Rightarrow> stat \<Rightarrow> (syscall \<times> response) list \<Rightarrow> entry list \<Rightarrow> bool" where
  "file_sent path st tr es \<longleftrightarrow>
     (if S_ISREG (st_mode st) then
        \<exists>r B c W. tr = (Open path O_RDONLY, r) # B @ (Close (rv r), c) # W \<and> 0 \<le> rv r \<and> copies (rv r) B \<and>
          es = [entry_for path st (read_from (rv r) B)] \<and> length (read_from (rv r) B) = unat (st_size st) \<and>
          written_to 1 B = stream es \<and> asks W
      else if S_ISLNK (st_mode st) then
        \<exists>r B W. tr = (Readlink path (unat (st_size st) + 1), r) # B @ W \<and> writes B \<and>
          es = [entry_for path st (rdata r)] \<and> length (rdata r) = unat (st_size st) \<and>
          written_to 1 B = stream es \<and> asks W
      else if S_ISDIR (st_mode st) then
        \<exists>B W. tr = B @ W \<and> writes B \<and> es = [entry_for path st []] \<and> written_to 1 B = stream es \<and> asks W
      else es = [] \<and> asks tr)"

lemma file_sent_written: "file_sent path st tr es \<Longrightarrow> written_to 1 tr = stream es"
  by (auto simp add: file_sent_def asks_written split: if_splits)

lemma file_sent_form:
  assumes a: "file_sent filename st tr es" and l: "length filename < 2 ^ 31 - 1"
  shows "list_all entry_form es"
proof -
  note n = unat_namelen [OF l]
  have "word_of_nat (length filename) + 1 \<noteq> (0 :: u32)" using n(1) by (metis add_is_0 unat_0 zero_neq_one)
  with a n show ?thesis
    by (auto simp add: file_sent_def entry_for_def header_of_def S_IS_disjoint(1-3) split: if_splits)
qed

lemma adds_send_regular:
  assumes "S_ISREG (st_mode st)" and "length filename < 2 ^ 31 - 1" and "unat (st_size st) < 2 ^ 63"
  shows "adds (send_regular os (header_of filename st) filename st)
     (\<lambda>_ w. \<forall>W. asks W \<longrightarrow> (\<exists>es. file_sent filename st (w @ W) es))"
proof -
  let ?h = "(header_of filename st)\<lparr>filelen := st_size st\<rparr>"
  let ?Q = "\<lambda>w. \<forall>W. asks W \<longrightarrow> (\<exists>es. file_sent filename st (w @ W) es)"
  have len: "nat (sint (st_size st)) = unat (st_size st)" using assms(3) by (simp add: sint_small)
  have sent: "?Q ((Open filename O_RDONLY, r) # w @ w' @ [(Close (rv r), c)])"
    if "0 \<le> rv r" "writes w" "written_to 1 w = encode_file_header ?h @ filename @ [0]" "copies (rv r) w'"
      "length (read_from (rv r) w') = unat (st_size st)" "written_to 1 w' = read_from (rv r) w'"
    for r c :: response and w w'
  proof -
    note seen = that
    have none: "read_from (rv r) w = []" using that(2) by (rule writes_read)
    have "file_sent filename st ((Open filename O_RDONLY, r) # (w @ w') @ (Close (rv r), c) # W)
        [entry_for filename st (read_from (rv r) (w @ w'))]" if "asks W" for W
      unfolding file_sent_def if_P [OF assms(1)]
      by (rule exI [of _ r], rule exI [of _ "w @ w'"], rule exI [of _ c], rule exI [of _ W])
        (use seen none that assms(1) in \<open>simp add: entry_for_def S_IS_disjoint(1-3) writes_copies\<close>)
    then show ?thesis by auto
  qed
  have rest: "adds (bnd (copy_file_with_crc os 1 (rv r) (sint (filelen ?h))) (\<lambda>ret_code.
      seq (if ret_code \<noteq> COPY_FILE_OK then
                 (if ret_code \<noteq> COPY_FILE_WRITE_ERROR then call_error_handler os (m ret_code) [filename]
                  else give_up os)
               else ret ())
          (bnd (sys os (Close (rv r))) (\<lambda>_. ret ())))) (\<lambda>_ w'. ?Q ((Open filename O_RDONLY, r) # w @ w'))"
    if r: "0 \<le> rv r" "writes w" "written_to 1 w = encode_file_header ?h @ filename @ [0]" for r w m
  proof (rule adds_copy_bnd, goal_cases)
    case (1 st')
    then show ?case by (auto intro!: lost_seq simp add: lost_basic lost_give_up)
  next
    case (2 w')
    then show ?case using sent [OF r 2(1)] len by (auto intro!: adds_sys_bnd adds_ret)
  qed
  show ?thesis unfolding send_regular_def Let_def
    by (intro adds_sys_bnd adds_cases adds_stop adds_seq [OF adds_write_headers] adds_post [OF rest])
      (simp_all add: header_of_def assms(2) [simplified])
qed

text \<open>Symbolic links have short targets.\<close>

definition short_links :: "'w os \<Rightarrow> bool" where
  "short_links os \<longleftrightarrow> (\<forall>p n w. length (rdata (fst (os (Readlink p n) w))) \<le> 4096)"

lemma sys_res_Readlink:
  assumes "short_links os" and "rv (sys_res os (Readlink p n) s) = int m"
  shows "length (rdata (sys_res os (Readlink p n) s)) = m \<and> m \<le> 4096"
  using assms by (auto simp add: sys_res_def short_links_def min_le_iff_disj split: if_splits)

lemma adds_send_link:
  assumes "S_ISLNK (st_mode st)" and "length filename < 2 ^ 31 - 1" and "unat (st_size st) < 2 ^ 63"
    and "short_links os"
  shows "adds (send_link os (header_of filename st) filename st)
     (\<lambda>_ w. \<forall>W. asks W \<longrightarrow> (\<exists>es. file_sent filename st (w @ W) es))"
proof -
  let ?h = "(header_of filename st)\<lparr>filelen := st_size st\<rparr>"
  let ?n = "unat (st_size st)"
  let ?c = "Readlink filename (?n + 1)"
  let ?Q = "\<lambda>w. \<forall>W. asks W \<longrightarrow> (\<exists>es. file_sent filename st (w @ W) es)"
  have sz: "sint (st_size st) = int ?n" using assms(3) by (simp add: sint_small)
  have small: "sint (ucast (st_size st) :: u32) = int ?n" if "?n \<le> 4096"
  proof -
    have "unat (ucast (st_size st) :: u32) = ?n" using that by (simp add: unsigned_ucast_eq take_bit_nat_eq_self)
    with that show ?thesis by (simp add: sint_small)
  qed
  have sent: "?Q ((?c, r) # w @ w')" if "length (rdata r) = ?n" "writes w" "writes w'"
      "written_to 1 w = encode_file_header ?h @ filename @ [0]" "written_to 1 w' = rdata r" for r w w'
  proof -
    note seen = that
    have "file_sent filename st ((?c, r) # (w @ w') @ W) [entry_for filename st (rdata r)]" if "asks W" for W
      unfolding file_sent_def if_P [OF assms(1)] if_not_P [OF S_IS_disjoint(4) [OF assms(1)]]
      by (rule exI [of _ r], rule exI [of _ "w @ w'"], rule exI [of _ W])
        (use seen that assms(1) in \<open>simp add: entry_for_def S_IS_disjoint(3,4)\<close>)
    then show ?thesis by auto
  qed
  have rest: "adds (bnd (write_all_with_crc os 1 (rdata r) (sint (ucast (st_size st) :: u32))) (\<lambda>ok.
      guarded (\<not> ok) (give_up os))) (\<lambda>_ w'. ?Q ((?c, r) # w @ w'))"
    if "length (rdata r) = ?n" "?n \<le> 4096" "writes w" "written_to 1 w = encode_file_header ?h @ filename @ [0]" for r w
    using that small sent
    by (intro adds_write_bnd) (auto simp add: guarded_def lost_give_up intro: adds_ret)
  show ?thesis unfolding send_link_def Let_def
  proof (intro adds_sys_bnd adds_cases adds_stop adds_seq [OF adds_write_headers] adds_post [OF rest], goal_cases)
    case (4 u w)
    then show ?case using sys_res_Readlink [OF assms(4), of filename "?n + 1" u ?n] by (simp add: sz)
  next
    case (5 u w)
    then show ?case using sys_res_Readlink [OF assms(4), of filename "?n + 1" u ?n] by (simp add: sz)
  qed (simp_all add: header_of_def assms(2) [simplified])
qed

lemma adds_single_file_processor:
  assumes "length filename < 2 ^ 31 - 1" and "unat (st_size st) < 2 ^ 63" and "short_links os"
  shows "adds (single_file_processor os filename st) (\<lambda>_ w. \<exists>es. file_sent filename st w es)"
proof -
  note wait = adds_post [OF adds_wait_for_result]
  consider (reg) "S_ISREG (st_mode st)" | (dir) "S_ISDIR (st_mode st)" | (link) "S_ISLNK (st_mode st)"
    | (none) "\<not> S_ISREG (st_mode st)" "\<not> S_ISDIR (st_mode st)" "\<not> S_ISLNK (st_mode st)" by blast
  then show ?thesis
  proof cases
    case none
    then have "single_file_processor os filename st = wait_for_result os"
      by (simp add: single_file_processor_def guarded_def)
    with none show ?thesis by (auto simp add: file_sent_def intro: wait)
  next
    case reg
    then have m: "single_file_processor os filename st = seq (send_regular os (header_of filename st) filename st) (wait_for_result os)"
      by (simp add: single_file_processor_def guarded_def Let_def S_IS_disjoint(1,2))
    show ?thesis unfolding m by (rule adds_seq [OF adds_send_regular [OF reg assms(1,2)] wait]) blast
  next
    case dir
    then have m: "single_file_processor os filename st =
        seq (write_headers os ((header_of filename st)\<lparr>filelen := 0\<rparr>) filename) (wait_for_result os)"
      by (simp add: single_file_processor_def guarded_def Let_def S_IS_disjoint(5,6))
    have "file_sent filename st (w @ W) [entry_for filename st []]"
      if "writes w" "written_to 1 w = encode_file_header ((header_of filename st)\<lparr>filelen := 0\<rparr>) @ filename @ [0]" "asks W"
      for w W
      unfolding file_sent_def using that dir by (auto simp add: S_IS_disjoint(5,6) entry_for_def)
    then show ?thesis unfolding m
      by (intro adds_seq [OF adds_write_headers] wait) (auto simp add: header_of_def assms(1) [simplified])
  next
    case link
    then have m: "single_file_processor os filename st = seq (send_link os (header_of filename st) filename st) (wait_for_result os)"
      by (simp add: single_file_processor_def guarded_def Let_def S_IS_disjoint(3,4))
    show ?thesis unfolding m by (rule adds_seq [OF adds_send_link [OF link assms] wait]) blast
  qed
qed

section \<open>Directory trees\<close>

text \<open>
  The calls of a walk and the entries it sends.  A path is looked at; a symbolic link may be
  skipped; any other file is sent as it was seen.  A directory is sent, opened, and listed to
  its end: every member but \<open>.\<close> and \<open>..\<close> is walked under the name the listing gave it, in the
  order of the listing; then the directory is closed and sent again.
\<close>

inductive walked :: "bool \<Rightarrow> bytes \<Rightarrow> (syscall \<times> response) list \<Rightarrow> entry list \<Rightarrow> bool"
  and listed :: "bool \<Rightarrow> bytes \<Rightarrow> fd \<Rightarrow> (syscall \<times> response) list \<Rightarrow> entry list \<Rightarrow> bool"
  for ign :: bool where
  skip: "rv r = 0 \<Longrightarrow> ign \<Longrightarrow> S_ISLNK (st_mode (rstat r)) \<Longrightarrow> walked ign path [(Lstat path, r)] []"
| leaf: "rv r = 0 \<Longrightarrow> length path < 4096 \<Longrightarrow> \<not> S_ISDIR (st_mode (rstat r)) \<Longrightarrow>
    \<not> (ign \<and> S_ISLNK (st_mode (rstat r))) \<Longrightarrow> file_sent path (rstat r) tr es \<Longrightarrow>
    walked ign path ((Lstat path, r) # tr) es"
| dir: "rv r = 0 \<Longrightarrow> length path < 4096 \<Longrightarrow> S_ISDIR (st_mode (rstat r)) \<Longrightarrow>
    file_sent path (rstat r) tr es \<Longrightarrow> 0 \<le> rv d \<Longrightarrow> listed ign path (rv d) tr' es' \<Longrightarrow> rv e < 0 \<Longrightarrow>
    file_sent path (rstat r) tr'' es'' \<Longrightarrow>
    walked ign path ((Lstat path, r) # tr @ (Opendir path, d) # tr' @ (Readdir (rv d), e) # (Closedir (rv d), c) # tr'')
      (es @ es' @ es'')"
| start: "listed ign path dir [] []"
| dots: "listed ign path dir tr es \<Longrightarrow> 0 \<le> rv r \<Longrightarrow> c_str (rdata r @ [0]) \<in> {dot_name, dotdot_name} \<Longrightarrow>
    listed ign path dir (tr @ [(Readdir dir, r)]) es"
| member: "listed ign path dir tr es \<Longrightarrow> 0 \<le> rv r \<Longrightarrow> name = c_str (rdata r @ [0]) \<Longrightarrow>
    name \<notin> {dot_name, dotdot_name} \<Longrightarrow> 0 \<le> rv a \<Longrightarrow> walked ign (path @ [0x2F] @ name) tr' es' \<Longrightarrow>
    listed ign path dir (tr @ (Readdir dir, r) # (Asprintf (path @ [0x2F] @ name), a) # tr') (es @ es')"

text \<open>\<open>lstat\<close> refuses names longer than \<open>PATH_MAX\<close>, and sizes are not negative.\<close>

definition posix_lstat :: "'w os \<Rightarrow> bool" where
  "posix_lstat os \<longleftrightarrow>
     (\<forall>p w. rv (answer (Lstat p) (fst (os (Lstat p) w))) = 0 \<longrightarrow>
        length p < 4096 \<and> unat (st_size (rstat (fst (os (Lstat p) w)))) < 2 ^ 63)"

lemma sys_res_Lstat:
  assumes "posix_lstat os" and "rv (sys_res os (Lstat p) s) = 0"
  shows "length p < 4096 \<and> unat (st_size (rstat (sys_res os (Lstat p) s))) < 2 ^ 63"
  using assms by (simp add: sys_res_def posix_lstat_def)

lemma adds_walk_members:
  assumes "\<And>newfile. adds (walk newfile) (\<lambda>_ w. \<exists>es. walked ign newfile w es)"
  shows "adds (walk_members os walk fd path)
     (\<lambda>_ w. \<exists>tr es e. w = tr @ [(Readdir fd, e)] \<and> listed ign path fd tr es \<and> rv e < 0)"
  unfolding walk_members_def Let_def
proof (rule adds_loop [where I = "\<lambda>_ w. \<exists>es. listed ign path fd w es"], goal_cases)
  case 1
  show ?case by (blast intro: start)
next
  case (2 x w)
  then obtain es where w: "listed ign path fd w es" by blast
  show ?case
  proof (intro adds_sys_bnd adds_cases adds_stop adds_seq [OF assms], goal_cases)
    case (2 u)
    with w show ?case by (auto intro!: adds_ret)
  next
    case (3 u)
    with dots [OF w, of "sys_res os (Readdir fd) u"] show ?case by (auto intro!: adds_ret)
  next
    case (5 u u' w')
    let ?r = "sys_res os (Readdir fd) u" let ?p = "path @ [0x2F] @ c_str (rdata ?r @ [0])"
    from 5 obtain es' where "walked ign ?p w' es'" by blast
    then have "listed ign path fd (w @ (Readdir fd, ?r) # (Asprintf ?p, sys_res os (Asprintf ?p) u') # w') (es @ es')"
      using 5 by (intro member [OF w _ refl]) auto
    then show ?case by (auto intro!: adds_ret)
  qed simp_all
qed

lemma adds_do_fs_walk:
  assumes "posix_lstat os" and "short_links os"
  shows "adds (do_fs_walk depth os path ign) (\<lambda>_ w. \<exists>es. walked ign path w es)"
proof (induction depth arbitrary: path)
  case 0
  then show ?case by (simp add: adds_def hoare_def wp_def)
next
  case (Suc depth)
  have small: "length path < 2 ^ 31 - 1 \<and> unat (st_size (rstat (sys_res os (Lstat path) u))) < 2 ^ 63"
    if "rv (sys_res os (Lstat path) u) = 0" for u :: "'a pack"
    using sys_res_Lstat [OF assms(1) that] by simp
  show ?case unfolding do_fs_walk.simps Let_def
  proof (intro adds_sys_bnd adds_cases adds_stop adds_seq [OF adds_single_file_processor]
      adds_seq [OF adds_walk_members [OF Suc.IH]] adds_post [OF adds_single_file_processor], goal_cases)
    case (2 u)
    then show ?case by (auto intro!: adds_ret skip)
  next
    case (6 u w)
    then show ?case using sys_res_Lstat [OF assms(1), of path u] by (auto intro!: adds_ret leaf)
  next
    case (12 u w u1 w1 u2 x w2)
    let ?r = "sys_res os (Lstat path) u" and ?d = "sys_res os (Opendir path) u1"
    from 12 obtain es es' es'' tr e where "file_sent path (rstat ?r) w es" "w1 = tr @ [(Readdir (rv ?d), e)]"
      "listed ign path (rv ?d) tr es'" "rv e < 0" "file_sent path (rstat ?r) w2 es''" by blast
    moreover from this(2) 12 have "walked ign path ((Lstat path, ?r) # w @ (Opendir path, ?d) # tr @
        (Readdir (rv ?d), e) # (Closedir (rv ?d), sys_res os (Closedir (rv ?d)) u2) # w2) (es @ es' @ es'')"
      using calculation sys_res_Lstat [OF assms(1), of path u] by (intro dir) auto
    ultimately show ?case by auto
  qed (use small assms(2) in simp_all)
qed

section \<open>The walk returns\<close>

text \<open>No call raises the measure.\<close>

definition calm :: "'w os \<Rightarrow> ('w \<Rightarrow> nat) \<Rightarrow> bool" where
  "calm os \<nu> \<longleftrightarrow> (\<forall>c w. \<nu> (snd (os c w)) \<le> \<nu> w)"

text \<open>
  A finite directory tree: some measure of the world never grows and every delivered
  directory entry uses some of it up.
\<close>

definition finite_tree :: "'w os \<Rightarrow> ('w \<Rightarrow> nat) \<Rightarrow> bool" where
  "finite_tree os \<nu> \<longleftrightarrow>
     calm os \<nu> \<and>
     (\<forall>dir w. 0 \<le> rv (fst (os (Readdir dir) w)) \<longrightarrow> \<nu> (snd (os (Readdir dir) w)) < \<nu> w)"

text \<open>A program that returns or ends the process, from every state, without raising the measure.\<close>

definition decent :: "('w \<Rightarrow> nat) \<Rightarrow> (('w, 'm) sys_scheme, 'a) prog \<Rightarrow> bool" where
  "decent \<nu> m \<longleftrightarrow> (\<forall>s. twp m (\<lambda>_ t. \<nu> (world t) \<le> \<nu> (world s)) (\<lambda>_ _. True) s)"

named_theorems decent_intros \<open>programs that return\<close>

lemma decent_basic [decent_intros]:
  "decent \<nu> (ret x)" "decent \<nu> (gets f)" "decent \<nu> (halt e)"
  by (simp_all add: decent_def wp_simps)

lemma decent_modify [decent_intros]: "(\<And>s. world (f s) = world s) \<Longrightarrow> decent \<nu> (modify f)"
  by (simp add: decent_def wp_simps)

lemma decent_bnd [decent_intros]:
  assumes "decent \<nu> m" and "\<And>x. decent \<nu> (f x)"
  shows "decent \<nu> (bnd m f)"
  unfolding decent_def wp_simps
proof (intro allI twp_mono [OF assms(1) [unfolded decent_def, rule_format]], goal_cases)
  case (1 s x t)
  then show ?case using assms(2) [of x, unfolded decent_def, rule_format, of t] by (auto elim: twp_mono)
qed simp

lemma decent_seq [decent_intros]: "decent \<nu> m \<Longrightarrow> decent \<nu> n \<Longrightarrow> decent \<nu> (seq m n)"
  unfolding seq_def by (rule decent_bnd)

lemma decent_guarded [decent_intros]: "(b \<Longrightarrow> decent \<nu> m) \<Longrightarrow> decent \<nu> (guarded b m)"
  by (simp add: guarded_def decent_basic)

lemma decent_if [decent_intros]: "(b \<Longrightarrow> decent \<nu> m) \<Longrightarrow> (\<not> b \<Longrightarrow> decent \<nu> n) \<Longrightarrow> decent \<nu> (if b then m else n)"
  by simp

lemma decent_option [decent_intros]:
  "decent \<nu> m \<Longrightarrow> (\<And>y. decent \<nu> (f y)) \<Longrightarrow> decent \<nu> (case x of None \<Rightarrow> m | Some y \<Rightarrow> f y)"
  by (cases x) simp_all

lemma decent_prod [decent_intros]: "(\<And>a b. decent \<nu> (f a b)) \<Longrightarrow> decent \<nu> (case x of (a, b) \<Rightarrow> f a b)"
  by (cases x) simp

lemma decentI:
  assumes "\<And>s. m s \<noteq> None" and "\<And>n. hoare (\<lambda>_ _. True) (\<lambda>t. \<nu> (world t) \<le> n) m (\<lambda>_ t. \<nu> (world t) \<le> n)"
  shows "decent \<nu> m"
  unfolding decent_def using assms by (auto intro!: twpI hoareD [OF assms(2)])

lemma decent_returns: "decent \<nu> m \<Longrightarrow> m s \<noteq> None"
  unfolding decent_def by (drule spec [of _ s]) (rule twp_terminates)

lemma decent_sys: "calm os \<nu> \<Longrightarrow> decent \<nu> (sys os c)"
  by (simp add: decent_def wp_simps calm_def)

lemma decent_say: "calm os \<nu> \<Longrightarrow> decent \<nu> (say os c)"
  by (simp add: decent_def wp_simps calm_def)

lemma measure_sys:
  assumes "calm os \<nu>"
  shows "hoare E (\<lambda>t. \<nu> (world t) \<le> n) (sys os c) (\<lambda>_ t. \<nu> (world t) \<le> n)"
    "hoare E (\<lambda>t. \<nu> (world t) \<le> n) (say os c) (\<lambda>_ t. \<nu> (world t) \<le> n)"
  using assms by (auto simp add: hoare_def wp_simps calm_def intro: le_trans)

lemma measure_modify: "(\<And>s. world (f s) = world s) \<Longrightarrow>
   hoare E (\<lambda>t. \<nu> (world t) \<le> n) (modify f) (\<lambda>_ t. \<nu> (world t) \<le> n)"
  by (simp add: hoare_def wp_simps)

lemmas measure_intros = keep_loop keep_bnd keep_seq keep_guarded keep_ret keep_gets keep_if measure_modify

lemma measure_write_all:
  "calm os \<nu> \<Longrightarrow> hoare E (\<lambda>t. \<nu> (world t) \<le> n) (write_all os fd buf) (\<lambda>_ t. \<nu> (world t) \<le> n)"
  unfolding write_all_def by (intro measure_intros measure_sys)

lemma measure_read_all:
  "calm os \<nu> \<Longrightarrow> hoare E (\<lambda>t. \<nu> (world t) \<le> n) (read_all os fd len) (\<lambda>_ t. \<nu> (world t) \<le> n)"
  unfolding read_all_def perror_wrapper_def set_block_def Let_def
  by (intro measure_intros measure_sys) simp_all

lemma measure_copy_file:
  "calm os \<nu> \<Longrightarrow>
   hoare E (\<lambda>t. \<nu> (world t) \<le> n) (copy_file os notify fd fd' len crc) (\<lambda>_ t. \<nu> (world t) \<le> n)"
  unfolding copy_file_def Let_def split_def by (intro measure_intros measure_sys measure_write_all)

lemma decent_io:
  assumes "eintr_bounded os \<mu>" and "calm os \<nu>"
  shows "decent \<nu> (write_all os fd buf)" "decent \<nu> (read_all os fd n)"
    "decent \<nu> (copy_file os notify fd fd' len crc)"
  using assms
  by (auto intro!: decentI write_all_terminates read_all_terminates copy_file_terminates
      measure_write_all measure_read_all measure_copy_file)

lemma decent_pack:
  assumes "eintr_bounded os \<mu>" and "calm os \<nu>"
  shows "decent \<nu> (call_error_handler os m args)" "decent \<nu> (set_block os fd)" "decent \<nu> (wait_for_result os)"
    "decent \<nu> (give_up os)" "decent \<nu> (write_all_with_crc os fd buf len)"
proof -
  note rules = decent_intros decent_io [OF assms] decent_sys [OF assms(2)] decent_say [OF assms(2)]
  show err: "decent \<nu> (call_error_handler os m args)" for m args
    unfolding call_error_handler_def by (intro rules)
  show block: "decent \<nu> (set_block os fd)" for fd
    unfolding set_block_def Let_def by (intro rules)
  have judge: "decent \<nu> (judge_result os hdr buf)" for hdr buf
    unfolding judge_result_def report_error_def Let_def by (intro rules err) simp_all
  show wait: "decent \<nu> (wait_for_result os)"
    unfolding wait_for_result_def Let_def by (intro rules judge)
  show "decent \<nu> (give_up os)"
    unfolding give_up_def by (intro rules block wait)
  show "decent \<nu> (write_all_with_crc os fd buf len)" for fd buf len
    unfolding write_all_with_crc_def Let_def by (intro rules) simp_all
qed

lemma decent_single_file_processor:
  assumes "eintr_bounded os \<mu>" and "calm os \<nu>"
  shows "decent \<nu> (single_file_processor os path st)"
proof -
  note rules = decent_intros decent_io [OF assms] decent_sys [OF assms(2)] decent_say [OF assms(2)] decent_pack [OF assms]
  have heads: "decent \<nu> (write_headers os hdr path)" for hdr
    unfolding write_headers_def by (intro rules)
  have copy: "decent \<nu> (copy_file_with_crc os fd fd' len)" for fd fd' len
    unfolding copy_file_with_crc_def by (intro rules) simp_all
  show ?thesis
    unfolding single_file_processor_def send_regular_def send_link_def Let_def
    by (intro rules heads copy)
qed

lemma finite_tree_calm: "finite_tree os \<nu> \<Longrightarrow> calm os \<nu>"
  by (simp add: finite_tree_def)

lemma decent_walk_members:
  assumes "finite_tree os \<nu>" and "\<And>newfile. length path < length newfile \<Longrightarrow> decent \<nu> (walk newfile)"
  shows "decent \<nu> (walk_members os walk fd path)"
  unfolding decent_def
proof
  fix s
  let ?c = "Readdir fd"
  have step: "decent \<nu> (let fname = c_str (rdata ent @ [0]) in
           if fname = dot_name \<or> fname = dotdot_name then ret (Inl ())
           else
             let newfile = path @ [0x2F] @ fname in
             bnd (sys os (Asprintf newfile)) (\<lambda>a.
               if rv a \<ge> 0 then seq (walk newfile) (ret (Inl ()))
               else seq (say os (Stderr ''asprintf failed'')) (halt (Exit 1))))" (is "decent \<nu> (?step ent)") for ent
    unfolding Let_def by (intro decent_intros decent_sys decent_say finite_tree_calm assms) simp
  show "twp (walk_members os walk fd path) (\<lambda>_ t. \<nu> (world t) \<le> \<nu> (world s)) (\<lambda>_ _. True) s"
    unfolding walk_members_def
  proof (rule loop_twp [where R = "measure (\<lambda>(_, t). \<nu> (world t))"
        and I = "\<lambda>_ t. \<nu> (world t) \<le> \<nu> (world s)"], goal_cases)
    case (2 x t)
    let ?r = "sys_res os ?c t"
    let ?u = "sys_upd (snd (os ?c (world t))) (re ?r) [(?c, ?r)] t"
    have le: "\<nu> (world ?u) \<le> \<nu> (world t)" using finite_tree_calm [OF assms(1)] by (simp add: calm_def)
    have less: "\<nu> (world ?u) < \<nu> (world t)" if "\<not> rv ?r < 0"
      using assms(1) that by (auto simp add: finite_tree_def sys_res_def split: if_splits)
    have "twp (?step ?r) (\<lambda>_ u. \<nu> (world u) < \<nu> (world t)) (\<lambda>_ _. True) ?u" if "\<not> rv ?r < 0"
      by (rule twp_mono [OF step [of ?r, unfolded decent_def, THEN spec]]) (use less [OF that] in auto)
    then have "twp (?step ?r) (\<lambda>r u. case r of
          Inl y \<Rightarrow> \<nu> (world u) \<le> \<nu> (world s) \<and> ((y, u), (x, t)) \<in> measure (\<lambda>(_, t). \<nu> (world t))
        | Inr a \<Rightarrow> \<nu> (world u) \<le> \<nu> (world s)) (\<lambda>_ _. True) ?u" if "\<not> rv ?r < 0"
      by (rule twp_mono) (use 2 that in \<open>auto split: sum.split\<close>)
    with 2 le show ?case unfolding wp_simps by auto
  qed simp_all
qed

lemma decent_bnd_sys:
  fixes f :: "response \<Rightarrow> (('w, 'm) sys_scheme, 'a) prog"
  assumes "calm os \<nu>" and "\<And>s :: ('w, 'm) sys_scheme. decent \<nu> (f (sys_res os c s))"
  shows "decent \<nu> (bnd (sys os c) f)"
  unfolding decent_def wp_simps
proof
  fix s :: "('w, 'm) sys_scheme"
  let ?u = "sys_upd (snd (os c (world s))) (re (sys_res os c s)) [(c, sys_res os c s)] s"
  have "\<nu> (world ?u) \<le> \<nu> (world s)" using assms(1) by (simp add: calm_def)
  moreover have "twp (f (sys_res os c s)) (\<lambda>_ t. \<nu> (world t) \<le> \<nu> (world ?u)) (\<lambda>_ _. True) ?u"
    using assms(2) [of s, unfolded decent_def] by (rule spec)
  ultimately show "twp (f (sys_res os c s)) (\<lambda>_ t. \<nu> (world t) \<le> \<nu> (world s)) (\<lambda>_ _. True) ?u"
    by (auto elim: twp_mono)
qed

lemma decent_do_fs_walk:
  assumes "eintr_bounded os \<mu>" and "finite_tree os \<nu>" and "posix_lstat os"
  shows "0 < depth \<Longrightarrow> 4096 < depth + length path \<Longrightarrow> decent \<nu> (do_fs_walk depth os path ign)"
proof (induction depth arbitrary: path)
  case (Suc depth)
  note calm = finite_tree_calm [OF assms(2)]
  note rules = decent_intros decent_sys [OF calm] decent_single_file_processor [OF assms(1) calm]
    decent_pack(1) [OF assms(1) calm]
  let ?rest = "\<lambda>r. let st = rstat r in
         if S_ISLNK (st_mode st) \<and> ign then ret ()
         else
           seq (single_file_processor os path st)
           (if \<not> S_ISDIR (st_mode st) then ret ()
            else
              bnd (sys os (Opendir path)) (\<lambda>d.
                if rv d < 0 then call_error_handler os ''opendir %s'' [path]
                else
                  seq (walk_members os (\<lambda>newfile. do_fs_walk depth os newfile ign) (rv d) path)
                  (bnd (sys os (Closedir (rv d))) (\<lambda>_. single_file_processor os path st))))"
  have rest: "decent \<nu> (?rest r)" if "length path < 4096" for r
    unfolding Let_def
    by (intro rules decent_walk_members [OF assms(2)] Suc.IH) (use that Suc.prems in simp_all)
  show ?case unfolding do_fs_walk.simps
  proof (intro decent_bnd_sys [OF calm] decent_if decent_pack(1) [OF assms(1) calm])
    fix s assume "\<not> rv (sys_res os (Lstat path) s) \<noteq> 0"
    with sys_res_Lstat [OF assms(3), of path s] show "decent \<nu> (?rest (sys_res os (Lstat path) s))"
      by (intro rest) simp
  qed
qed simp

text \<open>The depth bound does not influence the result: more depth only adds results.\<close>

definition less_defined :: "('s, 'a) prog \<Rightarrow> ('s, 'a) prog \<Rightarrow> bool" where
  "less_defined m m' \<longleftrightarrow> (\<forall>s. m s = None \<or> m s = m' s)"

named_theorems fuel_intros \<open>programs that differ in their fuel\<close>

lemma less_defined_refl [fuel_intros]: "less_defined m m"
  by (simp add: less_defined_def)

lemma less_defined_bnd [fuel_intros]:
  assumes "less_defined m m'" and "\<And>x. less_defined (f x) (f' x)"
  shows "less_defined (bnd m f) (bnd m' f')"
  unfolding less_defined_def
proof
  fix s
  show "bnd m f s = None \<or> bnd m f s = bnd m' f' s"
  proof (cases "m s")
    case (Some z)
    with assms(1) have "m' s = Some z" by (metis less_defined_def option.discI)
    with Some assms(2) show ?thesis
      by (cases z; cases "fst z") (auto simp add: bnd_def less_defined_def)
  qed (simp add: bnd_def)
qed

lemma less_defined_seq [fuel_intros]:
  "less_defined m m' \<Longrightarrow> less_defined n n' \<Longrightarrow> less_defined (seq m n) (seq m' n')"
  unfolding seq_def by (rule less_defined_bnd)

lemma less_defined_if [fuel_intros]:
  "less_defined m m' \<Longrightarrow> less_defined n n' \<Longrightarrow> less_defined (if b then m else n) (if b then m' else n')"
  by simp

lemma less_defined_loop [fuel_intros]:
  assumes "\<And>x. less_defined (body x) (body' x)"
  shows "less_defined (loop body x) (loop body' x)"
  unfolding less_defined_def
proof
  fix s
  have "wp (loop body x) (\<lambda>a t. loop body' x s = Some (Inr a, t)) (\<lambda>e t. loop body' x s = Some (Inl e, t)) s"
  proof (rule loop_wp [where I = "\<lambda>y t. loop body' x s = loop body' y t"], goal_cases)
    case (1 y t)
    show ?case
    proof (cases "body y t")
      case (Some z)
      with assms [of y] have "body' y t = Some z" by (metis less_defined_def option.discI)
      with 1 Some show ?thesis unfolding wp_def
        by (auto simp add: loop.simps [of body' y] split: sum.split)
    qed (simp add: wp_def)
  qed simp
  moreover have "loop body x s = None \<or> (\<exists>e t. loop body x s = Some (Inl e, t)) \<or> (\<exists>a t. loop body x s = Some (Inr a, t))"
    by (metis not_None_eq old.prod.exhaust sum.exhaust)
  ultimately show "loop body x s = None \<or> loop body x s = loop body' x s" by (auto simp add: wp_def)
qed

lemma do_fs_walk_fuel: "less_defined (do_fs_walk depth os path ign) (do_fs_walk (depth + n) os path ign)"
proof (induction depth arbitrary: path)
  case 0
  then show ?case by (simp add: less_defined_def)
next
  case (Suc depth)
  have "less_defined (walk_members os (\<lambda>f. do_fs_walk depth os f ign) fd path)
     (walk_members os (\<lambda>f. do_fs_walk (depth + n) os f ign) fd path)" for fd
    unfolding walk_members_def Let_def by (intro fuel_intros Suc.IH)
  then show ?case unfolding add_Suc do_fs_walk.simps Let_def by (intro fuel_intros)
qed

section \<open>The end of the transfer\<close>

definition end_marker :: bytes where
  "end_marker = encode_file_header
     \<lparr> namelen = 0, mode = 0, filelen = 0, atime = 0, atime_nsec = 0, mtime = 0, mtime_nsec = 0 \<rparr>"

text \<open>
  After the end marker was written, perhaps not completely: nothing was read from standard
  input, and the checksum includes the whole marker.
\<close>

definition ended :: "'w pack \<Rightarrow> 'w pack \<Rightarrow> bool" where
  "ended s t \<longleftrightarrow> (\<exists>w. trace t = trace s @ w \<and> prefix (written_to 1 w) end_marker \<and> read_from 0 w = []) \<and>
     crc32_sum t = crc32_buf (crc32_sum s) end_marker \<and> ignore_quota_error t = ignore_quota_error s"

lemma length_end_marker: "length end_marker = sizeof_file_header"
  by (simp add: end_marker_def file_hdr.length_enc)

lemma write_end_marker:
  "hoare exits1 (\<lambda>t. t = s) (write_all_with_crc os 1 end_marker (int sizeof_file_header)) (\<lambda>_. ended s)"
proof -
  let ?s = "s\<lparr>crc32_sum := crc32_buf (crc32_sum s) end_marker\<rparr>"
  have "wp (write_all os 1 end_marker) (\<lambda>_. ended s) exits1 ?s"
  proof (rule wp_mono [OF write_all_wp])
    fix ok u
    assume "\<exists>k. write_inv 1 end_marker ?s k u \<and> (if ok then k = length end_marker else k < length end_marker)"
    then obtain k w where w: "reaches ?s w u" "writes w" "written_to 1 w = take k end_marker"
      by (auto simp add: write_inv_def)
    have "u = sys_upd (world u) (errno u) w ?s" using w(1) by (simp add: reaches_def)
    moreover have "ended s (sys_upd v e w ?s)" for v e
      using w(3) writes_read [OF w(2), of 0] by (simp add: ended_def take_is_prefix)
    ultimately show "ended s u" by metis
  qed simp
  then show ?thesis
    by (simp add: write_all_with_crc_def Let_def hoare_def wp_simps flip: length_end_marker)
qed

lemma keep_set_block_ended: "hoare E (ended s) (set_block os fd) (\<lambda>_. ended s)"
  by (auto simp add: set_block_def Let_def hoare_def wp_simps ended_def)

lemma hoare_notify_end:
  "hoare exits1 (\<lambda>t. t = s) (notify_end_and_wait_for_result os) (\<lambda>_ t. \<exists>u. ended s u \<and> verdict u t)"
  unfolding notify_end_and_wait_for_result_def end_marker_def [symmetric]
proof (intro hoare_bnd [OF write_end_marker] hoare_seq [OF keep_set_block_ended] hoareI)
  fix u assume "ended s u"
  then show "wp (wait_for_result os) (\<lambda>_ t. \<exists>u. ended s u \<and> verdict u t) exits1 u"
    using hoareD [OF hoare_wait_for_result read_inv_refl, of os u] by (auto elim: wp_mono)
qed

section \<open>Properties\<close>

lemma walked_sent:
  "walked ign path tr es \<Longrightarrow> list_all entry_form es \<and> written_to 1 tr = stream es"
  "listed ign path fd tr es \<Longrightarrow> list_all entry_form es \<and> written_to 1 tr = stream es"
proof (induction rule: walked_listed.inducts)
  case (leaf r path tr es)
  moreover have "length path < 2 ^ 31 - 1" by (rule less_trans [OF leaf(2)]) simp
  ultimately show ?case by (simp add: file_sent_form file_sent_written)
next
  case (dir r path tr es d tr' es' e tr'' es'' c)
  moreover have "length path < 2 ^ 31 - 1" by (rule less_trans [OF dir(2)]) simp
  ultimately show ?case by (auto simp add: file_sent_form file_sent_written stream_append)
qed (simp_all add: stream_append)

text \<open>
  C6: Whatever the file system and the receiver do, the walk over a tree ends the process only
  with status 1, and when it returns, its calls are those of a walk: every file is looked at
  once and sent as it was seen, with the content or link target that was read, every member the
  listing of a directory gave is walked in order, and a directory is sent before and again after
  its members.  The bytes written to standard output are exactly the well-formed entries of the
  walk, and the checksum kept is the CRC of exactly these bytes.
\<close>

theorem do_fs_walk_sends:
  assumes "posix_lstat os" and "short_links os" and "do_fs_walk depth os path ign s = Some (r, t)"
  shows "case r of Inl e \<Rightarrow> e = Exit 1
     | Inr _ \<Rightarrow> \<exists>es tr. walked ign path tr es \<and> list_all entry_form es \<and> trace t = trace s @ tr \<and>
         written_to 1 tr = stream es \<and> crc32_sum t = crc32_buf (crc32_sum s) (stream es)"
proof (cases r)
  case (Inl e)
  from wp_stops [OF addsD [OF adds_do_fs_walk [OF assms(1,2)] so_far_refl] assms(3) [unfolded Inl]]
  show ?thesis unfolding Inl by (simp add: exits1_def)
next
  case (Inr x)
  from wp_returns [OF addsD [OF adds_do_fs_walk [OF assms(1,2)] so_far_refl] assms(3) [unfolded Inr]]
  obtain tr es where "walked ign path tr es" "so_far s tr t" by auto
  with walked_sent(1) [of ign path tr es] show ?thesis unfolding Inr by (auto simp add: so_far_def)
qed

text \<open>
  A tree that consists of a directory with the given number of members, named \<open>a\<close>; standard
  input has nothing to read.
\<close>

definition tree_os :: "nat os" where
  "tree_os c w =
     (\<lparr> rv = (case c of Lstat p \<Rightarrow> if length p < 10 then 0 else - 1
            | Readdir d \<Rightarrow> if w = 0 then - 1 else 0
            | Read f n \<Rightarrow> - 1 | Write f b \<Rightarrow> 4096 | _ \<Rightarrow> 3),
       re = EAGAIN, rdata = (case c of Readdir d \<Rightarrow> [0x61] | _ \<Rightarrow> []),
       rstat = zero_stat\<lparr>st_mode := (case c of Lstat p \<Rightarrow> if length p \<le> 1 then 0x41ED else 0 | _ \<Rightarrow> 0)\<rparr>,
       rvfs = (1, 1), rval = 0, rext = zero_ext2 \<rparr>,
      case c of Readdir d \<Rightarrow> w - 1 | _ \<Rightarrow> w)"

lemma tree_os_hypotheses:
  "eintr_bounded tree_os (\<lambda>_. 0)" "calm tree_os id" "finite_tree tree_os id" "posix_lstat tree_os" "short_links tree_os"
proof -
  show c: "calm tree_os id" by (auto simp add: calm_def tree_os_def split: syscall.split)
  show "eintr_bounded tree_os (\<lambda>_. 0)" by (simp add: eintr_bounded_def tree_os_def)
  show "finite_tree tree_os id" using c by (auto simp add: finite_tree_def tree_os_def split: if_splits)
  show "posix_lstat tree_os" by (auto simp add: posix_lstat_def tree_os_def zero_stat_def split: if_splits)
  show "short_links tree_os" by (simp add: short_links_def tree_os_def)
qed

definition fresh_pack :: "nat \<Rightarrow> nat pack" where
  "fresh_pack n = \<lparr> world = n, errno = 0, trace = [], crc32_sum = 0, ignore_quota_error = False,
     error_handler = False, notify_progress_func = False \<rparr>"

lemma tree_os_write:
  assumes "\<And>u. world u = world s \<Longrightarrow> written_to fd (trace u) = written_to fd (trace s) @ buf \<Longrightarrow> Q True u" and "length buf \<le> 4096"
  shows "twp (write_all tree_os fd buf) Q E s"
proof (cases "buf = []")
  case True
  then show ?thesis using assms(1) by (simp add: write_all_def twp_def loop.simps ret_def)
next
  case False
  then show ?thesis using assms
    by (simp add: write_all_def twp_def loop.simps bnd_def sys_def sys_res_def gets_def ret_def tree_os_def Let_def min_def)
qed

lemma tree_os_wait: "(\<And>u. world u = world s \<Longrightarrow> written_to 1 (trace u) = written_to 1 (trace s) \<Longrightarrow> Q () u) \<Longrightarrow> twp (wait_for_result tree_os) Q E s"
  by (simp add: wait_for_result_def read_all_def twp_def loop.simps bnd_def sys_def sys_res_def gets_def ret_def
      seq_def guarded_def tree_os_def Let_def sizeof_result_header_def)

lemma tree_os_res:
  "rv (sys_res tree_os (Lstat p) u) = (if length p < 10 then 0 else - 1)"
  "st_mode (rstat (sys_res tree_os (Lstat p) u)) = (if length p \<le> 1 then 0x41ED else 0)"
  "rv (sys_res tree_os (Opendir p) u) = 3" "rv (sys_res tree_os (Asprintf p) u) = 3"
  "rv (sys_res tree_os (Readdir d) u) = (if world u = 0 then - 1 else 0)"
  "rdata (sys_res tree_os (Readdir d) u) = [0x61]"
  "snd (tree_os c w) = (case c of Readdir d \<Rightarrow> w - 1 | _ \<Rightarrow> w)"
  by (simp_all add: sys_res_def tree_os_def)

lemma tree_os_write_crc:
  assumes "\<And>u. world u = world s \<Longrightarrow> written_to fd (trace u) = written_to fd (trace s) @ take (nat n) buf \<Longrightarrow> Q True u" and "length buf \<le> 4096" and "0 \<le> n" and "nat n \<le> length buf"
  shows "twp (write_all_with_crc tree_os fd buf n) Q E s"
  using assms by (auto simp add: write_all_with_crc_def Let_def wp_simps intro!: tree_os_write)

lemma tree_os_headers:
  assumes "length p < 10" and "namelen hdr = word_of_nat (length p) + 1" and "\<And>v. world v = world u \<Longrightarrow> Q () v"
  shows "twp (write_headers tree_os hdr p) Q E u"
  unfolding write_headers_def wp_simps
proof (rule tree_os_write_crc, goal_cases)
  case (1 v)
  have "length p < 2 ^ 31 - 1" by (rule less_trans [OF assms(1)]) simp
  then show ?case using 1 assms(1,3) unfolding assms(2)
    by (auto simp add: wp_simps unat_namelen intro!: tree_os_write_crc)
qed (simp_all add: file_hdr.length_enc sizeof_file_header_def)

lemma tree_os_file:
  assumes "length p < 10" and "\<not> S_ISREG (st_mode st)" and "\<not> S_ISLNK (st_mode st)"
    and "\<And>v. world v = world u \<Longrightarrow> Q () v"
  shows "twp (single_file_processor tree_os p st) Q E u"
  unfolding single_file_processor_def Let_def guarded_def using assms
  by (auto simp add: wp_simps header_of_def intro!: tree_os_headers tree_os_wait)

text \<open>The walk over this directory returns.\<close>

lemma tree_os_leaf:
  assumes "1 < length p" and "length p < 10" and "\<And>v. world v = world u \<Longrightarrow> Q () v"
  shows "twp (do_fs_walk (Suc depth) tree_os p False) Q E u"
  using assms
  by (auto simp add: wp_simps tree_os_res Let_def S_ISDIR_def S_ISREG_def S_ISLNK_def intro!: tree_os_file)

lemma tree_os_walk: "\<exists>t. do_fs_walk 3 tree_os [0x2E] False (fresh_pack 1) = Some (Inr (), t)"
proof -
  have members: "twp (walk_members tree_os (\<lambda>f. do_fs_walk 2 tree_os f False) fd [0x2E]) (\<lambda>_ _. True) E u" for fd E u
    unfolding walk_members_def numeral_2_eq_2
    by (rule loop_twp [where R = "measure (world \<circ> snd)" and I = "\<lambda>_ _. True"])
      (auto simp add: wp_simps tree_os_res Let_def dot_name_def dotdot_name_def c_str_def simp del: do_fs_walk.simps
        intro!: tree_os_leaf)
  have "twp (do_fs_walk 3 tree_os [0x2E] False) (\<lambda>_ _. True) E u" for E u
    unfolding numeral_3_eq_3 numeral_2_eq_2 do_fs_walk.simps(2) [of "Suc (Suc 0)"]
    by (auto simp add: wp_simps tree_os_res Let_def S_ISDIR_def S_ISREG_def S_ISLNK_def
        simp del: do_fs_walk.simps simp flip: numeral_2_eq_2 intro!: tree_os_file twp_mono [OF members])
  then have "twp (do_fs_walk 3 tree_os [0x2E] False) (\<lambda>_ _. True) (\<lambda>_ _. False) (fresh_pack 1)" .
  then show ?thesis by (auto simp add: twp_def split: option.splits sum.splits)
qed

lemma do_fs_walk_sends_witness:
  "\<exists>t es tr. do_fs_walk 3 tree_os [0x2E] False (fresh_pack 1) = Some (Inr (), t) \<and> walked False [0x2E] tr es \<and>
     trace t = tr \<and> written_to 1 tr = stream es \<and> crc32_sum t = crc32_buf 0 (stream es)"
proof -
  obtain t where t: "do_fs_walk 3 tree_os [0x2E] False (fresh_pack 1) = Some (Inr (), t)" using tree_os_walk by blast
  from do_fs_walk_sends [OF tree_os_hypotheses(4,5) t] t show ?thesis by (auto simp add: fresh_pack_def)
qed

text \<open>
  C7: The walk over a finite tree returns, from every state, when the environment does not
  interrupt forever and refuses names longer than \<open>PATH_MAX\<close>: a nesting depth of 4097 is
  always enough, and a larger bound gives the same result.
\<close>

theorem do_fs_walk_terminates:
  assumes "eintr_bounded os \<mu>" and "finite_tree os \<nu>" and "posix_lstat os"
  shows "\<exists>r t. \<forall>n. do_fs_walk (4097 + n) os path ign s = Some (r, t)"
proof -
  have "do_fs_walk 4097 os path ign s \<noteq> None"
    by (rule decent_returns [OF decent_do_fs_walk [OF assms]]) simp_all
  then obtain r t where r: "do_fs_walk 4097 os path ign s = Some (r, t)" by auto
  moreover have "do_fs_walk 4097 os path ign s = do_fs_walk (4097 + n) os path ign s" for n
    using do_fs_walk_fuel [of 4097 os path ign n, unfolded less_defined_def, THEN spec, of s] r by simp
  ultimately show ?thesis by (intro exI [of _ r] exI [of _ t]) simp
qed

lemma do_fs_walk_terminates_witness: "\<exists>r t. do_fs_walk (4097 + 3) tree_os [0x2E] False (fresh_pack 5) = Some (r, t)"
  using do_fs_walk_terminates [OF tree_os_hypotheses(1,3,4), of "[0x2E]" False "fresh_pack 5"] by blast

text \<open>
  C8: The packer waits for the receiver's verdict and always gets an end to the wait.  It goes
  on only in two cases: when no complete verdict header could be read because nothing more was
  there yet (\<open>EAGAIN\<close>), or on an acceptable verdict, that is, a complete header that reports no
  error and carries exactly the packer's own checksum, or reports a quota error that is to be
  ignored.  Everything else (end of file, a read error, an error code, a different checksum)
  ends the process with status 1.
\<close>

theorem wait_for_result_verdict:
  assumes "eintr_bounded os \<mu>"
  shows "\<exists>r t. wait_for_result os s = Some (r, t) \<and>
     (case r of Inl e \<Rightarrow> e = Exit 1
      | Inr _ \<Rightarrow> \<exists>tr. trace t = trace s @ tr \<and>
          (errno t = EAGAIN \<and> length (read_from 0 tr) < sizeof_result_header \<or>
           accepted (ignore_quota_error s) (crc32_sum s) (read_from 0 tr)))"
proof -
  have "calm os (\<lambda>_. 0)" by (simp add: calm_def)
  then have "wait_for_result os s \<noteq> None" by (intro decent_returns decent_pack(3) [OF assms])
  then obtain r t where r: "wait_for_result os s = Some (r, t)" by auto
  with hoareD [OF hoare_wait_for_result read_inv_refl, of os s] show ?thesis
    by (fastforce simp add: wp_def exits1_def verdict_def read_inv_def reaches_trace split: sum.split)
qed

lemma wait_for_result_verdict_witness:
  "\<exists>r t. wait_for_result tree_os (fresh_pack 0) = Some (r, t) \<and> r \<noteq> Inl Abort"
  using wait_for_result_verdict [OF tree_os_hypotheses(1), of "fresh_pack 0"] by auto

lemma sanitize_byte_range: "sanitize_byte c \<in> {0x20..0x7E} - {0x22}"
  by (auto simp add: sanitize_byte_def not_less)

lemma c_str_Cons: "c_str (c # cs) = (if c = 0 then [] else c # c_str cs)"
  by (simp add: c_str_def)

text \<open>
  Every name the packer shows from the receiver's report is printable ASCII without double
  quotes, of the received length, and a name that already was is shown unchanged.
\<close>

theorem sanitize_remote_filename_safe:
  "set (c_str (sanitize_remote_filename b)) \<subseteq> {0x20..0x7E} - {0x22} \<and>
   length (sanitize_remote_filename b) = length b \<and>
   length (c_str (sanitize_remote_filename b)) = length (c_str b) \<and>
   (set (c_str b) \<subseteq> {0x20..0x7E} - {0x22} \<longrightarrow> sanitize_remote_filename b = b)"
proof (induction b)
  case (Cons c b)
  have "sanitize_byte c \<noteq> 0" using sanitize_byte_range [of c] by auto
  moreover have "c \<in> {0x20..0x7E} - {0x22} \<Longrightarrow> sanitize_byte c = c" by (auto simp add: sanitize_byte_def)
  ultimately show ?case using Cons sanitize_byte_range [of c] by (auto simp add: c_str_Cons)
qed (simp add: c_str_def)

lemma sanitize_remote_filename_safe_witness:
  "set (c_str [0x61, 0x2F, 0]) \<subseteq> {0x20..0x7E} - {0x22} \<and> sanitize_remote_filename [0x61, 0x2F, 0] = [0x61, 0x2F, 0]"
proof -
  have "set (c_str [0x61, 0x2F, 0 :: u8]) \<subseteq> {0x20..0x7E} - {0x22}" by (simp add: c_str_Cons)
  with sanitize_remote_filename_safe [of "[0x61, 0x2F, 0]"] show ?thesis by blast
qed

end
