(* ===== verification/File_Transfer.thy ===== *)
theory File_Transfer
  imports Pack_Props Unpack_Props
begin

text \<open>
  Packer and unpacker together: the entries the packer sends are the entries the unpacker
  accepts, and a verdict the packer accepts covers the bytes the unpacker consumed.  The
  channel between the two is only an equation between the bytes one wrote and the other read.
\<close>

lemma entry_ok_form: "entry_ok flags e \<Longrightarrow> entry_form e"
proof -
  assume a: "entry_ok flags e"
  obtain h n b where e: "e = (h, n, b)" by (metis prod_cases3)
  with a show ?thesis by (auto simp add: entry_ok.simps S_IS_disjoint(5,6) split: if_splits)
qed

text \<open>The sender: a walk followed by the end of the transfer.\<close>

lemma sender_bytes:
  assumes "posix_lstat os" and "short_links os"
    and "do_fs_walk depth os path ign s = Some (Inr (), t)"
    and "notify_end_and_wait_for_result os t = Some (Inr (), u)"
  shows "\<exists>es tr tr'. walked ign path tr es \<and> trace t = trace s @ tr \<and> trace u = trace t @ tr' \<and>
     list_all entry_form es \<and> written_to 1 tr = stream es \<and> prefix (written_to 1 tr') end_marker \<and>
     (sizeof_result_header \<le> length (read_from 0 tr') \<longrightarrow> accepted (ignore_quota_error s)
        (crc32_buf (pack.crc32_sum s) (stream es @ end_marker)) (read_from 0 tr'))"
proof -
  from wp_returns [OF addsD [OF adds_do_fs_walk [OF assms(1,2)] so_far_refl] assms(3)]
  obtain tr es where es: "walked ign path tr es" "so_far s tr t" by auto
  from wp_returns [OF hoareD [OF hoare_notify_end refl] assms(4)]
  obtain v where v: "ended t v" "verdict v u" by auto
  then obtain w where w: "trace v = trace t @ w" "prefix (written_to 1 w) end_marker" "read_from 0 w = []"
    "pack.crc32_sum v = crc32_buf (pack.crc32_sum t) end_marker" "ignore_quota_error v = ignore_quota_error t"
    by (auto simp add: ended_def)
  from v(2) obtain i where i: "read_inv 0 v i u"
      "errno u = EAGAIN \<and> length i < sizeof_result_header \<or> accepted (ignore_quota_error v) (pack.crc32_sum v) i"
    by (auto simp add: verdict_def)
  from i(1) obtain w' where w': "trace u = trace v @ w'" "read_from 0 w' = i" "written_to 1 w' = []"
    by (auto simp add: read_inv_def asks_written dest: reaches_trace)
  from es(2) have "pack.crc32_sum t = crc32_buf (pack.crc32_sum s) (stream es)"
      "ignore_quota_error t = ignore_quota_error s" "trace t = trace s @ tr"
    using walked_sent(1) [OF es(1)] by (simp_all add: so_far_def)
  then show ?thesis using es(1) w w' i(2) walked_sent(1) [OF es(1)]
    by (intro exI [of _ es] exI [of _ tr] exI [of _ "w @ w'"]) (auto simp add: crc.update_append)
qed

lemma receiver_bytes:
  assumes "posix_errors os" and "do_unpack_ext os flags u = Some (Inr 0, v)"
  shows "\<exists>es h tr. trace v = trace u @ tr \<and> read_from 0 tr = stream es @ encode_file_header h \<and>
     namelen h = 0 \<and> list_all (entry_ok flags) es"
  using wp_returns [OF do_unpack_ext_success [OF assms(1), where s = u] assms(2)] by force

text \<open>
  C3: When the packer walked a tree and ended its transfer, the unpacker read exactly the bytes
  the packer wrote, and the unpacker returned success, then what the unpacker accepted, entry
  by entry, is what the packer sent: the entries of the walk, determined by what the sender's
  file system answered, followed by the complete end marker.  This needs no assumption that
  writes succeed: an end marker that was cut short is not accepted.
\<close>

theorem pack_unpack_round_trip:
  assumes "posix_lstat os" and "short_links os"
    and "do_fs_walk depth os path ign s = Some (Inr (), t)"
    and "notify_end_and_wait_for_result os t = Some (Inr (), u)" and "trace u = trace s @ sent"
    and "posix_errors os'" and "do_unpack_ext os' flags x = Some (Inr 0, y)"
    and "trace y = trace x @ received" and "read_from 0 received = written_to 1 sent"
  shows "\<exists>es tr. walked ign path tr es \<and> trace t = trace s @ tr \<and> list_all (entry_ok flags) es \<and>
     written_to 1 sent = stream es @ end_marker \<and> read_from 0 received = stream es @ end_marker"
proof -
  from sender_bytes [OF assms(1-4)] obtain es tr tr'
    where es: "walked ign path tr es" "trace t = trace s @ tr" "list_all entry_form es"
      "trace u = trace t @ tr'" "written_to 1 tr = stream es" "prefix (written_to 1 tr') end_marker" by blast
  from es(6) obtain rest where rest: "written_to 1 tr' @ rest = end_marker" by (metis prefix_def)
  have sent: "written_to 1 sent = stream es @ written_to 1 tr'" using es assms(5) by simp
  from receiver_bytes [OF assms(6,7)] assms(8) obtain es' h
    where h: "read_from 0 received = stream es' @ encode_file_header h" "namelen h = 0" "list_all (entry_ok flags) es'"
    by force
  from h(3) have form: "list_all entry_form es'" using entry_ok_form by (blast intro: list.pred_mono_strong)
  have "(stream es' @ encode_file_header h) @ rest = stream es @ written_to 1 tr' @ rest"
    using h(1) sent assms(9) by simp
  then have "stream es' @ encode_file_header h @ rest = stream es @ end_marker @ []" by (simp add: rest)
  from stream_parse_front [OF form es(3) h(2) _ this [unfolded end_marker_def]] have "es' = es \<and> rest = []" by simp
  then show ?thesis using es(1,2) h(3) sent rest assms(9) by auto
qed

text \<open>Two byte strings that differ at most in \<open>k\<close> consecutive places.\<close>

definition differ_within :: "nat \<Rightarrow> bytes \<Rightarrow> bytes \<Rightarrow> bool" where
  "differ_within k a b \<longleftrightarrow>
     (\<exists>p x y q. a = p @ x @ q \<and> b = p @ y @ q \<and> length x = length y \<and> length x \<le> k)"

lemma crc32_differ: "differ_within 4 a b \<Longrightarrow> crc32_buf 0 a = crc32_buf 0 b \<Longrightarrow> a = b"
proof -
  assume "differ_within 4 a b" "crc32_buf 0 a = crc32_buf 0 b"
  then obtain p x y q where "a = p @ x @ q" "b = p @ y @ q" "length x = length y" "length x \<le> 4"
    "crc32_spec 0 (p @ x @ q) = crc32_spec 0 (p @ y @ q)"
    by (auto simp add: differ_within_def crc32_buf_spec)
  moreover from this have "x = y" by (intro crc32_spec_burst [of 0 x y p q]) (simp_all add: low32_iff)
  ultimately show "a = b" by simp
qed

text \<open>
  C9: When a packer that starts with a zero checksum goes on with a whole verdict header read,
  and this verdict is what a receiver that reports success for the bytes it consumed sends, then
  the consumed bytes have the checksum of the complete message, the entries of the packer's walk
  and the end marker; and if they differ from this message in at most four consecutive places,
  they do not differ at all.
\<close>

theorem transfer_intact:
  assumes "posix_lstat os" and "short_links os"
    and "do_fs_walk depth os path ign s = Some (Inr (), t)" and "pack.crc32_sum s = 0"
    and "notify_end_and_wait_for_result os t = Some (Inr (), u)" and "trace u = trace t @ last_part"
    and "sizeof_result_header \<le> length (read_from 0 last_part)"
    and "prefix (read_from 0 last_part) (status_message 0 (crc32_buf 0 received) name)"
  shows "\<exists>es tr. walked ign path tr es \<and> trace t = trace s @ tr \<and> written_to 1 tr = stream es \<and>
     prefix (written_to 1 last_part) end_marker \<and>
     crc32_buf 0 received = crc32_buf 0 (stream es @ end_marker) \<and>
     (differ_within 4 received (stream es @ end_marker) \<longrightarrow> received = stream es @ end_marker)"
proof -
  from sender_bytes [OF assms(1,2,3,5)] assms(4,6,7) obtain es tr
    where es: "walked ign path tr es" "trace t = trace s @ tr" "written_to 1 tr = stream es"
      "prefix (written_to 1 last_part) end_marker"
      "accepted (ignore_quota_error s) (crc32_buf 0 (stream es @ end_marker)) (read_from 0 last_part)"
    by auto
  then obtain hdr rest where hdr: "read_from 0 last_part = encode_result_header hdr @ rest"
    "error_code hdr = 0 \<and> crc32 hdr = crc32_buf 0 (stream es @ end_marker) \<or> uint (error_code hdr) = EDQUOT"
    by (auto simp add: accepted_def)
  from assms(8) obtain rest' where "encode_result_header hdr @ rest' = status_message 0 (crc32_buf 0 received) name"
    unfolding hdr(1) by (auto simp add: prefix_def)
  then have "hdr = \<lparr> error_code = word_of_int 0, pad = 0, crc32 = crc32_buf 0 received \<rparr>"
    unfolding status_message_def result_hdr.enc_prefix_free by simp
  with hdr(2) have "crc32_buf 0 received = crc32_buf 0 (stream es @ end_marker)" by auto
  with es crc32_differ show ?thesis by blast
qed

section \<open>A transfer of one file\<close>

text \<open>
  A sender with one regular file \<open>a\<close> of two bytes.  Its world counts the reads of standard
  input: first there is nothing to read, then a receiver acknowledges the whole message.
\<close>

definition file_stat :: stat where "file_stat = zero_stat\<lparr>st_mode := 0x81A4, st_size := 2\<rparr>"

definition file_content :: bytes where "file_content = [0x68, 0x69]"

definition message :: bytes where
  "message = stream [entry_for [0x61] file_stat file_content] @ end_marker"

definition ack :: "nat \<Rightarrow> bytes" where
  "ack n = (if n = 16 then encode_result_header \<lparr> error_code = 0, pad = 0, crc32 = crc32_buf 0 message \<rparr>
     else replicate 4 0)"

definition send_os :: "nat os" where
  "send_os c w =
     (\<lparr> rv = (case c of Lstat p \<Rightarrow> if length p < 10 then 0 else - 1
            | Read f n \<Rightarrow> if f = 0 \<and> w = 0 then - 1 else 4096 | Write f b \<Rightarrow> 4096 | _ \<Rightarrow> 3),
       re = EAGAIN, rdata = (case c of Read f n \<Rightarrow> if f = 0 then ack n else file_content | _ \<Rightarrow> []),
       rstat = file_stat, rvfs = (1, 1), rval = 0, rext = zero_ext2 \<rparr>,
      case c of Read f n \<Rightarrow> if f = 0 then Suc w else w | _ \<Rightarrow> w)"

lemma send_os_hypotheses: "posix_lstat send_os" "short_links send_os"
  by (auto simp add: posix_lstat_def short_links_def send_os_def file_stat_def zero_stat_def split: if_splits)

text \<open>What matters of a state of the sender: its world, its checksum, what it wrote and read.\<close>

definition stage :: "nat \<Rightarrow> u64 \<Rightarrow> bytes \<Rightarrow> bytes \<Rightarrow> nat pack \<Rightarrow> bool" where
  "stage n k d i u \<longleftrightarrow> world u = n \<and> pack.crc32_sum u = k \<and> written_to 1 (trace u) = d \<and> read_from 0 (trace u) = i \<and>
     \<not> pack.notify_progress_func u"

lemma send_write:
  assumes "stage n k d i s" and "\<And>u. stage n k (d @ buf) i u \<Longrightarrow> Q True u" and "buf \<noteq> []" and "length buf \<le> 4096"
  shows "twp (write_all send_os 1 buf) Q E s"
  using assms
  by (simp add: write_all_def twp_def loop.simps bnd_def sys_def sys_res_def gets_def ret_def send_os_def Let_def
      stage_def min_def)

lemma send_write_crc:
  assumes "stage n k d i s" and "\<And>u. stage n (crc32_buf k buf) (d @ buf) i u \<Longrightarrow> Q True u"
    and "buf \<noteq> []" and "length buf \<le> 4096" and "m = int (length buf)"
  shows "twp (write_all_with_crc send_os 1 buf m) Q E s"
proof -
  have "stage n (crc32_buf k buf) d i (s\<lparr>pack.crc32_sum := crc32_buf (pack.crc32_sum s) buf\<rparr>)"
    using assms(1) by (simp add: stage_def)
  then have "twp (write_all send_os 1 buf) Q E (s\<lparr>pack.crc32_sum := crc32_buf (pack.crc32_sum s) buf\<rparr>)"
    by (rule send_write) (rule assms(2-4) | assumption)+
  then show ?thesis using assms(5) by (simp add: write_all_with_crc_def Let_def wp_simps)
qed

lemma send_wait:
  assumes "stage 0 k d [] s" and "\<And>u. stage 1 k d [] u \<Longrightarrow> Q () u"
  shows "twp (wait_for_result send_os) Q E s"
  using assms
  by (simp add: stage_def wait_for_result_def read_all_def twp_def loop.simps bnd_def sys_def sys_res_def gets_def ret_def
      seq_def guarded_def send_os_def Let_def sizeof_result_header_def)

lemma send_headers:
  assumes "stage 0 0 [] [] s" and "namelen h = 2"
    and "\<And>u. stage 0 (crc32_buf 0 (encode_file_header h @ [0x61, 0])) (encode_file_header h @ [0x61, 0]) [] u \<Longrightarrow> Q () u"
  shows "twp (write_headers send_os h [0x61]) Q E s"
proof -
  have l: "length (encode_file_header h) = 32" "encode_file_header h \<noteq> []"
    using file_hdr.length_enc [of h] by (auto simp add: sizeof_file_header_def)
  show ?thesis unfolding write_headers_def wp_simps
  proof (rule send_write_crc [OF assms(1)], goal_cases)
    case (1 u)
    show ?case unfolding not_True_eq_False if_False wp_bnd
    proof (rule send_write_crc [OF 1], goal_cases)
      case (1 v)
      with assms(3) show ?case by (simp add: wp_simps crc.update_append)
    qed (simp_all add: assms(2))
  qed (simp_all add: l sizeof_file_header_def)
qed

lemma twp_loop:
  "twp (loop body x) Q E s = twp (body x) (\<lambda>r t. case r of Inl y \<Rightarrow> twp (loop body y) Q E t | Inr a \<Rightarrow> Q a t) E s"
  unfolding twp_def loop.simps [of body x s] by (auto split: option.split sum.split bind_splits)

lemma send_copy:
  assumes "stage 0 k d [] s" and "\<And>u. stage 0 (crc32_buf k file_content) (d @ file_content) [] u \<Longrightarrow> Q COPY_FILE_OK u"
  shows "twp (copy_file_with_crc send_os 1 3 2) Q E s"
proof -
  have res: "rv (sys_res send_os (Read 3 2) s) = 2" "rdata (sys_res send_os (Read 3 2) s) = file_content"
    "re (sys_res send_os (Read 3 2) s) = EAGAIN" "snd (send_os (Read 3 2) w) = w" for w
    by (simp_all add: sys_res_def send_os_def file_content_def)
  have done_: "stage 0 k' (d @ file_content) [] u \<Longrightarrow> stage 0 c (d @ file_content) [] (u\<lparr>pack.crc32_sum := c\<rparr>)" for k' u c
    by (simp add: stage_def)
  from assms(1) have k: "pack.crc32_sum s = k" "\<not> pack.notify_progress_func s" by (simp_all add: stage_def)
  show ?thesis
    unfolding copy_file_with_crc_def copy_file_def wp_simps prod.case Let_def
  proof (subst twp_loop, simp add: wp_simps res k, rule send_write [where n = 0 and k = k and d = d and i = "[]"], goal_cases)
    case 1
    from assms(1) show ?case by (simp add: stage_def)
  next
    case (2 u)
    from done_ [OF 2] show ?case
      by (simp add: res, subst twp_loop) (simp add: wp_simps k res guarded_def assms(2))
  qed (simp_all add: file_content_def)
qed

lemma send_res:
  "rv (sys_res send_os (Lstat [0x61]) u) = 0" "rstat (sys_res send_os (Lstat [0x61]) u) = file_stat"
  "rv (sys_res send_os (Open p f) u) = 3"
  by (simp_all add: sys_res_def send_os_def file_stat_def)

lemma stage_other:
  "stage n k d i u \<Longrightarrow> read_by 0 (c, r) = [] \<Longrightarrow> written_by 1 (c, r) = [] \<Longrightarrow>
   stage n k d i (sys_upd n e [(c, r)] u)"
  by (simp add: stage_def)

lemma send_world: "(\<And>f n. c \<noteq> Read f n) \<Longrightarrow> snd (send_os c w) = w"
  by (cases c) (auto simp add: send_os_def)

lemma file_modes: "S_ISREG (st_mode file_stat)" "\<not> S_ISLNK (st_mode file_stat)" "\<not> S_ISDIR (st_mode file_stat)"
  by (simp_all add: S_ISREG_def S_ISLNK_def S_ISDIR_def file_stat_def)

abbreviation file_entry :: entry where "file_entry \<equiv> entry_for [0x61] file_stat file_content"

lemma file_entry_bytes:
  "entry_bytes file_entry = (encode_file_header ((header_of [0x61] file_stat)\<lparr>filelen := 2\<rparr>) @ [0x61, 0]) @ file_content"
  by (simp add: entry_for_def file_modes) (simp add: file_stat_def)

lemma send_walk:
  "\<exists>t. do_fs_walk 1 send_os [0x61] False (fresh_pack 0) = Some (Inr (), t) \<and>
     stage 1 (crc32_buf 0 (stream [file_entry])) (stream [file_entry]) [] t"
proof -
  let ?h = "(header_of [0x61] file_stat)\<lparr>filelen := 2\<rparr>"
  let ?k = "crc32_buf 0 (stream [file_entry])" and ?d = "stream [file_entry]"
  have fresh: "world (fresh_pack 0) = 0" by (simp add: fresh_pack_def)
  have start: "stage 0 0 [] [] (sys_upd 0 e [(Lstat p, r)] (fresh_pack 0))" for e p r by (simp add: stage_def fresh_pack_def)
  have size: "st_size file_stat = 2" "sint (2 :: u64) = 2" by (simp_all add: file_stat_def)
  have "twp (send_regular send_os (header_of [0x61] file_stat) [0x61] file_stat) (\<lambda>_. stage 0 ?k ?d []) (\<lambda>_ _. False) u"
    if u: "stage 0 0 [] [] u" for u
    unfolding send_regular_def Let_def wp_simps send_res
  proof (simp add: send_res size send_world, rule send_headers [where h = ?h], goal_cases)
    case 1
    from u show ?case by (simp add: stage_def)
  next
    case (3 v)
    then show ?case
    proof (rule send_copy, goal_cases)
      case (1 w)
      then show ?case by (simp add: stage_def send_world file_entry_bytes flip: crc.update_append)
    qed
  qed (simp add: header_of_def)
  then have one: "twp (single_file_processor send_os [0x61] file_stat) (\<lambda>_. stage 1 ?k ?d []) (\<lambda>_ _. False) u"
    if u: "stage 0 0 [] [] u" for u
    unfolding single_file_processor_def Let_def guarded_def
    by (auto simp add: file_modes wp_simps u intro!: twp_mono [OF _ send_wait] send_wait)
  have "twp (do_fs_walk 1 send_os [0x61] False) (\<lambda>_. stage 1 ?k ?d []) (\<lambda>_ _. False) (fresh_pack 0)"
    unfolding One_nat_def do_fs_walk.simps Let_def wp_simps send_res
    using one [OF start] by (simp add: wp_simps file_modes fresh send_world)
  from twp_returned [OF this] show ?thesis by auto
qed

lemma length_ack: "n = 16 \<or> n = 4 \<Longrightarrow> length (ack n) = n"
  using result_hdr.length_enc by (auto simp add: ack_def sizeof_result_header_def)

lemma send_read:
  assumes "stage w k d i s" and "0 < w" and "n = 16 \<or> n = 4" and "\<And>u. stage (Suc w) k d (i @ ack n) u \<Longrightarrow> Q (Some (ack n)) u"
  shows "twp (read_all send_os 0 n) Q E s"
proof -
  have "length (ack n) = n" "ack n \<noteq> []" "0 < n" using length_ack [OF assms(3)] assms(3) by auto
  then show ?thesis using assms
    by (simp add: stage_def read_all_def twp_def loop.simps bnd_def seq_def guarded_def set_block_def O_NONBLOCK_def sys_def
        sys_res_def gets_def ret_def send_os_def Let_def)
qed

lemma send_verdict:
  assumes "stage 1 (crc32_buf 0 message) d [] s" and "\<And>u. stage 3 (crc32_buf 0 message) d (ack 16 @ ack 4) u \<Longrightarrow> Q () u"
  shows "twp (wait_for_result send_os) Q E s"
proof -
  have ack: "decode_result_header (ack 16) = \<lparr> error_code = 0, pad = 0, crc32 = crc32_buf 0 message \<rparr>"
    "last_namelen (decode_result_header_ext (ack 4)) = 0"
    using result_hdr.dec_enc by (simp_all add: ack_def decode_result_header_ext_def le_value_zero)
  have none: "twp (read_all send_os 0 0) Q E u" if "Q (Some []) u" for Q E and u :: "nat pack"
    using that by (simp add: read_all_def twp_def loop.simps ret_def)
  show ?thesis
    unfolding wait_for_result_def wp_simps sizeof_result_header_def sizeof_result_header_ext_def Let_def
  proof (rule send_read [OF assms(1)], goal_cases)
    case (3 u)
    show ?case unfolding option.case wp_bnd
    proof (rule send_read [OF 3], goal_cases)
      case (3 v)
      then have "stage 3 (crc32_buf 0 message) d (ack 16 @ ack 4) (v\<lparr>errno := 0\<rparr>)" by (simp add: stage_def)
      with assms(2) 3 show ?case
        by (auto simp add: ack wp_simps judge_result_def Let_def stage_def intro!: none)
    qed simp_all
  qed simp_all
qed

lemma send_end:
  assumes "stage 1 (crc32_buf 0 (stream [file_entry])) (stream [file_entry]) [] s"
  shows "\<exists>u. notify_end_and_wait_for_result send_os s = Some (Inr (), u) \<and>
     stage 3 (crc32_buf 0 message) message (ack 16 @ ack 4) u"
proof -
  have m: "crc32_buf (crc32_buf 0 (stream [file_entry])) end_marker = crc32_buf 0 message"
    by (simp add: message_def flip: crc.update_append)
  have l: "length end_marker = 32" "end_marker \<noteq> []"
    using length_end_marker by (auto simp add: sizeof_file_header_def)
  have "twp (notify_end_and_wait_for_result send_os)
     (\<lambda>_. stage 3 (crc32_buf 0 message) message (ack 16 @ ack 4)) (\<lambda>_ _. False) s"
    unfolding notify_end_and_wait_for_result_def end_marker_def [symmetric] wp_bnd
  proof (rule send_write_crc [OF assms], goal_cases)
    case (1 u)
    then have u: "stage 1 (crc32_buf 0 message) message [] u" unfolding m by (simp add: message_def)
    have "twp (set_block send_os 0) (\<lambda>_. stage 1 (crc32_buf 0 message) message []) (\<lambda>_ _. False) u"
      using u by (simp add: set_block_def Let_def wp_simps stage_def send_world)
    then show ?case unfolding wp_seq by (rule twp_mono) (rule send_verdict, assumption+)
  qed (simp_all add: l sizeof_file_header_def)
  from twp_returned [OF this] show ?thesis by auto
qed

text \<open>A receiver whose world is the input that is left; every other call succeeds.\<close>

definition stream_os :: "bytes os" where
  "stream_os c w =
     (\<lparr> rv = (if status_call c then 0 else 4096), re = 0, rdata = w, rstat = zero_stat, rvfs = (1, 1), rval = 0, rext = zero_ext2 \<rparr>,
      case c of Read f n \<Rightarrow> drop n w | _ \<Rightarrow> w)"

definition receiver :: "bytes \<Rightarrow> bytes unpack" where
  "receiver input = \<lparr> world = input, errno = 0, trace = [], untrusted_namebuf = [0], bytes_limit = 0, files_limit = 0,
     total_bytes = 0, total_files = 0, verbose = 0, opt_wait_for_space_margin = 0, use_tmpfile = False,
     procdir_fd = -1, crc32_sum = 0, notify_progress_func = False \<rparr>"

lemma stream_os_hypotheses: "posix_errors stream_os"
  by (simp add: posix_errors_def stream_os_def)

text \<open>What matters of a state of the receiver: the input that is left, what was read, and the name buffer.\<close>

definition left :: "bytes \<Rightarrow> bytes \<Rightarrow> bytes \<Rightarrow> bytes unpack \<Rightarrow> bool" where
  "left i d nb u \<longleftrightarrow> world u = d \<and> read_from 0 (trace u) = i \<and> untrusted_namebuf u = nb \<and>
     bytes_limit u = 0 \<and> files_limit u = 0 \<and> opt_wait_for_space_margin u = 0 \<and> verbose u = 0 \<and>
     \<not> use_tmpfile u \<and> \<not> unpack.notify_progress_func u"

lemma left_update [simp]:
  "left i d nb (u\<lparr>errno := e\<rparr>) \<longleftrightarrow> left i d nb u"
  "left i d nb (u\<lparr>unpack.crc32_sum := k\<rparr>) \<longleftrightarrow> left i d nb u"
  "left i d nb (u\<lparr>total_bytes := b\<rparr>) \<longleftrightarrow> left i d nb u"
  "left i d nb (u\<lparr>total_files := f\<rparr>) \<longleftrightarrow> left i d nb u"
  by (simp_all add: left_def)

lemma stream_world: "(\<And>f n. c \<noteq> Read f n) \<Longrightarrow> snd (stream_os c w) = w"
  by (cases c) (auto simp add: stream_os_def)

lemma left_other: "left i d nb u \<Longrightarrow> read_by 0 (c, r) = [] \<Longrightarrow> left i d nb (sys_upd d e [(c, r)] u)"
  by (simp add: left_def)

lemma left_world: "left i d nb u \<Longrightarrow> world u = d"
  by (simp add: left_def)

lemma recv_read:
  assumes "left i (x @ d) nb s" and "x \<noteq> []" and "\<And>u. left (i @ x) d nb u \<Longrightarrow> Q (Some x) u"
  shows "twp (read_all stream_os 0 (length x)) Q E s"
  using assms
  by (simp add: left_def read_all_def twp_def loop.simps bnd_def seq_def guarded_def set_block_def O_NONBLOCK_def sys_def
      sys_res_def gets_def ret_def stream_os_def Let_def)

lemma recv_write:
  assumes "left i d nb s" and "buf \<noteq> []" and "length buf \<le> 4096" and "\<And>u. left i d nb u \<Longrightarrow> Q True u"
  shows "twp (write_all stream_os fd buf) Q E s"
  using assms
  by (simp add: left_def write_all_def twp_def loop.simps bnd_def sys_def sys_res_def gets_def ret_def stream_os_def Let_def min_def)

lemma recv_read_crc:
  assumes "left i (x @ d) nb s" and "x \<noteq> []" and "\<And>u. left (i @ x) d nb u \<Longrightarrow> Q (Some x) u" and "n = length x"
  shows "twp (read_all_with_crc stream_os 0 n) Q E s"
  unfolding read_all_with_crc_def wp_simps assms(4)
  by (rule recv_read [OF assms(1,2)]) (simp add: wp_simps assms(3))

lemma recv_copy:
  assumes "left i (file_content @ d) nb s" and "\<And>c u. left (i @ file_content) d nb u \<Longrightarrow> Q (COPY_FILE_OK, Some c) u"
  shows "twp (copy_file stream_os False 4096 0 2 (Some k)) Q E s"
proof -
  have res: "rv (sys_res stream_os (Read 0 2) s) = 2" "rdata (sys_res stream_os (Read 0 2) s) = file_content"
    "snd (stream_os (Read 0 2) (world s)) = d"
    using assms(1) by (simp_all add: sys_res_def stream_os_def file_content_def left_def)
  show ?thesis
    unfolding copy_file_def wp_simps prod.case Let_def
  proof (subst twp_loop, simp add: wp_simps res, rule recv_write [where d = d and i = "i @ file_content" and nb = nb], goal_cases)
    case 1
    from assms(1) show ?case by (simp add: left_def res)
  next
    case (4 u)
    then show ?case
      by (simp add: res, subst twp_loop) (simp add: wp_simps res guarded_def assms(2))
  qed (simp_all add: file_content_def)
qed

lemma recv_regular:
  assumes "left i (file_content @ d) [0x61, 0, 0] s" and "\<And>u. left (i @ file_content) d [0x61, 0, 0] u \<Longrightarrow> Q () u"
  shows "twp (process_one_file_reg stream_os ((header_of [0x61] file_stat)\<lparr>filelen := 2\<rparr>) [0x61, 0, 0] (validate_flags 4)) Q E s"
proof -
  have v: "qubes_pure_validate_file_name_v2 [0x61, 0, 0] (validate_flags 4) = Some 0"
    by (simp add: qubes_pure_validate_file_name_v2_def validate_path_c_str nul_terminated_def c_str_def path_spec_def
        chars_ok_def validate_flags_def flag_check_def has_flag_def flag_defs)
  have res: "rv (sys_res stream_os (Openat a b c d) u) = 4096" "rv (sys_res stream_os (Strdup b) u) = 4096"
    "rv (sys_res stream_os (Fchmod a c) u) = 0" "rv (sys_res stream_os (Futimens a c d e f) u) = 0" for a b c d e f u
    by (simp_all add: sys_res_def stream_os_def)
  have o: "opendir_safe stream_os AT_FDCWD [0x61] = ret (AT_FDCWD, [0x61])"
    by (simp add: fun_eq_iff opendir_safe_def loop.simps ret_def)
  have h: "filelen ((header_of [0x61] file_stat)\<lparr>filelen := 2\<rparr>) = 2" "mode ((header_of [0x61] file_stat)\<lparr>filelen := 2\<rparr>) = 0x81A4"
    "atime_nsec ((header_of [0x61] file_stat)\<lparr>filelen := 2\<rparr>) = 0" "mtime_nsec ((header_of [0x61] file_stat)\<lparr>filelen := 2\<rparr>) = 0"
    by (simp_all add: header_of_def file_stat_def zero_stat_def)
  from assms(1) have lim: "bytes_limit s = 0" "opt_wait_for_space_margin s = 0" "\<not> use_tmpfile s" "\<not> unpack.notify_progress_func s"
    "world s = file_content @ d"
    by (simp_all add: left_def)
  show ?thesis
  proof (simp add: process_one_file_reg_def checked_def v duplicate_def wp_simps res c_str_def o open_output_def lim h
        check_quota_def stream_world, rule recv_copy [where i = i and d = d and nb = "[0x61, 0, 0]"], goal_cases)
    case 1
    from assms(1) show ?case by (simp add: left_def)
  next
    case (2 c u)
    then have u: "world u = d" "\<not> use_tmpfile u" by (simp_all add: left_def)
    have "left (i @ file_content) d [0x61, 0, 0] (sys_upd d e [(Fchmod a b, r1), (Futimens a x y z w, r2), (Close a, r3)]
        (u\<lparr>unpack.crc32_sum := c\<rparr>))" for e a b x y z w r1 r2 r3
      using 2 by (simp add: left_def)
    with assms(2) u show ?case
      by (simp add: wp_simps res link_output_def fix_times_and_perms_def validate_utime_nsec_def S_ISLNK_def stream_world h)
  qed
qed

lemma recv_status:
  assumes "left i d [0x61, 0, 0] s" and "\<And>u. left i d [0x61, 0, 0] u \<Longrightarrow> errno u = errno s \<Longrightarrow> Q () u"
  shows "twp (send_status_and_crc stream_os code (Some [0x61, 0, 0])) Q E s"
proof -
  have l: "length (encode_result_header h) = 16" "length (encode_result_header_ext x) = 4" "encode_result_header h \<noteq> []"
    "encode_result_header_ext x \<noteq> []" for h x
    using result_hdr.length_enc [of h] result_ext.length_enc [of x]
    by (auto simp add: sizeof_result_header_def sizeof_result_header_ext_def)
  show ?thesis unfolding send_status_and_crc_def wp_simps option.case Let_def
  proof (rule recv_write [OF assms(1)], goal_cases)
    case (3 u)
    show ?case unfolding not_True_eq_False if_False
    proof (rule recv_write [OF 3], goal_cases)
      case (3 v)
      show ?case unfolding not_True_eq_False if_False
        by (rule recv_write [OF 3]) (simp_all add: c_str_def assms(2))
    qed (simp_all add: l)
  qed (simp_all add: l)
qed

lemma receives:
  "\<exists>y. do_unpack_ext stream_os 4 (receiver message) = Some (Inr 0, y) \<and> read_from 0 (trace y) = message"
proof -
  let ?h = "(header_of [0x61] file_stat)\<lparr>filelen := 2\<rparr>"
  let ?e = "encode_file_header ?h"
  have h: "namelen ?h = 2" "S_ISREG (mode ?h)" "\<not> S_ISLNK (mode ?h)" by (simp_all add: header_of_def file_modes)
  have e: "length ?e = sizeof_file_header" "?e \<noteq> []" "decode_file_header ?e = ?h" "length end_marker = sizeof_file_header" "end_marker \<noteq> []"
    "namelen (decode_file_header end_marker) = 0"
    using file_hdr.length_enc [of ?h] length_end_marker
    by (auto simp add: sizeof_file_header_def file_hdr.dec_enc end_marker_def)
  have m: "message = ?e @ [0x61, 0] @ file_content @ end_marker"
    by (simp add: message_def file_entry_bytes)
  let ?L = "left message [] [0x61, 0, 0]"
  have last: "twp (unpack_loop stream_os 4) (\<lambda>seen u. seen \<and> errno u = 0 \<and> ?L u) (\<lambda>_ _. False) s"
    if s: "left (?e @ [0x61, 0] @ file_content) (end_marker @ []) [0x61, 0, 0] s" for s
    unfolding unpack_loop_def
    by (subst twp_loop, unfold wp_bnd, rule recv_read_crc [OF s])
      (simp_all add: e Let_def wp_simps m)
  have one: "twp (process_one_file stream_os ?h 4)
      (\<lambda>_. left (?e @ [0x61, 0] @ file_content) (end_marker @ []) [0x61, 0, 0]) (\<lambda>_ _. False) s"
    if s: "left ?e ([0x61, 0] @ file_content @ end_marker) [0] s" for s
  proof (simp add: process_one_file_def h [simplified] wp_simps MAX_PATH_LENGTH_def, rule recv_read_crc [OF s], goal_cases)
    case (2 u)
    have f: "sys_upd w x tr (u\<lparr>untrusted_namebuf := n\<rparr>) = (sys_upd w x tr u)\<lparr>untrusted_namebuf := n\<rparr>" for w x tr n
      by (simp add: sys_upd_def)
    from 2 have u: "untrusted_namebuf u = [0]" "left (?e @ [0x61, 0]) (file_content @ end_marker) [0x61, 0, 0] (u\<lparr>untrusted_namebuf := [0x61, 0, 0]\<rparr>)"
      by (simp_all add: left_def)
    show ?case
      by (simp add: wp_simps u h [simplified], rule recv_regular, rule u(2)) (simp add: wp_simps left_def)
  qed simp_all
  have start: "left [] (?e @ [0x61, 0] @ file_content @ end_marker) [0] ((receiver message)\<lparr>total_bytes := 0, total_files := 0, unpack.crc32_sum := 0\<rparr>)"
    by (simp add: left_def receiver_def m)
  have loop: "twp (unpack_loop stream_os 4) (\<lambda>seen u. seen \<and> errno u = 0 \<and> ?L u) (\<lambda>_ _. False)
     ((receiver message)\<lparr>total_bytes := 0, total_files := 0, unpack.crc32_sum := 0\<rparr>)"
    unfolding unpack_loop_def
  proof (subst twp_loop, unfold wp_bnd, rule recv_read_crc [OF start], goal_cases)
    case (2 u)
    then have u: "left ?e ([0x61, 0] @ file_content @ end_marker) [0] (u\<lparr>total_files := total_files u + 1\<rparr>)" "files_limit u = 0"
      by (simp_all add: left_def)
    show ?case
      by (simp add: e Let_def wp_simps h [simplified] u, rule twp_mono [OF one [OF u(1)]])
        (use last [unfolded unpack_loop_def Let_def] in simp_all)
  qed (simp_all add: e)
  have res: "rv (sys_res stream_os (Open p f) u) = 4096" "rv (sys_res stream_os (Syncfs x) u) = 0"
    "rv (sys_res stream_os (Close x) u) = 0" for p f x u
    by (simp_all add: sys_res_def stream_os_def)
  have report: "twp (sync_and_report stream_os) (\<lambda>v y. v = 0 \<and> read_from 0 (trace y) = message) (\<lambda>_ _. False) u"
    if u: "errno u = 0" "?L u" for u
  proof -
    have "untrusted_namebuf u = [0x61, 0, 0]" using u(2) by (simp add: left_def)
    with u show ?thesis
      by (simp add: sync_and_report_def wp_simps res stream_world)
        (rule recv_status [where i = message and d = "[]"], simp_all add: left_def)
  qed
  have "twp (do_unpack_ext stream_os 4) (\<lambda>v y. v = 0 \<and> read_from 0 (trace y) = message) (\<lambda>_ _. False) (receiver message)"
    unfolding do_unpack_ext_def wp_simps by (rule twp_mono [OF loop]) (auto intro: report)
  from twp_returned [OF this] show ?thesis by auto
qed

section \<open>Witnesses\<close>

lemma pack_unpack_round_trip_witness:
  "\<exists>es tr y. do_unpack_ext stream_os 4 (receiver message) = Some (Inr 0, y) \<and> walked False [0x61] tr es \<and>
     list_all (entry_ok 4) es \<and> es \<noteq> [] \<and> read_from 0 (trace y) = stream es @ end_marker"
proof -
  from send_walk obtain t where t: "do_fs_walk 1 send_os [0x61] False (fresh_pack 0) = Some (Inr (), t)"
    "stage 1 (crc32_buf 0 (stream [file_entry])) (stream [file_entry]) [] t" by blast
  from send_end [OF t(2)] obtain u where u: "notify_end_and_wait_for_result send_os t = Some (Inr (), u)"
    "written_to 1 (trace u) = message" by (auto simp add: stage_def)
  from receives obtain y where y: "do_unpack_ext stream_os 4 (receiver message) = Some (Inr 0, y)"
    "read_from 0 (trace y) = message" by blast
  have "trace u = trace (fresh_pack 0) @ trace u" "trace y = trace (receiver message) @ trace y"
    by (simp_all add: fresh_pack_def receiver_def)
  from pack_unpack_round_trip [OF send_os_hypotheses t(1) u(1) this(1) stream_os_hypotheses y(1) this(2)] u(2) y(2)
  obtain es tr where es: "walked False [0x61] tr es" "list_all (entry_ok 4) es" "message = stream es @ end_marker" by auto
  then have "es \<noteq> []" by (auto simp add: message_def entry_for_def)
  with es y show ?thesis by auto
qed

lemma transfer_intact_witness:
  "\<exists>t u es. do_fs_walk 1 send_os [0x61] False (fresh_pack 0) = Some (Inr (), t) \<and>
     notify_end_and_wait_for_result send_os t = Some (Inr (), u) \<and> message = stream es @ end_marker \<and> 
     written_to 1 (trace t) = stream es"
proof -
  from send_walk obtain t where t: "do_fs_walk 1 send_os [0x61] False (fresh_pack 0) = Some (Inr (), t)"
    "stage 1 (crc32_buf 0 (stream [file_entry])) (stream [file_entry]) [] t" by blast
  from send_end [OF t(2)] obtain u where u: "notify_end_and_wait_for_result send_os t = Some (Inr (), u)"
    "read_from 0 (trace u) = ack 16 @ ack 4" by (auto simp add: stage_def)
  from sender_bytes [OF send_os_hypotheses t(1) u(1)] obtain tr where tr: "trace u = trace t @ tr" by blast
  then have read: "read_from 0 tr = ack 16 @ ack 4" using u(2) t(2) by (simp add: stage_def)
  have "replicate 4 0 = encode_result_header_ext \<lparr> last_namelen = 0 \<rparr>"
    by (simp add: encode_result_header_ext_def le_bytes_def numeral_eq_Suc)
  then have verdict: "prefix (read_from 0 tr) (status_message 0 (crc32_buf 0 message) [])"
    unfolding read by (simp add: status_message_def ack_def)
  have len: "sizeof_result_header \<le> length (read_from 0 tr)"
    unfolding read by (simp add: length_ack sizeof_result_header_def)
  have "pack.crc32_sum (fresh_pack 0) = 0" by (simp add: fresh_pack_def)
  from transfer_intact [OF send_os_hypotheses t(1) this u(1) tr len verdict] obtain es tr'
    where es: "trace t = trace (fresh_pack 0) @ tr'" "written_to 1 tr' = stream es"
      "differ_within 4 message (stream es @ end_marker) \<longrightarrow> message = stream es @ end_marker" by blast
  have "written_to 1 (trace t) = stream es" using es(1,2) by (simp add: fresh_pack_def)
  moreover from this have "message = stream es @ end_marker" using t(2) by (simp add: stage_def message_def)
  ultimately show ?thesis using t(1) u(1) by blast
qed

end
