(* ===== verification/Gpt_Format.thy ===== *)
theory Gpt_Format
  imports Filecopy_Format
begin

text \<open>
  The on-disk structures of \<open>src/gptfixer/gpt.c\<close>.  A packed array of bytes inside a structure
  is the word it makes in little-endian order; the layouts are wire formats in the sense of
  \<open>Filecopy_Format\<close>.  The master boot record is the buffer it is read into, with its partition
  records decoded in place.
\<close>

unbundle bit_operations_syntax

record GPTHeader =
  Signature :: u64
  Revision :: u32
  HeaderSize :: u32
  HeaderCRC32 :: u32
  Reserved :: u32
  MyLBA :: u64
  AlternateLBA :: u64
  FirstUsableLBA :: u64
  LastUsableLBA :: u64
  DiskGUID :: "128 word"
  PartitionEntryLBA :: u64
  NumberOfPartitionEntries :: u32
  SizeOfPartitionEntry :: u32
  PartitionEntryArrayCRC32 :: u32

record GPTPartitionEntry =
  PartitionTypeGUID :: "128 word"
  UniquePartitionGUID :: "128 word"
  StartingLBA :: u64
  EndingLBA :: u64
  Attributes :: u64
  PartitionName :: "576 word"

record MbrPartitionRecord =
  boot_indicator :: u8
  starting_chs :: "24 word"
  os_type :: u8
  ending_chs :: "24 word"
  starting_lba :: u32
  size_in_lba :: u32

definition sizeof_GPTHeader :: nat where "sizeof_GPTHeader = 92"
definition sizeof_GPTPartitionEntry :: nat where "sizeof_GPTPartitionEntry = 128"
definition sizeof_MbrPartitionRecord :: nat where "sizeof_MbrPartitionRecord = 16"
definition sizeof_Mbr :: nat where "sizeof_Mbr = 512"

definition EFI_PART :: u64 where "EFI_PART = le_value (map (of_char :: char \<Rightarrow> u8) ''EFI PART'')"

definition encode_GPTHeader :: "GPTHeader \<Rightarrow> bytes" where
  "encode_GPTHeader h =
     le_bytes 8 (Signature h) @ le_bytes 4 (Revision h) @ le_bytes 4 (HeaderSize h) @
     le_bytes 4 (HeaderCRC32 h) @ le_bytes 4 (Reserved h) @ le_bytes 8 (MyLBA h) @
     le_bytes 8 (AlternateLBA h) @ le_bytes 8 (FirstUsableLBA h) @ le_bytes 8 (LastUsableLBA h) @
     le_bytes 16 (DiskGUID h) @ le_bytes 8 (PartitionEntryLBA h) @ le_bytes 4 (NumberOfPartitionEntries h) @
     le_bytes 4 (SizeOfPartitionEntry h) @ le_bytes 4 (PartitionEntryArrayCRC32 h)"

definition decode_GPTHeader :: "bytes \<Rightarrow> GPTHeader" where
  "decode_GPTHeader b =
     \<lparr> Signature = le_value (take 8 b), Revision = le_value (take 4 (drop 8 b)),
       HeaderSize = le_value (take 4 (drop 12 b)), HeaderCRC32 = le_value (take 4 (drop 16 b)),
       Reserved = le_value (take 4 (drop 20 b)), MyLBA = le_value (take 8 (drop 24 b)),
       AlternateLBA = le_value (take 8 (drop 32 b)), FirstUsableLBA = le_value (take 8 (drop 40 b)),
       LastUsableLBA = le_value (take 8 (drop 48 b)), DiskGUID = le_value (take 16 (drop 56 b)),
       PartitionEntryLBA = le_value (take 8 (drop 72 b)),
       NumberOfPartitionEntries = le_value (take 4 (drop 80 b)),
       SizeOfPartitionEntry = le_value (take 4 (drop 84 b)),
       PartitionEntryArrayCRC32 = le_value (take 4 (drop 88 b)) \<rparr>"

definition encode_GPTPartitionEntry :: "GPTPartitionEntry \<Rightarrow> bytes" where
  "encode_GPTPartitionEntry e =
     le_bytes 16 (PartitionTypeGUID e) @ le_bytes 16 (UniquePartitionGUID e) @
     le_bytes 8 (StartingLBA e) @ le_bytes 8 (EndingLBA e) @ le_bytes 8 (Attributes e) @
     le_bytes 72 (PartitionName e)"

definition decode_GPTPartitionEntry :: "bytes \<Rightarrow> GPTPartitionEntry" where
  "decode_GPTPartitionEntry b =
     \<lparr> PartitionTypeGUID = le_value (take 16 b), UniquePartitionGUID = le_value (take 16 (drop 16 b)),
       StartingLBA = le_value (take 8 (drop 32 b)), EndingLBA = le_value (take 8 (drop 40 b)),
       Attributes = le_value (take 8 (drop 48 b)), PartitionName = le_value (take 72 (drop 56 b)) \<rparr>"

definition encode_MbrPartitionRecord :: "MbrPartitionRecord \<Rightarrow> bytes" where
  "encode_MbrPartitionRecord r =
     le_bytes 1 (boot_indicator r) @ le_bytes 3 (starting_chs r) @ le_bytes 1 (os_type r) @
     le_bytes 3 (ending_chs r) @ le_bytes 4 (starting_lba r) @ le_bytes 4 (size_in_lba r)"

definition decode_MbrPartitionRecord :: "bytes \<Rightarrow> MbrPartitionRecord" where
  "decode_MbrPartitionRecord b =
     \<lparr> boot_indicator = le_value (take 1 b), starting_chs = le_value (take 3 (drop 1 b)),
       os_type = le_value (take 1 (drop 4 b)), ending_chs = le_value (take 3 (drop 5 b)),
       starting_lba = le_value (take 4 (drop 8 b)), size_in_lba = le_value (take 4 (drop 12 b)) \<rparr>"

lemma le_exact_gpt:
  "le_value (le_bytes 16 g) = (g :: 128 word)" "le_value (le_bytes 72 n) = (n :: 576 word)"
  "le_value (le_bytes 3 c) = (c :: 24 word)" "le_value (le_bytes (Suc 0) b) = (b :: u8)"
  by (simp_all add: le_value_le_bytes)

lemma le_bytes_gpt:
  "length b = 16 \<Longrightarrow> le_bytes 16 (le_value b :: 128 word) = b"
  "length b = 72 \<Longrightarrow> le_bytes 72 (le_value b :: 576 word) = b"
  "length b = 3 \<Longrightarrow> le_bytes 3 (le_value b :: 24 word) = b"
  "length b = Suc 0 \<Longrightarrow> le_bytes (Suc 0) (le_value b :: u8) = b"
  using le_bytes_le_value [of b, where 'a = 128] le_bytes_le_value [of b, where 'a = 576]
    le_bytes_le_value [of b, where 'a = 24] le_bytes_le_value [of b, where 'a = 8] by simp_all

interpretation gpt_hdr: wire_format encode_GPTHeader decode_GPTHeader sizeof_GPTHeader
proof
  fix h show "length (encode_GPTHeader h) = sizeof_GPTHeader"
    by (simp add: encode_GPTHeader_def sizeof_GPTHeader_def)
  show "decode_GPTHeader (encode_GPTHeader h) = h"
    by (simp add: encode_GPTHeader_def decode_GPTHeader_def le_value_exact le_exact_gpt)
next
  fix b :: bytes assume "length b = sizeof_GPTHeader"
  then have "length b = 8 + (4 + (4 + (4 + (4 + (8 + (8 + (8 + (8 + (16 + (8 + (4 + (4 + 4))))))))))))"
    by (simp add: sizeof_GPTHeader_def)
  then obtain x1 x2 x3 x4 x5 x6 x7 x8 x9 x10 x11 x12 x13 x14
    where "b = x1 @ x2 @ x3 @ x4 @ x5 @ x6 @ x7 @ x8 @ x9 @ x10 @ x11 @ x12 @ x13 @ x14"
    "length x1 = 8" "length x2 = 4" "length x3 = 4" "length x4 = 4" "length x5 = 4" "length x6 = 8" "length x7 = 8"
    "length x8 = 8" "length x9 = 8" "length x10 = 16" "length x11 = 8" "length x12 = 4" "length x13 = 4" "length x14 = 4"
    by (elim bytes_split) blast
  then show "encode_GPTHeader (decode_GPTHeader b) = b"
    by (simp add: encode_GPTHeader_def decode_GPTHeader_def le_bytes_exact le_bytes_gpt)
qed

interpretation gpt_ent: wire_format encode_GPTPartitionEntry decode_GPTPartitionEntry sizeof_GPTPartitionEntry
proof
  fix h show "length (encode_GPTPartitionEntry h) = sizeof_GPTPartitionEntry"
    by (simp add: encode_GPTPartitionEntry_def sizeof_GPTPartitionEntry_def)
  show "decode_GPTPartitionEntry (encode_GPTPartitionEntry h) = h"
    by (simp add: encode_GPTPartitionEntry_def decode_GPTPartitionEntry_def le_value_exact le_exact_gpt)
next
  fix b :: bytes assume "length b = sizeof_GPTPartitionEntry"
  then have "length b = 16 + (16 + (8 + (8 + (8 + 72))))" by (simp add: sizeof_GPTPartitionEntry_def)
  then obtain x1 x2 x3 x4 x5 x6 where "b = x1 @ x2 @ x3 @ x4 @ x5 @ x6"
    "length x1 = 16" "length x2 = 16" "length x3 = 8" "length x4 = 8" "length x5 = 8" "length x6 = 72"
    by (elim bytes_split) blast
  then show "encode_GPTPartitionEntry (decode_GPTPartitionEntry b) = b"
    by (simp add: encode_GPTPartitionEntry_def decode_GPTPartitionEntry_def le_bytes_exact le_bytes_gpt)
qed

interpretation mbr_part: wire_format encode_MbrPartitionRecord decode_MbrPartitionRecord sizeof_MbrPartitionRecord
proof
  fix h show "length (encode_MbrPartitionRecord h) = sizeof_MbrPartitionRecord"
    by (simp add: encode_MbrPartitionRecord_def sizeof_MbrPartitionRecord_def)
  show "decode_MbrPartitionRecord (encode_MbrPartitionRecord h) = h"
    by (simp add: encode_MbrPartitionRecord_def decode_MbrPartitionRecord_def le_value_exact le_exact_gpt)
next
  fix b :: bytes assume "length b = sizeof_MbrPartitionRecord"
  then have "length b = 1 + (3 + (1 + (3 + (4 + 4))))" by (simp add: sizeof_MbrPartitionRecord_def)
  then obtain x1 x2 x3 x4 x5 x6 where "b = x1 @ x2 @ x3 @ x4 @ x5 @ x6"
    "length x1 = 1" "length x2 = 3" "length x3 = 1" "length x4 = 3" "length x5 = 4" "length x6 = 4"
    by (elim bytes_split) blast
  then show "encode_MbrPartitionRecord (decode_MbrPartitionRecord b) = b"
    by (simp add: encode_MbrPartitionRecord_def decode_MbrPartitionRecord_def le_bytes_exact le_bytes_gpt)
qed

end
