(* ===== verification/Gpt.thy ===== *)
theory Gpt
  imports Gpt_Format File_Io Sys_Common
begin

text \<open>
  The partition-table tool, \<open>src/gptfixer/gpt.c\<close>: it finds a GPT that was written for the other
  sector size (512 or 4096 bytes) and rewrites it for the device's.  zlib's \<open>crc32(0, \<dots>)\<close> is
  the parameter \<open>zcrc\<close>.  A failed \<open>assert\<close>, an \<open>abort()\<close> and an access outside a buffer are
  \<open>Abort\<close>; \<open>err\<close> and \<open>errx\<close> are a message and \<open>Exit\<close>.  A line of the log is one call of the
  environment, which may fail.
\<close>

unbundle bit_operations_syntax

definition EXIT_IO :: int where "EXIT_IO = 2"
definition EXIT_UNSUPPORTED :: int where "EXIT_UNSUPPORTED = 3"
definition EXIT_NOT_PARTITIONED :: int where "EXIT_NOT_PARTITIONED = 4"
definition EXIT_INVALID_GPT :: int where "EXIT_INVALID_GPT = 5"
definition EXIT_CONSTRAINT :: int where "EXIT_CONSTRAINT = 6"
definition EXIT_NEEDS_FIX :: int where "EXIT_NEEDS_FIX = 7"
definition EXIT_TRUNCATED :: int where "EXIT_TRUNCATED = 8"

section \<open>Messages, assertions, memory\<close>

definition vlog :: "'w os \<Rightarrow> string \<Rightarrow> u64 list \<Rightarrow> ('w sys, unit) prog" where
  "vlog os fmt args =
     bnd (sys os (Device (Vlog fmt args))) (\<lambda>r.
     guarded (rv r < 0) (errx os EXIT_IO ''gptfix: log write error''))"

definition bool_ioctl :: "'w os \<Rightarrow> fd \<Rightarrow> u64 \<Rightarrow> ('w sys, bool \<times> u64) prog" where
  "bool_ioctl os fd op =
     bnd (sys os (Device (Ioctl fd op))) (\<lambda>r.
       if rv r = 0 then ret (True, rval r)
       else if rv r = -1 then ret (False, rval r)
       else seq (warnx os ''invalid return value from ioctl()'') (halt Abort))"

section \<open>Sizes\<close>

definition gpt_partition_table_bytes :: "GPTHeader \<Rightarrow> u64" where
  "gpt_partition_table_bytes gpt = ucast (NumberOfPartitionEntries gpt) * ucast (SizeOfPartitionEntry gpt)"

definition valid_sector_size :: "u32 \<Rightarrow> bool" where
  "valid_sector_size ss \<longleftrightarrow> ss \<ge> 512 \<and> ss AND (ss - 1) = 0"

record GPT =
  gpt_header :: GPTHeader
  gpt_used_entries :: u32
  gpt_entries :: bytes
  gpt_sector_size :: u32

text \<open>\<open>None\<close> is a failed assertion.\<close>

definition round_to_next_sector :: "u64 \<Rightarrow> u32 \<Rightarrow> u64 option" where
  "round_to_next_sector v ss =
     (if \<not> valid_sector_size ss then None
      else
        let sum = v + ucast (ss - 1) in
        if sum < v then None else Some (sum AND NOT (ucast (ss - 1))))"

definition gpt_partition_table_required_bytes :: "GPT \<Rightarrow> u32 \<Rightarrow> u32 \<Rightarrow> u64 option" where
  "gpt_partition_table_required_bytes gpt ss n =
     (if \<not> valid_sector_size ss then None
      else round_to_next_sector (ucast (SizeOfPartitionEntry (gpt_header gpt)) * ucast n) ss)"

section \<open>The protective MBR\<close>

definition mbr_record :: "bytes \<Rightarrow> nat \<Rightarrow> bytes" where
  "mbr_record mbr i = take 16 (drop (446 + 16 * i) mbr)"

definition expected_size_in_lba :: "u64 \<Rightarrow> u32" where
  "expected_size_in_lba size_in_sectors =
     (if size_in_sectors - 1 > 0xFFFFFFFF then 0xFFFFFFFF else ucast (size_in_sectors - 1))"

definition check_mbr :: "'w os \<Rightarrow> bytes \<Rightarrow> u64 \<Rightarrow> bool \<Rightarrow> bool \<Rightarrow> ('w sys, bytes) prog" where
  "check_mbr os mbr size_in_sectors skip_bpb_check verbose =
     (if length mbr < sizeof_Mbr then halt Abort
      else if mbr ! 510 \<noteq> 0x55 \<or> mbr ! 511 \<noteq> 0xAA then
        errx os EXIT_NOT_PARTITIONED ''Invalid MBR signature''
      else
        let first_partition = decode_MbrPartitionRecord (mbr_record mbr 0) in
        if os_type first_partition \<noteq> 0xEE then
          errx os EXIT_UNSUPPORTED ''Bad protective MBR: OS type is not GPT Protective''
        else if \<not> list_all (\<lambda>i. mbr_record mbr i = replicate 16 0) [1, 2, 3] then
          errx os EXIT_UNSUPPORTED ''this device does not have a protective MBR''
        else if starting_lba first_partition \<noteq> 1 then
          errx os EXIT_INVALID_GPT ''Bad protective MBR: does not start at first block''
        else if \<not> skip_bpb_check \<and> \<not> list_all (\<lambda>c. c = 0) (take 11 (drop 3 mbr)) then
          errx os EXIT_UNSUPPORTED ''Refusing to change partition table that might overlap a FAT or NTFS volume''
        else
          let expected = expected_size_in_lba size_in_sectors in
          if size_in_lba first_partition \<noteq> expected then
            seq (guarded verbose (warnx os ''Protective MBR does not cover whole disk''))
            (ret (take 458 mbr @ le_bytes 4 expected @ drop 462 mbr))
          else ret mbr)"

section \<open>Entries\<close>

definition unused_entry :: "GPTPartitionEntry \<Rightarrow> bool" where
  "unused_entry e \<longleftrightarrow> PartitionTypeGUID e = 0"

text \<open>The bytes of entry \<open>i\<close>, and the entry; \<open>None\<close> outside the array.\<close>

definition entry_bytes_at :: "GPT \<Rightarrow> u32 \<Rightarrow> bytes option" where
  "entry_bytes_at gpt i =
     (let n = unat (SizeOfPartitionEntry (gpt_header gpt)); off = unat i * n in
      if off + n \<le> length (gpt_entries gpt) then Some (take n (drop off (gpt_entries gpt))) else None)"

definition entry_at :: "GPT \<Rightarrow> u32 \<Rightarrow> GPTPartitionEntry option" where
  "entry_at gpt i =
     Option.bind (entry_bytes_at gpt i) (\<lambda>b.
       if length b < sizeof_GPTPartitionEntry then None
       else Some (decode_GPTPartitionEntry (take sizeof_GPTPartitionEntry b)))"

definition gpt_entry :: "GPT \<Rightarrow> u32 \<Rightarrow> bytes option" where
  "gpt_entry gpt i =
     (if i < NumberOfPartitionEntries (gpt_header gpt) then entry_bytes_at gpt i else None)"

text \<open>
  The loop over the used entries: the body goes on with \<open>Inl\<close> of the loop's variables or
  leaves with \<open>Inr\<close>.
\<close>

definition for_each_used_gpt_entry ::
  "GPT \<Rightarrow> (u32 \<Rightarrow> GPTPartitionEntry \<Rightarrow> 'v \<Rightarrow> ('s, 'v + 'x) prog) \<Rightarrow> 'v \<Rightarrow> ('s, 'v + 'x) prog" where
  "for_each_used_gpt_entry gpt body v =
     seq (assert_c (unat (SizeOfPartitionEntry (gpt_header gpt)) \<ge> sizeof_GPTPartitionEntry))
     (loop (\<lambda>(i, v).
       if i < gpt_used_entries gpt then
         bnd (checked (entry_at gpt i)) (\<lambda>e.
           if unused_entry e then ret (Inl (i + 1, v))
           else bnd (body i e v) (\<lambda>r.
             ret (case r of Inl v' \<Rightarrow> Inl (i + 1, v') | Inr x \<Rightarrow> Inr (Inr x))))
       else ret (Inr (Inl v))) (0, v))"

section \<open>A new table for another sector size\<close>

definition fixup_gpt :: "(bytes \<Rightarrow> u64) \<Rightarrow> GPT \<Rightarrow> u64 \<Rightarrow> GPT option" where
  "fixup_gpt zcrc gpt bytes_required =
     (let partition_entry_bytes = gpt_partition_table_bytes (gpt_header gpt); n = unat partition_entry_bytes in
      if partition_entry_bytes > 0xFFFFFFFF \<or> length (gpt_entries gpt) < unat bytes_required \<or>
         bytes_required < partition_entry_bytes then None
      else
        let h = (gpt_header gpt)\<lparr>PartitionEntryArrayCRC32 := ucast (zcrc (take n (gpt_entries gpt)))\<rparr>;
            h = h\<lparr>HeaderCRC32 := ucast (zcrc (encode_GPTHeader h))\<rparr> in
        Some (gpt\<lparr>gpt_header := h,
          gpt_entries := take n (gpt_entries gpt) @ replicate (unat bytes_required - n) 0 @
            drop (unat bytes_required) (gpt_entries gpt)\<rparr>))"

definition move_entry :: "u32 \<Rightarrow> u32 \<Rightarrow> GPTPartitionEntry \<Rightarrow> GPTPartitionEntry" where
  "move_entry old_ss ss old_entry =
     (let start_byte_offset = StartingLBA old_entry * ucast old_ss;
          end_byte_offset = (EndingLBA old_entry + 1) * ucast old_ss in
      old_entry\<lparr>StartingLBA := start_byte_offset div ucast ss, EndingLBA := end_byte_offset div ucast ss - 1\<rparr>)"

text \<open>The copy of one entry into slot \<open>i\<close> of the new array \<open>b\<close>.\<close>

definition copy_entry :: "GPT \<Rightarrow> u32 \<Rightarrow> nat \<Rightarrow> bytes \<Rightarrow> bytes option" where
  "copy_entry gpt ss i b =
     Option.bind (gpt_entry gpt (word_of_nat i)) (\<lambda>old.
       let n = unat (SizeOfPartitionEntry (gpt_header gpt)) in
       if n < sizeof_GPTPartitionEntry \<or> length b < (i + 1) * n then None
       else
         let old_entry = decode_GPTPartitionEntry (take sizeof_GPTPartitionEntry old);
             new = (if unused_entry old_entry then old
                    else encode_GPTPartitionEntry (move_entry (gpt_sector_size gpt) ss old_entry) @
                      drop sizeof_GPTPartitionEntry old) in
         Some (take (i * n) b @ new @ drop ((i + 1) * n) b))"

fun copy_entries :: "GPT \<Rightarrow> u32 \<Rightarrow> nat \<Rightarrow> nat \<Rightarrow> bytes \<Rightarrow> bytes option" where
  "copy_entries gpt ss i 0 b = Some b"
| "copy_entries gpt ss i (Suc n) b = Option.bind (copy_entry gpt ss i b) (copy_entries gpt ss (i + 1) n)"

text \<open>The index of the lowest set bit, \<open>__builtin_ctz\<close>.\<close>

definition ctz :: "u32 \<Rightarrow> nat" where
  "ctz w = length (takeWhile (\<lambda>i. \<not> bit w i) [0..<32])"

text \<open>
  The bounds of the used area: the first byte of the partition that starts first, the byte
  after the one that ends last, and the two indices.
\<close>

definition scan_partitions :: "'w os \<Rightarrow> u32 \<Rightarrow> GPT \<Rightarrow> bool \<Rightarrow> ('w sys, u64 \<times> u64 \<times> u32 \<times> u32) prog" where
  "scan_partitions os ss gpt verbose =
     bnd (for_each_used_gpt_entry gpt (\<lambda>i e (first_start, last_end, first_i, last_i).
       let start_byte_offset = StartingLBA e * ucast (gpt_sector_size gpt);
           end_byte_offset = (EndingLBA e + 1) * ucast (gpt_sector_size gpt) in
       seq (guarded verbose (vlog os ''Partition consumes bytes'' [start_byte_offset, end_byte_offset]))
       (if start_byte_offset mod ucast ss \<noteq> 0 then
          errx os EXIT_CONSTRAINT ''Cannot preserve starting LBA for partition''
        else if end_byte_offset mod ucast ss \<noteq> 0 then
          errx os EXIT_CONSTRAINT ''Cannot preserve ending LBA for partition''
        else
          let (first_start, first_i) =
                (if start_byte_offset < first_start then (start_byte_offset, i) else (first_start, first_i));
              (last_end, last_i) =
                (if last_end \<le> end_byte_offset then (end_byte_offset, i) else (last_end, last_i)) in
          ret (Inl (first_start, last_end, first_i, last_i)))) (- 1, 0, - 1, - 1))
     (\<lambda>r. case r of Inl v \<Rightarrow> ret v | Inr v \<Rightarrow> ret v)"

text \<open>
  What the new table is laid out from: the sizes fixed by the scan and the checks that the
  tables fit before and behind the partitions.
\<close>

definition new_header :: "u64 \<Rightarrow> u32 \<Rightarrow> u64 \<Rightarrow> GPT \<Rightarrow> u32 \<Rightarrow> u64 \<Rightarrow> GPTHeader" where
  "new_header sector_offset ss sectors gpt new_entries partition_table_bytes =
     (let size = ucast ss * sectors;
          primary_required = partition_table_bytes + 2 * ucast ss;
          backup_required = partition_table_bytes + ucast ss;
          sectors_required = drop_bit (ctz ss) partition_table_bytes;
          first_usable_byte = max (FirstUsableLBA (gpt_header gpt) * ucast (gpt_sector_size gpt)) primary_required;
          first_unusable_byte =
            min ((LastUsableLBA (gpt_header gpt) + 1) * ucast (gpt_sector_size gpt)) (size - backup_required);
          primary = (sector_offset = 1) in
      \<lparr> Signature = EFI_PART, Revision = Revision (gpt_header gpt), HeaderSize = HeaderSize (gpt_header gpt),
        HeaderCRC32 = 0, Reserved = 0, MyLBA = sector_offset, AlternateLBA = (if primary then sectors - 1 else 1),
        FirstUsableLBA = the (round_to_next_sector first_usable_byte ss) div ucast ss,
        LastUsableLBA = first_unusable_byte div ucast ss - 1,
        DiskGUID = DiskGUID (gpt_header gpt),
        PartitionEntryLBA = (if primary then 2 else sectors - 1 - sectors_required),
        NumberOfPartitionEntries = new_entries, SizeOfPartitionEntry = SizeOfPartitionEntry (gpt_header gpt),
        PartitionEntryArrayCRC32 = 0 \<rparr>)"

text \<open>The assertion inside \<open>round_to_next_sector\<close> when the header is made.\<close>

definition first_usable_fits :: "u32 \<Rightarrow> GPT \<Rightarrow> u64 \<Rightarrow> bool" where
  "first_usable_fits ss gpt partition_table_bytes \<longleftrightarrow>
     round_to_next_sector (max (FirstUsableLBA (gpt_header gpt) * ucast (gpt_sector_size gpt))
       (partition_table_bytes + 2 * ucast ss)) ss \<noteq> None"

definition build_gpt ::
  "'w os \<Rightarrow> (bytes \<Rightarrow> u64) \<Rightarrow> u64 \<Rightarrow> u32 \<Rightarrow> u64 \<Rightarrow> GPT \<Rightarrow> bool \<Rightarrow> u32 \<Rightarrow> u64 \<Rightarrow> ('w sys, GPT \<times> u64) prog" where
  "build_gpt os zcrc sector_offset ss sectors gpt verbose new_entries partition_table_bytes =
     bnd (malloc os (unat ss)) (\<lambda>_.
     seq (assert_c (first_usable_fits ss gpt partition_table_bytes))
     (let h = new_header sector_offset ss sectors gpt new_entries partition_table_bytes in
      seq (guarded verbose (vlog os ''LBA, Alternate LBA, bytes allocated''
             [sector_offset, AlternateLBA h, partition_table_bytes]))
      (bnd (malloc os (unat partition_table_bytes)) (\<lambda>junk.
       bnd (checked (copy_entries gpt ss 0 (unat new_entries) junk)) (\<lambda>es.
       bnd (checked (fixup_gpt zcrc
              \<lparr> gpt_header = h, gpt_used_entries = new_entries, gpt_entries = es, gpt_sector_size = 0 \<rparr>
              partition_table_bytes)) (\<lambda>new_gpt.
       ret (new_gpt, partition_table_bytes)))))))"

definition gpt_adjust_sectors ::
  "'w os \<Rightarrow> (bytes \<Rightarrow> u64) \<Rightarrow> u64 \<Rightarrow> u32 \<Rightarrow> u64 \<Rightarrow> GPT \<Rightarrow> bool \<Rightarrow> ('w sys, GPT \<times> u64) prog" where
  "gpt_adjust_sectors os zcrc sector_offset ss sectors gpt verbose =
     seq (assert_c (sectors \<ge> 6))
     (seq (assert_c (valid_sector_size (gpt_sector_size gpt)))
     (seq (assert_c (valid_sector_size ss))
     (seq (assert_c (sector_offset = 1 \<or> sector_offset = sectors - 1))
     (let size = ucast ss * sectors in
      bnd (scan_partitions os ss gpt verbose) (\<lambda>(first_start, last_end, first_i, last_i).
      seq (assert_c (first_start < last_end))
      (bnd (checked (gpt_partition_table_required_bytes gpt ss (gpt_used_entries gpt))) (\<lambda>partition_table_bytes.
       let backup_required = partition_table_bytes + ucast ss;
           primary_required = partition_table_bytes + 2 * ucast ss in
       seq (assert_c (size \<ge> last_end))
       (seq (guarded (size - last_end < backup_required)
          (seq (vlog os ''The first byte after partition'' [ucast (last_i + 1), last_end, size - last_end])
          (seq (vlog os ''However, bytes are needed at the end'' [backup_required])
          (halt (Exit EXIT_CONSTRAINT)))))
       (seq (guarded (primary_required > first_start)
          (errx os EXIT_CONSTRAINT ''The protective MBR, primary GPT header and entries do not fit''))
       (let available = min ((size - ucast ss) - last_end) (first_start - 2 * ucast ss);
            max_entries = available div ucast (SizeOfPartitionEntry (gpt_header gpt)) in
        seq (assert_c (max_entries \<ge> ucast (gpt_used_entries gpt)))
        (let new_entries = ucast (min max_entries (ucast (NumberOfPartitionEntries (gpt_header gpt)))) in
         bnd (checked (gpt_partition_table_required_bytes gpt ss new_entries)) (\<lambda>partition_table_bytes.
         build_gpt os zcrc sector_offset ss sectors gpt verbose new_entries partition_table_bytes))))))))))))"

section \<open>Reading and checking\<close>

text \<open>A warning and the result 0.\<close>

definition reject :: "'w os \<Rightarrow> string \<Rightarrow> ('w sys, u64) prog" where
  "reject os msg = seq (warnx os msg) (ret 0)"

text \<open>The end of \<open>check_gpt_header\<close>, given the sectors the table may use.\<close>

definition check_table_size :: "'w os \<Rightarrow> GPTHeader \<Rightarrow> u32 \<Rightarrow> bool \<Rightarrow> u64 \<Rightarrow> ('w sys, u64) prog" where
  "check_table_size os h ss verbose usable_space =
     (if NumberOfPartitionEntries h < 1 then reject os ''No partitions''
      else
        let table = gpt_partition_table_bytes h; usable = usable_space * ucast ss in
        if usable < table then reject os ''Partition table does not fit in available space''
        else
          seq (guarded (MyLBA h \<noteq> 1 \<and> usable - table \<ge> ucast ss)
                (warnx os ''Backup partition table has too much padding''))
          (if table > push_bit 20 1 then errx os EXIT_UNSUPPORTED ''Partition table size exceeds 1MiB limit''
           else
             seq (guarded verbose (vlog os ''Partition table length'' [table]))
             (ret table)))"

definition check_table_place :: "'w os \<Rightarrow> GPTHeader \<Rightarrow> u64 \<Rightarrow> u32 \<Rightarrow> u64 \<Rightarrow> bool \<Rightarrow> ('w sys, u64) prog" where
  "check_table_place os h sector_offset ss sectors verbose =
     (if sector_offset \<noteq> 1 then
        if AlternateLBA h \<noteq> 1 then reject os ''Alternate LBA for backup GPT is not 1''
        else if LastUsableLBA h \<ge> PartitionEntryLBA h then
          reject os ''Last usable LBA not before backup partition table''
        else if PartitionEntryLBA h \<ge> MyLBA h then
          reject os ''Backup partition table LBA not before backup partition header''
        else check_table_size os h ss verbose (MyLBA h - PartitionEntryLBA h)
      else
        if PartitionEntryLBA h \<noteq> 2 then reject os ''Primary partition table not at 2''
        else if LastUsableLBA h \<ge> AlternateLBA h then
          reject os ''Alternate partition header overlaps usable space''
        else if AlternateLBA h \<ge> sectors then
          errx os EXIT_TRUNCATED ''Alternate partition header after end of device''
        else check_table_size os h ss verbose (FirstUsableLBA h - PartitionEntryLBA h))"

definition check_gpt_header ::
  "'w os \<Rightarrow> (bytes \<Rightarrow> u64) \<Rightarrow> GPTHeader \<Rightarrow> u64 \<Rightarrow> u32 \<Rightarrow> u64 \<Rightarrow> bool \<Rightarrow> ('w sys, u64) prog" where
  "check_gpt_header os zcrc h sector_offset ss sectors verbose =
     seq (assert_c (sectors \<ge> 6))
     (seq (assert_c (sector_offset < sectors))
     (if Signature h \<noteq> EFI_PART then
        seq (guarded verbose (warnx os ''Wrong GPT signature'')) (ret 0)
      else if Revision h \<noteq> 0x00010000 then reject os ''Partition table revision''
      else if ucast (HeaderCRC32 h) \<noteq> zcrc (encode_GPTHeader (h\<lparr>HeaderCRC32 := 0\<rparr>)) then
        reject os ''Partition table has bad CRC''
      else
        seq (guarded (MyLBA h \<noteq> sector_offset) (warnx os ''Header at wrong offset''))
        (if unat (HeaderSize h) < sizeof_GPTHeader then reject os ''Header size is too small''
         else if HeaderSize h > ss then reject os ''Header size exceeds block size''
         else if unat (SizeOfPartitionEntry h) < sizeof_GPTPartitionEntry then
           reject os ''Partition entry size is too small''
         else if SizeOfPartitionEntry h > ss then reject os ''Partition entry size exceeds block size''
         else if unat (SizeOfPartitionEntry h) > sizeof_GPTPartitionEntry then
           errx os EXIT_UNSUPPORTED ''Partition entry size is not supported''
         else if FirstUsableLBA h < 3 then reject os ''First usable LBA is less than 3''
         else if LastUsableLBA h < FirstUsableLBA h then reject os ''No usable space''
         else check_table_place os h sector_offset ss sectors verbose)))"

text \<open>
  The loop that finds the last used entry and rejects entries outside the usable space; \<open>Inr\<close>
  is \<open>goto fail\<close>.
\<close>

definition check_entries :: "'w os \<Rightarrow> GPT \<Rightarrow> ('w sys, u32 + unit) prog" where
  "check_entries os gpt =
     for_each_used_gpt_entry gpt (\<lambda>i e used.
       if StartingLBA e < FirstUsableLBA (gpt_header gpt) then
         seq (warnx os ''Starting LBA less than first usable LBA'') (ret (Inr ()))
       else if EndingLBA e > LastUsableLBA (gpt_header gpt) then
         seq (warnx os ''Ending LBA greater than last usable LBA'') (ret (Inr ()))
       else ret (Inl (i + 1))) 0"

definition read_entries ::
  "'w os \<Rightarrow> (bytes \<Rightarrow> u64) \<Rightarrow> fd \<Rightarrow> GPTHeader \<Rightarrow> u32 \<Rightarrow> u64 \<Rightarrow> ('w sys, GPT option) prog" where
  "read_entries os zcrc fd h ss partition_table_bytes =
     (let partition_table_offset = ucast ss * PartitionEntryLBA h in
      bnd (checked (round_to_next_sector partition_table_bytes ss)) (\<lambda>needed.
      bnd (malloc os (unat needed)) (\<lambda>_.
      bnd (sys os (Device (Pread fd (unat needed) partition_table_offset))) (\<lambda>r.
        if rv r = -1 then errx os 0 ''Error reading partition table''
        else if rv r \<noteq> sint needed then errx os EXIT_IO ''Expected to read more bytes''
        else if ucast (PartitionEntryArrayCRC32 h) \<noteq>
            zcrc (take (unat (ucast partition_table_bytes :: u32)) (rdata r)) then
          seq (warnx os ''Partition table array has bad CRC'') (ret None)
        else
          let gpt = \<lparr> gpt_header = h, gpt_used_entries = NumberOfPartitionEntries h, gpt_entries = rdata r,
                gpt_sector_size = ss \<rparr> in
          bnd (check_entries os gpt) (\<lambda>u. case u of
            Inr _ \<Rightarrow> ret None
          | Inl used \<Rightarrow>
              if used = 0 then errx os EXIT_UNSUPPORTED ''No used partitions''
              else ret (Some (gpt\<lparr>gpt_used_entries := used\<rparr>)))))))"

definition read_and_check_gpt ::
  "'w os \<Rightarrow> (bytes \<Rightarrow> u64) \<Rightarrow> fd \<Rightarrow> u64 \<Rightarrow> u32 \<Rightarrow> u64 \<Rightarrow> bool \<Rightarrow> ('w sys, GPT option) prog" where
  "read_and_check_gpt os zcrc fd sector_offset ss sectors verbose =
     (if sector_offset \<ge> sectors then
        seq (warnx os ''Request for GPT header past end of disk'') (ret None)
      else if sector_offset \<noteq> 1 \<and> sector_offset < 5 then
        seq (warnx os ''Request for GPT at invalid offset'') (ret None)
      else
        bnd (malloc os (unat ss)) (\<lambda>_.
        bnd (sys os (Device (Pread fd (unat ss) (sector_offset * ucast ss)))) (\<lambda>r.
          if rv r \<noteq> uint ss then errx os EXIT_IO ''Failed reading GPT header from block device or short read''
          else
            let h = decode_GPTHeader (take sizeof_GPTHeader (rdata r)) in
            bnd (check_gpt_header os zcrc h sector_offset ss sectors verbose) (\<lambda>partition_table_bytes.
              if partition_table_bytes = 0 then ret None
              else
                seq (guarded verbose (vlog os ''Partition table entries consume bytes'' [partition_table_bytes]))
                (read_entries os zcrc fd h ss partition_table_bytes)))))"

section \<open>Printing\<close>

definition guid_args :: "128 word \<Rightarrow> u64 list" where
  "guid_args g =
     [ucast (ucast g :: u32), ucast (ucast (drop_bit 32 g) :: u16), ucast (ucast (drop_bit 48 g) :: u16)] @
     map (\<lambda>i. ucast (ucast (drop_bit (64 + 8 * i) g) :: u8)) [0..<8]"

definition print_entry :: "'w os \<Rightarrow> GPTPartitionEntry \<Rightarrow> ('w sys, unit) prog" where
  "print_entry os e =
     seq (vlog os ''GPT Partition Table Entry:'' [])
     (seq (vlog os ''  PartitionTypeGUID:'' (guid_args (PartitionTypeGUID e)))
     (seq (vlog os ''  UniquePartitionGUID:'' (guid_args (UniquePartitionGUID e)))
     (seq (vlog os ''  StartingLBA:'' [StartingLBA e])
     (seq (vlog os ''  EndingLBA:'' [EndingLBA e])
     (vlog os ''  Attributes:'' [Attributes e])))))"

definition print_header :: "'w os \<Rightarrow> GPTHeader \<Rightarrow> ('w sys, unit) prog" where
  "print_header os h =
     seq (vlog os ''GPT Partition Table Header:'' [])
     (seq (vlog os ''  Revision:'' [ucast (Revision h)])
     (seq (vlog os ''  HeaderSize:'' [ucast (HeaderSize h)])
     (seq (vlog os ''  HeaderCRC32:'' [ucast (HeaderCRC32 h)])
     (seq (vlog os ''  Reserved:'' [ucast (Reserved h)])
     (seq (vlog os ''  MyLBA:'' [MyLBA h])
     (seq (vlog os ''  AlternateLBA:'' [AlternateLBA h])
     (seq (vlog os ''  FirstUsableLBA:'' [FirstUsableLBA h])
     (seq (vlog os ''  LastUsableLBA:'' [LastUsableLBA h])
     (seq (vlog os ''  DiskGUID[16]:'' (guid_args (DiskGUID h)))
     (seq (vlog os ''  PartitionEntryLBA:'' [PartitionEntryLBA h])
     (seq (vlog os ''  NumberOfPartitionEntries:'' [ucast (NumberOfPartitionEntries h)])
     (seq (vlog os ''  SizeOfPartitionEntry:'' [ucast (SizeOfPartitionEntry h)])
     (vlog os ''  PartitionEntryArrayCRC32:'' [ucast (PartitionEntryArrayCRC32 h)])))))))))))))"

definition print_gpts :: "'w os \<Rightarrow> GPT \<Rightarrow> ('w sys, unit) prog" where
  "print_gpts os gpt =
     seq (print_header os (gpt_header gpt))
     (bnd (for_each_used_gpt_entry gpt (\<lambda>i e v. seq (print_entry os e) (ret (Inl v))) ())
       (\<lambda>r :: unit + unit. ret ()))"

section \<open>Writing\<close>

definition sync_pwrite :: "'w os \<Rightarrow> fd \<Rightarrow> bytes \<Rightarrow> u64 \<Rightarrow> u64 \<Rightarrow> ('w sys, unit) prog" where
  "sync_pwrite os fd data len offset =
     seq (assert_c (fd \<ge> 0))
     (seq (assert_c (len \<le> 0x7FFFFFFFFFFFFFFF))
     (seq (assert_c (sint offset \<ge> 0))
     (if length data < unat len then halt Abort
      else
        bnd (sys os (Device (Pwrite fd (take (unat len) data) offset))) (\<lambda>r.
          if rv r = -1 then errx os EXIT_IO ''write error''
          else guarded (rv r \<noteq> uint len) (errx os EXIT_IO ''short write'')))))"

text \<open>
  What precedes the new table: for the backup, zeros over the last 4096 bytes; for the primary,
  the protective MBR and zeros over the headers of the other sector size.
\<close>

definition clear_old ::
  "'w os \<Rightarrow> fd \<Rightarrow> u64 \<Rightarrow> u64 \<Rightarrow> u32 \<Rightarrow> u32 \<Rightarrow> bytes \<Rightarrow> bytes \<Rightarrow> ('w sys, unit) prog" where
  "clear_old os fd sector_to_write sectors ss old_ss mbr buf =
     (if sector_to_write = sectors - 1 then
        sync_pwrite os fd buf 4096 (ucast ss * sectors - 4096)
      else if sector_to_write = 1 then
        if ss = 4096 then
          seq (assert_c (old_ss = 512))
          (sync_pwrite os fd mbr (ucast ss) 0)
        else
          seq (assert_c (ss = 512))
          (seq (assert_c (old_ss = 4096))
          (seq (sync_pwrite os fd mbr (ucast ss) 0)
          (seq (sync_pwrite os fd buf 512 512)
          (sync_pwrite os fd buf 4096 4096))))
      else halt Abort)"

definition create_new_gpt ::
  "'w os \<Rightarrow> (bytes \<Rightarrow> u64) \<Rightarrow> fd \<Rightarrow> u64 \<Rightarrow> u64 \<Rightarrow> u32 \<Rightarrow> GPT \<Rightarrow> bytes \<Rightarrow> bool \<Rightarrow> ('w sys, unit) prog" where
  "create_new_gpt os zcrc fd sector_to_write sectors ss gpt mbr verbose =
     bnd (gpt_adjust_sectors os zcrc sector_to_write ss sectors gpt verbose) (\<lambda>(new_gpt, to_write).
     bnd (check_gpt_header os zcrc (gpt_header new_gpt) sector_to_write ss sectors False) (\<lambda>ok.
     seq (assert_c (ok \<noteq> 0))
     (seq (guarded verbose (print_gpts os new_gpt))
     (seq (assert_c (to_write \<noteq> 0))
     (let header_block = encode_GPTHeader (gpt_header new_gpt) @ replicate (unat ss - sizeof_GPTHeader) 0 in
      bnd (malloc os 4096) (\<lambda>_.
      seq (clear_old os fd sector_to_write sectors ss (gpt_sector_size gpt) mbr (replicate 4096 0))
      (seq (sync_pwrite os fd (gpt_entries new_gpt) to_write (PartitionEntryLBA (gpt_header new_gpt) * ucast ss))
      (sync_pwrite os fd header_block (ucast ss) (MyLBA (gpt_header new_gpt) * ucast ss)))))))))"

section \<open>The device\<close>

definition check_whole_block_device :: "'w os \<Rightarrow> stat \<Rightarrow> ('w sys, unit) prog" where
  "check_whole_block_device os st =
     (let buffer = ascii ''/sys/dev/block/'' @ decimal (uint (dev_major (st_rdev st))) @ ascii '':'' @
            decimal (uint (dev_minor (st_rdev st))) @ ascii ''/partition'' in
      bnd (sys os (Asprintf buffer)) (\<lambda>r.
        if rv r < int (length ''/sys/dev/block/1:1/partition'') then errx os 1 ''asprintf() problem''
        else
          bnd (sys os (Lstat buffer)) (\<lambda>r.
          bnd (gets errno) (\<lambda>e.
            if rv r = 0 then
              if st_mode (rstat r) AND 0xF000 \<noteq> 0x8000 then errx os 1 ''bad sysfs entry''
              else errx os 1 ''Refusing to operate on partition: pass the whole block device instead''
            else if rv r = -1 then
              if e = ENOENT then ret () else errx os 1 ''cannot check if device is a partition''
            else halt Abort))))"

definition BLKSSZGET :: u64 where "BLKSSZGET = 0x1268"
definition BLKGETSIZE64 :: u64 where "BLKGETSIZE64 = 0x80081272"
definition BLKRRPART :: u64 where "BLKRRPART = 0x125F"

datatype gpt_mode = MODE_UNKNOWN | MODE_CHECK | MODE_FIX

definition reopen_for_writing :: "'w os \<Rightarrow> fd \<Rightarrow> ('w sys, unit) prog" where
  "reopen_for_writing os fd =
     (let buf = ascii ''/proc/self/fd/'' @ decimal fd in
      bnd (sys os (Asprintf buf)) (\<lambda>r.
        if rv r < 15 then errx os 1 ''asprintf()''
        else
          bnd (sys os (Open buf (O_CLOEXEC OR O_NOCTTY OR O_RDWR OR O_SYNC OR O_EXCL))) (\<lambda>n.
            if rv n = -1 then errx os 1 ''cannot reopen block device for writing''
            else
              bnd (sys os (Device (Dup3 (rv n) fd O_CLOEXEC))) (\<lambda>d.
                if rv d = -1 then errx os 1 ''Cannot duplicate''
                else
                  bnd (sys os (Close (rv n))) (\<lambda>c.
                  guarded (rv c = -1) (errx os 1 ''Cannot close''))))))"

text \<open>From the flags on, \<open>main\<close>: sector size and number of sectors of the device.\<close>

definition device_geometry :: "'w os \<Rightarrow> fd \<Rightarrow> ('w sys, u32 \<times> u64) prog" where
  "device_geometry os fd =
     bnd (bool_ioctl os fd BLKSSZGET) (\<lambda>(ok, v).
     if \<not> ok then errx os EXIT_FAILURE ''ioctl(BLKSSZGET)''
     else
       let ss = ucast v :: u32 in
       if ss \<noteq> 512 \<and> ss \<noteq> 4096 then errx os EXIT_UNSUPPORTED ''block size is neither 512 or 4096''
       else
         bnd (bool_ioctl os fd BLKGETSIZE64) (\<lambda>(ok, dev_size).
         if \<not> ok then errx os EXIT_IO ''ioctl(BLKGETSIZE64)''
         else if sint dev_size < 0 then errx os EXIT_UNSUPPORTED ''size does not fit in off_t''
         else if dev_size mod ucast ss \<noteq> 0 then errx os EXIT_UNSUPPORTED ''size is not multiple of sector size''
         else if dev_size div ucast ss < 6 then errx os EXIT_UNSUPPORTED ''Device has too few sectors for GPT''
         else ret (ss, dev_size)))"

definition open_device :: "'w os \<Rightarrow> bytes \<Rightarrow> ('w sys, int option) prog" where
  "open_device os dev =
     bnd (sys os (Open dev (O_CLOEXEC OR O_NOCTTY OR O_RDONLY))) (\<lambda>r.
       if rv r < 0 then errx os EXIT_FAILURE ''Cannot open''
       else if rv r < 3 then ret None
       else
         bnd (sys os (Fstat (rv r))) (\<lambda>f.
           if rv f \<noteq> 0 then errx os EXIT_IO ''fstat()''
           else if \<not> S_ISBLK (st_mode (rstat f)) then errx os EXIT_FAILURE ''not a block device''
           else
             seq (check_whole_block_device os (rstat f))
             (bnd (sys os (Device (Flock (rv r)))) (\<lambda>l.
              if rv l \<noteq> 0 then errx os EXIT_FAILURE ''cannot be locked'' else ret (Some (rv r))))))"

definition read_mbr :: "'w os \<Rightarrow> fd \<Rightarrow> u32 \<Rightarrow> u64 \<Rightarrow> bool \<Rightarrow> bool \<Rightarrow> ('w sys, bytes) prog" where
  "read_mbr os fd ss sectors skip_bpb_check verbose =
     bnd (sys os (Device (Fsync fd))) (\<lambda>f.
     if rv f \<noteq> 0 then errx os EXIT_IO ''fsync''
     else
       bnd (sys os (Device (Malloc (unat ss)))) (\<lambda>_.
       bnd (sys os (Device (Pread fd (unat ss) 0))) (\<lambda>r.
       if rv r \<noteq> uint ss then errx os EXIT_IO ''Failed reading MBR from block device or short read''
       else check_mbr os (take sizeof_Mbr (rdata r) @ replicate (unat ss - sizeof_Mbr) 0)
              sectors skip_bpb_check verbose)))"

text \<open>Rewriting both tables, the one that was not read first.\<close>

definition fix_tables ::
  "'w os \<Rightarrow> (bytes \<Rightarrow> u64) \<Rightarrow> fd \<Rightarrow> bool \<Rightarrow> u64 \<Rightarrow> u32 \<Rightarrow> GPT \<Rightarrow> bytes \<Rightarrow> bool \<Rightarrow> ('w sys, unit) prog" where
  "fix_tables os zcrc fd used_primary sectors ss gpt mbr verbose =
     seq (reopen_for_writing os fd)
     (seq (warnx os ''Found GPT with different sector size, altering'')
     (seq (create_new_gpt os zcrc fd (if used_primary then sectors - 1 else 1) sectors ss gpt mbr verbose)
     (create_new_gpt os zcrc fd (if used_primary then 1 else sectors - 1) sectors ss gpt mbr verbose)))"

text \<open>No GPT for the device's sector size was found: look for one of the other sector size.\<close>

definition change_sector_size ::
  "'w os \<Rightarrow> (bytes \<Rightarrow> u64) \<Rightarrow> fd \<Rightarrow> gpt_mode \<Rightarrow> u64 \<Rightarrow> u64 \<Rightarrow> u32 \<Rightarrow> bytes \<Rightarrow> bool \<Rightarrow> ('w sys, unit) prog" where
  "change_sector_size os zcrc fd m dev_size sectors ss mbr verbose =
     (if dev_size mod 4096 \<noteq> 0 then errx os EXIT_UNSUPPORTED ''Disk size is not a multiple of 4096''
      else
        let old_ss = (if ss = 4096 then 512 else 4096);
            old_sectors = (if ss = 4096 then push_bit 3 sectors else drop_bit 3 sectors) in
        bnd (read_and_check_gpt os zcrc fd 1 old_ss old_sectors verbose) (\<lambda>primary.
        bnd (case primary of Some g \<Rightarrow> ret (Some g)
             | None \<Rightarrow> read_and_check_gpt os zcrc fd (old_sectors - 1) old_ss old_sectors verbose) (\<lambda>g.
        case g of
          None \<Rightarrow> errx os EXIT_INVALID_GPT ''Cannot find valid GPT''
        | Some gpt \<Rightarrow>
            if m = MODE_FIX then fix_tables os zcrc fd (primary \<noteq> None) sectors ss gpt mbr verbose
            else
              seq (assert_c (m = MODE_CHECK))
              (errx os EXIT_NEEDS_FIX ''GPT needs to be updated for new sector size''))))"

text \<open>\<open>main\<close> after the options; the result is the exit status.\<close>

definition gptfix ::
  "'w os \<Rightarrow> (bytes \<Rightarrow> u64) \<Rightarrow> gpt_mode \<Rightarrow> bool \<Rightarrow> bool \<Rightarrow> bytes \<Rightarrow> ('w sys, int) prog" where
  "gptfix os zcrc m skip_bpb_check verbose dev =
     bnd (open_device os dev) (\<lambda>f. case f of
       None \<Rightarrow> ret EXIT_IO
     | Some fd \<Rightarrow>
         bnd (device_geometry os fd) (\<lambda>(ss, dev_size).
         let sectors = dev_size div ucast ss in
         bnd (read_mbr os fd ss sectors skip_bpb_check verbose) (\<lambda>mbr.
         seq (guarded verbose (vlog os ''Sector size, device size, sectors'' [ucast ss, dev_size, sectors]))
         (bnd (read_and_check_gpt os zcrc fd 1 ss sectors verbose) (\<lambda>primary.
          bnd (case primary of Some g \<Rightarrow> ret (Some g)
               | None \<Rightarrow> read_and_check_gpt os zcrc fd (sectors - 1) ss sectors verbose) (\<lambda>g.
          seq (case g of
                 None \<Rightarrow> change_sector_size os zcrc fd m dev_size sectors ss mbr verbose
               | Some gpt \<Rightarrow> guarded (m = MODE_CHECK \<and> verbose) (print_gpts os gpt))
          (seq (guarded (m = MODE_FIX \<and> g = None)
                 (bnd (bool_ioctl os fd BLKRRPART) (\<lambda>(ok, v).
                  bnd (gets errno) (\<lambda>e.
                  guarded (\<not> ok \<and> e \<noteq> EINVAL) (errx os EXIT_IO ''Cannot reload kernel partition table'')))))
          (bnd (sys os (Close fd)) (\<lambda>_.
           bnd (sys os (Device Fflush)) (\<lambda>_.
           bnd (sys os (Device Ferror_stdout)) (\<lambda>r.
           if rv r \<noteq> 0 then errx os EXIT_IO ''Write error on stdout'' else ret 0)))))))))))"

end
