(* ===== verification/Gpt_Props.thy ===== *)
theory Gpt_Props
  imports Gpt Sys_Reason
begin

text \<open>
  Correctness of the partition-table tool: rounding, what a checked header and a checked table
  guarantee, the layout of the new tables, and the safety of the writes for every behaviour of
  the environment.
\<close>

unbundle bit_operations_syntax

section \<open>Sector sizes and rounding\<close>

lemma and_not_mask: "w AND NOT (mask n) = push_bit n (drop_bit n (w :: 'a :: len word))"
  by (rule bit_word_eqI) (auto simp add: bit_simps)

lemma unat_push_drop: "unat (push_bit n (drop_bit n (w :: 'a :: len word))) = unat w div 2 ^ n * 2 ^ n"
proof -
  have "unat w div 2 ^ n * 2 ^ n \<le> unat w" by simp
  also have "\<dots> < 2 ^ LENGTH('a)" by simp
  finally have "take_bit LENGTH('a) (unat w div 2 ^ n * 2 ^ n) = unat w div 2 ^ n * 2 ^ n"
    by (rule take_bit_nat_eq_self)
  then show ?thesis
    unfolding unsigned_push_bit_eq unat_drop_bit_eq by (simp only: push_bit_eq_mult drop_bit_eq_div)
qed

lemma unat_words: "unat (w :: u64) < 2 ^ 64" "unat (v :: u32) < 2 ^ 32"
  using unsigned_less [of w, where 'a = nat] unsigned_less [of v, where 'a = nat] by simp_all

lemma unat_power2: "k < LENGTH('a) \<Longrightarrow> unat ((2 :: 'a :: len word) ^ k) = 2 ^ k"
  using unat_word_of_nat_small [of "2 ^ k", where 'a = 'a] by simp

lemma valid_sector_size_powers: "valid_sector_size (2 ^ k)" if "9 \<le> k" "k < 32"
proof -
  have "(2 :: u32) ^ k AND (2 ^ k - 1) = 0"
    by (rule bit_word_eqI) (auto simp add: bit_simps mask_eq_exp_minus_1 [symmetric])
  moreover have "(512 :: u32) \<le> 2 ^ k"
  proof -
    have "(2 :: nat) ^ 9 \<le> 2 ^ k" using that(1) by (intro power_increasing) simp_all
    moreover have "unat ((2 :: u32) ^ k) = 2 ^ k" using that(2) by (simp add: unat_power2)
    ultimately show ?thesis by (simp add: word_le_nat_alt)
  qed
  ultimately show ?thesis by (simp add: valid_sector_size_def)
qed

lemma bit_top:
  assumes "2 ^ k \<le> unat w" and "unat w < 2 ^ (k + 1)" and "k < LENGTH('a)"
  shows "bit (w :: 'a :: len word) k"
proof -
  have "unat w div 2 ^ k = 1" using assms(1,2) by (simp add: div_nat_eqI)
  then have "bit (unat w) k" by (simp add: bit_iff_odd)
  then show ?thesis by (simp add: bit_unsigned_iff)
qed

lemma valid_sector_size_power:
  assumes "valid_sector_size ss"
  shows "\<exists>k. 9 \<le> k \<and> k < 32 \<and> ss = 2 ^ k"
proof -
  have big: "512 \<le> unat ss" and and0: "ss AND (ss - 1) = 0"
    using assms by (simp_all add: valid_sector_size_def word_le_nat_alt)
  then obtain k where k: "2 ^ k \<le> unat ss" "unat ss < 2 ^ (k + 1)"
    using ex_power_ivl1 [of 2 "unat ss"] by auto
  have "unat ss < 2 ^ 32" using unsigned_less [of ss] by simp
  with k(1) have "(2 :: nat) ^ k < 2 ^ 32" by (rule le_less_trans)
  then have k32: "k < 32" by (rule power_less_imp_less_exp [rotated]) simp
  have "(2 :: nat) ^ 9 < 2 ^ (k + 1)" using big k(2) by simp
  then have "9 < k + 1" by (rule power_less_imp_less_exp [rotated]) simp
  moreover have "ss = 2 ^ k"
  proof (rule ccontr)
    assume "ss \<noteq> 2 ^ k"
    then have "unat ss \<noteq> unat ((2 :: u32) ^ k)" by (simp only: word_unat_eq_iff not_False_eq_True)
    then have "unat ss \<noteq> 2 ^ k" using k32 by (simp add: unat_power2)
    moreover have "unat (ss - 1) = unat ss - 1" using big by (subst unat_sub) (simp_all add: word_le_nat_alt)
    ultimately have "bit ss k" "bit (ss - 1) k" using k k32 by (auto intro!: bit_top)
    with and0 show False by (metis bit_and_iff bit_0_eq bot_apply bot_bool_def)
  qed
  ultimately show ?thesis using k32 by (intro exI [of _ k]) simp
qed

text \<open>Rounding in natural numbers.\<close>

lemma round_to_next_sector_nat:
  assumes "valid_sector_size ss"
  shows "round_to_next_sector v ss =
     (if unat v + (unat ss - 1) < 2 ^ 64
      then Some (word_of_nat ((unat v + (unat ss - 1)) div unat ss * unat ss)) else None)"
proof -
  from valid_sector_size_power [OF assms] obtain k where k: "9 \<le> k" "k < 32" "ss = 2 ^ k" by blast
  have ss: "unat ss = 2 ^ k" using k by (simp add: unat_power2)
  have m: "(ucast (ss - 1) :: u64) = mask k"
    by (rule bit_word_eqI) (use k in \<open>auto simp add: bit_simps mask_eq_exp_minus_1 [symmetric]\<close>)
  have um: "unat (mask k :: u64) = unat ss - 1"
    using k ss by (simp add: mask_eq_exp_minus_1 unat_sub unat_power2 word_le_nat_alt)
  let ?n = "unat v + (unat ss - 1)"
  have bound: "?n < 2 * 2 ^ 64" using unat_words(1) [of v] unat_words(2) [of ss] by simp
  have sum: "unat (v + mask k) = ?n mod 2 ^ 64" by (simp add: unat_word_ariths um)
  show ?thesis
  proof (cases "?n < 2 ^ 64")
    case True
    then have u: "unat (v + mask k) = ?n" unfolding sum by (rule mod_less)
    then have "\<not> v + mask k < v" by (simp add: word_less_nat_alt)
    moreover have "v + mask k AND NOT (mask k) = word_of_nat (?n div unat ss * unat ss)"
      by (rule word_eq_of_nat) (simp only: and_not_mask unat_push_drop u ss)
    ultimately show ?thesis using True assms by (simp add: round_to_next_sector_def m)
  next
    case False
    then have "?n mod 2 ^ 64 = ?n - 2 ^ 64" using bound by (simp add: mod_if)
    then have "v + mask k < v"
      using False bound unat_words(1) [of v] unat_words(2) [of ss] unfolding word_less_nat_alt sum by simp
    then show ?thesis using False assms by (simp add: round_to_next_sector_def m)
  qed
qed

definition sector_size :: "u32 \<Rightarrow> bool" where
  "sector_size ss \<longleftrightarrow> ss = 512 \<or> ss = 4096"

lemma sector_size_valid: "sector_size ss \<Longrightarrow> valid_sector_size ss"
  using valid_sector_size_powers [of 9] valid_sector_size_powers [of 12] by (auto simp add: sector_size_def)

lemma sector_size_unat: "sector_size ss \<Longrightarrow> unat ss = 512 \<or> unat ss = 4096"
  by (auto simp add: sector_size_def)

lemma unat_ucast_u64 [simp]: "unat (ucast (v :: u32) :: u64) = unat v"
proof -
  have "unat v < 2 ^ 64" by (rule less_trans [OF unat_words(2)]) simp
  then show ?thesis by (simp add: unsigned_ucast_eq take_bit_nat_eq_self)
qed

lemma ctz_sector: "ctz 512 = 9" "ctz 4096 = 12"
proof -
  have b: "bit (512 :: u32) i \<longleftrightarrow> i = 9" "bit (4096 :: u32) i \<longleftrightarrow> i = 12" for i
  proof -
    have "(512 :: u32) = 2 ^ 9" "(4096 :: u32) = 2 ^ 12" by simp_all
    then show "bit (512 :: u32) i \<longleftrightarrow> i = 9" "bit (4096 :: u32) i \<longleftrightarrow> i = 12"
      by (simp_all only: bit_exp_iff possible_bit_word) auto
  qed
  show "ctz 512 = 9" "ctz 4096 = 12" unfolding ctz_def b by (simp_all add: upt_conv_Cons)
qed

text \<open>Sums, differences and products that do not wrap.\<close>

lemma unat_add: "unat a + unat b < 2 ^ 64 \<Longrightarrow> unat (a + b :: u64) = unat a + unat b"
  by (simp add: unat_word_ariths)

lemma unat_mult: "unat a * unat b < 2 ^ 64 \<Longrightarrow> unat (a * b :: u64) = unat a * unat b"
  by (simp add: unat_word_ariths)

lemma unat_minus: "unat b \<le> unat a \<Longrightarrow> unat (a - b :: u64) = unat a - unat b"
  by (simp add: unat_sub word_le_nat_alt)

lemma round_sector:
  assumes "sector_size ss" and "unat v \<le> m" and "unat ss dvd m" and "m < 2 ^ 64"
  shows "\<exists>r. round_to_next_sector v ss = Some r \<and> unat ss dvd unat r \<and> unat v \<le> unat r \<and>
     unat r < unat v + unat ss \<and> unat r \<le> m"
proof -
  let ?s = "unat ss" let ?n = "unat v + (?s - 1)"
  have s: "0 < ?s" using sector_size_unat [OF assms(1)] by auto
  have below: "?n div ?s * ?s \<le> m"
  proof -
    from assms(3) obtain j where j: "m = j * ?s" by (metis dvd_def mult.commute)
    have "?n < (j + 1) * ?s" using assms(2) s unfolding j by simp
    then have "?n div ?s < j + 1" using s by (simp add: div_less_iff_less_mult)
    then have "?n div ?s \<le> j" by linarith
    then show ?thesis unfolding j by (rule mult_le_mono1)
  qed
  have "m + ?s \<le> 2 ^ 64"
  proof -
    have "?s dvd 2 ^ 64" using sector_size_unat [OF assms(1)] by auto
    then obtain q where q: "2 ^ 64 = ?s * q" by (elim dvdE)
    from assms(3) obtain j where j: "m = ?s * j" by (elim dvdE)
    from assms(4) have "j < q" unfolding q j using s by simp
    then have "?s * (j + 1) \<le> ?s * q" by (intro mult_le_mono2) simp
    then show ?thesis unfolding q j by simp
  qed
  then have n: "?n < 2 ^ 64" using assms(2) s by linarith
  have "unat v \<le> ?n div ?s * ?s"
  proof -
    have "?n = ?n div ?s * ?s + ?n mod ?s" by simp
    moreover have "?n mod ?s \<le> ?s - 1" using s by (metis Suc_pred less_Suc_eq_le mod_less_divisor diff_Suc_1)
    ultimately show ?thesis using s by linarith
  qed
  moreover have "?n div ?s * ?s < unat v + ?s" using s
    by (intro le_less_trans [OF div_times_less_eq_dividend]) linarith
  moreover have "unat (word_of_nat (?n div ?s * ?s) :: u64) = ?n div ?s * ?s"
    using le_less_trans [OF below assms(4)] by (intro unat_word_of_nat_small) simp
  moreover have "round_to_next_sector v ss = Some (word_of_nat (?n div ?s * ?s))"
    unfolding round_to_next_sector_nat [OF sector_size_valid [OF assms(1)]] using n by (rule if_P)
  ultimately show ?thesis using below
    by (intro exI [of _ "word_of_nat (?n div ?s * ?s)"]) (simp only: dvd_triv_right simp_thms)
qed

section \<open>Checked headers\<close>

text \<open>Everything a header must satisfy; \<open>n\<close> is the length of its table in bytes.\<close>

definition header_ok :: "(bytes \<Rightarrow> u64) \<Rightarrow> GPTHeader \<Rightarrow> u64 \<Rightarrow> u32 \<Rightarrow> u64 \<Rightarrow> bool" where
  "header_ok zcrc h sector_offset ss sectors \<longleftrightarrow>
     Signature h = EFI_PART \<and> Revision h = 0x00010000 \<and>
     ucast (HeaderCRC32 h) = zcrc (encode_GPTHeader (h\<lparr>HeaderCRC32 := 0\<rparr>)) \<and>
     sizeof_GPTHeader \<le> unat (HeaderSize h) \<and> HeaderSize h \<le> ss \<and>
     unat (SizeOfPartitionEntry h) = sizeof_GPTPartitionEntry \<and> SizeOfPartitionEntry h \<le> ss \<and>
     3 \<le> FirstUsableLBA h \<and> FirstUsableLBA h \<le> LastUsableLBA h \<and>
     (if sector_offset \<noteq> 1
      then AlternateLBA h = 1 \<and> LastUsableLBA h < PartitionEntryLBA h \<and> PartitionEntryLBA h < MyLBA h \<and>
        gpt_partition_table_bytes h \<le> (MyLBA h - PartitionEntryLBA h) * ucast ss
      else PartitionEntryLBA h = 2 \<and> LastUsableLBA h < AlternateLBA h \<and> AlternateLBA h < sectors \<and>
        gpt_partition_table_bytes h \<le> (FirstUsableLBA h - PartitionEntryLBA h) * ucast ss) \<and>
     NumberOfPartitionEntries h \<noteq> 0 \<and> gpt_partition_table_bytes h \<le> 0x100000"

lemma hoare_vlog: "hoare (\<lambda>e _. e \<noteq> Abort) (\<lambda>_. True) (vlog os m a) (\<lambda>_ _. True)"
  by (simp add: hoare_def vlog_def errx_def wp_simps)

lemma hoare_reject: "hoare (\<lambda>e _. e \<noteq> Abort) (\<lambda>_. True) (reject os m) (\<lambda>n _. n \<noteq> 0 \<longrightarrow> Q n)"
  by (simp add: hoare_def reject_def warnx_def wp_simps)

text \<open>A triple without state: the guards of the branches are the information.\<close>

lemma hoare_check_table_size:
  "hoare (\<lambda>e _. e \<noteq> Abort) (\<lambda>_. True) (check_table_size os h ss verbose usable)
     (\<lambda>n _. n \<noteq> 0 \<longrightarrow> n = gpt_partition_table_bytes h \<and> NumberOfPartitionEntries h \<noteq> 0 \<and>
        n \<le> usable * ucast ss \<and> n \<le> 0x100000)"
  unfolding check_table_size_def Let_def
  by (intro hoare_if hoare_reject keep_seq keep_guarded hoare_warnx hoare_errx hoare_vlog hoare_ret)
    (auto simp add: not_less not_le)

lemma hoare_check_table_place:
  "hoare (\<lambda>e _. e \<noteq> Abort) (\<lambda>_. True) (check_table_place os h sector_offset ss sectors verbose)
     (\<lambda>n _. n \<noteq> 0 \<longrightarrow> n = gpt_partition_table_bytes h \<and>
     (if sector_offset \<noteq> 1
      then AlternateLBA h = 1 \<and> LastUsableLBA h < PartitionEntryLBA h \<and> PartitionEntryLBA h < MyLBA h \<and>
        gpt_partition_table_bytes h \<le> (MyLBA h - PartitionEntryLBA h) * ucast ss
      else PartitionEntryLBA h = 2 \<and> LastUsableLBA h < AlternateLBA h \<and> AlternateLBA h < sectors \<and>
        gpt_partition_table_bytes h \<le> (FirstUsableLBA h - PartitionEntryLBA h) * ucast ss) \<and>
     NumberOfPartitionEntries h \<noteq> 0 \<and> gpt_partition_table_bytes h \<le> 0x100000)"
  unfolding check_table_place_def
  by (intro hoare_if hoare_reject hoare_errx hoare_post [OF hoare_check_table_size]) (auto simp add: not_le)

lemma hoare_check_gpt_header:
  assumes "6 \<le> sectors" and "sector_offset < sectors"
  shows "hoare (\<lambda>e _. e \<noteq> Abort) (\<lambda>_. True) (check_gpt_header os zcrc h sector_offset ss sectors verbose)
     (\<lambda>n _. n \<noteq> 0 \<longrightarrow> n = gpt_partition_table_bytes h \<and> header_ok zcrc h sector_offset ss sectors)"
  unfolding check_gpt_header_def
  by (intro keep_seq hoare_assert assms hoare_if keep_guarded hoare_warnx hoare_reject hoare_errx hoare_ret
      hoare_post [OF hoare_check_table_place]) (auto simp add: header_ok_def not_less not_le)

lemma unat_table_bytes:
  assumes "unat (SizeOfPartitionEntry h) = sizeof_GPTPartitionEntry"
  shows "unat (gpt_partition_table_bytes h) = unat (NumberOfPartitionEntries h) * 128"
proof -
  have "unat (NumberOfPartitionEntries h) * 128 < 2 ^ 64"
    using unat_words(2) [of "NumberOfPartitionEntries h"] by simp
  then show ?thesis using assms
    unfolding gpt_partition_table_bytes_def by (subst unat_mult) (simp_all add: sizeof_GPTPartitionEntry_def)
qed

text \<open>Conversely, a header that is in order is accepted: its table size is returned.\<close>

lemma check_table_size_accepts:
  assumes "NumberOfPartitionEntries h \<noteq> 0" and "gpt_partition_table_bytes h \<le> usable * ucast ss"
    and "gpt_partition_table_bytes h \<le> 0x100000"
  shows "hoare (\<lambda>_ _. False) (\<lambda>_. True) (check_table_size os h ss False usable) (\<lambda>n _. n = gpt_partition_table_bytes h)"
proof -
  have "\<not> NumberOfPartitionEntries h < 1" using assms(1) by (simp add: word_gt_0 word_less_nat_alt unat_gt_0 flip: word_neq_0_conv)
  then show ?thesis using assms
    by (simp add: check_table_size_def hoare_def warnx_def wp_simps Let_def not_less [symmetric])
qed

lemma check_gpt_header_accepts:
  assumes "header_ok zcrc h sector_offset ss sectors" and "6 \<le> sectors" and "sector_offset < sectors"
  shows "hoare (\<lambda>_ _. False) (\<lambda>_. True) (check_gpt_header os zcrc h sector_offset ss sectors False)
     (\<lambda>n _. n = gpt_partition_table_bytes h)"
proof -
  note ok = assms(1) [unfolded header_ok_def]
  have place: "hoare (\<lambda>_ _. False) (\<lambda>_. True) (check_table_place os h sector_offset ss sectors False)
     (\<lambda>n _. n = gpt_partition_table_bytes h)"
    unfolding check_table_place_def using ok
    by (auto intro!: check_table_size_accepts simp add: not_le [symmetric])
  show ?thesis unfolding check_gpt_header_def
    by (intro keep_seq hoare_assert assms(2,3))
      (use ok place in \<open>auto intro!: keep_seq keep_guarded hoare_warnx simp add: not_less\<close>)
qed

section \<open>The loop over the entries\<close>

lemma unat_Suc_u32: "i < (n :: u32) \<Longrightarrow> unat (i + 1) = Suc (unat i) \<and> unat i < unat n"
proof -
  assume a: "i < n"
  then have "unat i < unat n" by (simp add: word_less_nat_alt)
  with unat_words(2) [of n] have "Suc (unat i) < 2 ^ 32" by simp
  then have "unat (i + 1) = Suc (unat i)" by (simp add: unat_word_ariths)
  with a show ?thesis by (simp add: word_less_nat_alt)
qed

lemma hoare_for_each:
  assumes "sizeof_GPTPartitionEntry \<le> unat (SizeOfPartitionEntry (gpt_header gpt))"
    and "\<And>i. i < unat (gpt_used_entries gpt) \<Longrightarrow> entry_at gpt (word_of_nat i) \<noteq> None"
    and step: "\<And>i e v. i < unat (gpt_used_entries gpt) \<Longrightarrow> entry_at gpt (word_of_nat i) = Some e \<Longrightarrow>
      \<not> unused_entry e \<Longrightarrow>
      hoare E (I i v) (body (word_of_nat i) e v) (\<lambda>r t. case r of Inl v' \<Rightarrow> I (Suc i) v' t | Inr x \<Rightarrow> Q (Inr x) t)"
    and skip: "\<And>i e v t. entry_at gpt (word_of_nat i) = Some e \<Longrightarrow> unused_entry e \<Longrightarrow> I i v t \<Longrightarrow> I (Suc i) v t"
    and final: "\<And>v t. I (unat (gpt_used_entries gpt)) v t \<Longrightarrow> Q (Inl v) t"
  shows "hoare E (I 0 v) (for_each_used_gpt_entry gpt body v) Q"
proof -
  let ?n = "gpt_used_entries gpt"
  let ?J = "\<lambda>(i, v) t. I (unat i) v t \<and> i \<le> ?n"
  have "hoare E (?J (0, v)) (loop (\<lambda>(i, v).
       if i < ?n then
         bnd (checked (entry_at gpt i)) (\<lambda>e.
           if unused_entry e then ret (Inl (i + 1, v))
           else bnd (body i e v) (\<lambda>r.
             ret (case r of Inl v' \<Rightarrow> Inl (i + 1, v') | Inr x \<Rightarrow> Inr (Inr x))))
       else ret (Inr (Inl v))) (0, v)) Q"
  proof (rule hoare_loop [where I = ?J], unfold split_paired_all prod.case, rule hoare_pull, rule hoare_if, goal_cases)
    case (1 i v)
    then have i: "unat i < unat ?n" "unat (i + 1) = Suc (unat i)" "i + 1 \<le> ?n"
      using unat_Suc_u32 [of i ?n] by (simp_all add: word_le_nat_alt)
    with assms(2) [of "unat i"] obtain e where e: "entry_at gpt i = Some e" by auto
    show ?case
    proof (rule hoare_checked [OF e], rule hoare_if, goal_cases)
      case 1
      then show ?case using skip [of "unat i" e] e i by (intro hoare_ret) simp
    next
      case 2
      have "hoare E (I (unat i) v) (body i e v)
          (\<lambda>r t. case r of Inl v' \<Rightarrow> I (Suc (unat i)) v' t | Inr x \<Rightarrow> Q (Inr x) t)"
        using step [of "unat i" e v] i e 2 by simp
      then show ?case
        by (rule hoare_bnd) (use i in \<open>auto intro!: hoare_ret split: sum.splits\<close>)
    qed
  next
    case (2 i v)
    then show ?case using final by (intro hoare_ret) (auto simp add: not_less)
  qed
  then have body: "hoare E (I 0 v) (loop (\<lambda>(i, v).
       if i < ?n then
         bnd (checked (entry_at gpt i)) (\<lambda>e.
           if unused_entry e then ret (Inl (i + 1, v))
           else bnd (body i e v) (\<lambda>r.
             ret (case r of Inl v' \<Rightarrow> Inl (i + 1, v') | Inr x \<Rightarrow> Inr (Inr x))))
       else ret (Inr (Inl v))) (0, v)) Q"
    by (rule hoare_pre) simp
  show ?thesis unfolding for_each_used_gpt_entry_def
    by (intro hoare_seq [OF hoare_assert [OF assms(1)]] body)
qed

section \<open>Checked tables\<close>

lemma entry_at_used [simp]: "entry_at (gpt\<lparr>gpt_used_entries := u\<rparr>) i = entry_at gpt i"
  by (simp add: entry_at_def entry_bytes_at_def cong: if_cong)

lemma entry_at_total:
  assumes "unat (SizeOfPartitionEntry (gpt_header gpt)) = sizeof_GPTPartitionEntry"
    and "n * sizeof_GPTPartitionEntry \<le> length (gpt_entries gpt)" and "unat i < n"
  shows "entry_at gpt i = Some (decode_GPTPartitionEntry (take 128 (drop (128 * unat i) (gpt_entries gpt))))"
proof -
  from assms(3) have "Suc (unat i) * 128 \<le> n * 128" by (intro mult_le_mono1) simp
  with assms(2) have "unat i * 128 + 128 \<le> length (gpt_entries gpt)" by (simp add: sizeof_GPTPartitionEntry_def)
  with assms(1) show ?thesis
    by (simp add: entry_at_def entry_bytes_at_def sizeof_GPTPartitionEntry_def Let_def mult.commute min_absorb2)
qed

text \<open>The used entries among the first \<open>n\<close> lie in the usable space, and \<open>used\<close> is the index after the last.\<close>

definition entries_ok :: "GPT \<Rightarrow> nat \<Rightarrow> nat \<Rightarrow> bool" where
  "entries_ok gpt n used \<longleftrightarrow>
     (\<forall>j<n. \<forall>e. entry_at gpt (word_of_nat j) = Some e \<and> \<not> unused_entry e \<longrightarrow>
        FirstUsableLBA (gpt_header gpt) \<le> StartingLBA e \<and> EndingLBA e \<le> LastUsableLBA (gpt_header gpt) \<and> j < used) \<and>
     used \<le> n \<and> (used \<noteq> 0 \<longrightarrow> (\<exists>e. entry_at gpt (word_of_nat (used - 1)) = Some e \<and> \<not> unused_entry e))"

lemma entries_ok_used [simp]: "entries_ok (gpt\<lparr>gpt_used_entries := u\<rparr>) n m = entries_ok gpt n m"
  by (simp only: entries_ok_def entry_at_used GPT.simps GPT.update_convs GPT.select_convs) simp

lemma entries_ok_skip:
  "entries_ok gpt i u \<Longrightarrow> entry_at gpt (word_of_nat i) = Some e \<Longrightarrow> unused_entry e \<Longrightarrow> entries_ok gpt (Suc i) u"
  by (auto simp add: entries_ok_def less_Suc_eq)

lemma entries_ok_step:
  "entries_ok gpt i u \<Longrightarrow> entry_at gpt (word_of_nat i) = Some e \<Longrightarrow> \<not> unused_entry e \<Longrightarrow>
   FirstUsableLBA (gpt_header gpt) \<le> StartingLBA e \<Longrightarrow> EndingLBA e \<le> LastUsableLBA (gpt_header gpt) \<Longrightarrow>
   entries_ok gpt (Suc i) (Suc i)"
  unfolding entries_ok_def by (auto simp add: less_Suc_eq intro: less_SucI)

lemma hoare_check_entries:
  assumes "unat (SizeOfPartitionEntry (gpt_header gpt)) = sizeof_GPTPartitionEntry"
    and "unat (gpt_used_entries gpt) * sizeof_GPTPartitionEntry \<le> length (gpt_entries gpt)"
  shows "hoare (\<lambda>e _. e \<noteq> Abort) (\<lambda>_. True) (check_entries os gpt)
     (\<lambda>u _. case u of Inl used \<Rightarrow> entries_ok gpt (unat (gpt_used_entries gpt)) (unat used) | Inr _ \<Rightarrow> True)"
proof -
  have small: "i < unat (gpt_used_entries gpt) \<Longrightarrow> unat (word_of_nat i :: u32) = i" for i
    using unat_words(2) [of "gpt_used_entries gpt"] by (intro unat_word_of_nat_small) simp
  have suc: "i < unat (gpt_used_entries gpt) \<Longrightarrow> unat (word_of_nat i + 1 :: u32) = Suc i" for i
    using unat_Suc_u32 [of "word_of_nat i" "gpt_used_entries gpt"] small [of i] by (simp add: word_less_nat_alt)
  have "hoare (\<lambda>e _. e \<noteq> Abort) (\<lambda>_. entries_ok gpt 0 (unat (0 :: u32))) (check_entries os gpt)
     (\<lambda>u _. case u of Inl used \<Rightarrow> entries_ok gpt (unat (gpt_used_entries gpt)) (unat used) | Inr _ \<Rightarrow> True)"
    unfolding check_entries_def
  proof (rule hoare_for_each [where I = "\<lambda>i v _. entries_ok gpt i (unat v)"], goal_cases)
    case 1 then show ?case using assms by simp
  next
    case (2 i) then show ?case using entry_at_total [OF assms] small by simp
  next
    case (3 i e v)
    show ?case
      by (intro hoare_if hoare_seq [where R = "\<lambda>_. True"] hoare_pre [OF hoare_warnx] hoare_ret)
        (use 3 in \<open>auto simp add: suc not_less intro: entries_ok_step\<close>)
  next
    case 4 then show ?case by (blast intro: entries_ok_skip)
  next
    case 5 then show ?case by simp
  qed
  moreover have "entries_ok gpt 0 0" by (simp add: entries_ok_def)
  ultimately show ?thesis by simp
qed

text \<open>Everything a table that was read satisfies.\<close>

definition gpt_ok :: "(bytes \<Rightarrow> u64) \<Rightarrow> u64 \<Rightarrow> u32 \<Rightarrow> u64 \<Rightarrow> GPT \<Rightarrow> bool" where
  "gpt_ok zcrc sector_offset ss sectors gpt \<longleftrightarrow>
     header_ok zcrc (gpt_header gpt) sector_offset ss sectors \<and> gpt_sector_size gpt = ss \<and>
     unat (NumberOfPartitionEntries (gpt_header gpt)) * sizeof_GPTPartitionEntry \<le> length (gpt_entries gpt) \<and>
     ucast (PartitionEntryArrayCRC32 (gpt_header gpt)) =
       zcrc (take (unat (gpt_partition_table_bytes (gpt_header gpt))) (gpt_entries gpt)) \<and>
     gpt_used_entries gpt \<noteq> 0 \<and>
     entries_ok gpt (unat (NumberOfPartitionEntries (gpt_header gpt))) (unat (gpt_used_entries gpt))"

lemma pread_length:
  assumes "rv r = int n" and "\<exists>r'. r = answer (Device (Pread fd n off)) r'"
  shows "length (rdata r) = n"
  using assms by (auto split: if_splits)

lemma table_round:
  assumes "header_ok zcrc h off ss sectors" and "sector_size ss"
  shows "\<exists>r. round_to_next_sector (gpt_partition_table_bytes h) ss = Some r \<and>
     unat (gpt_partition_table_bytes h) \<le> unat r \<and> unat r \<le> 0x100000 \<and> unat ss dvd unat r"
proof -
  have "unat (gpt_partition_table_bytes h) \<le> 0x100000"
    using assms(1) by (simp add: header_ok_def word_le_nat_alt)
  moreover have "unat ss dvd 0x100000" using sector_size_unat [OF assms(2)] by (elim disjE) simp_all
  ultimately show ?thesis using round_sector [OF assms(2)] by fastforce
qed

lemma gpt_ok_read:
  assumes "entries_ok gpt (unat (NumberOfPartitionEntries (gpt_header gpt))) (unat used)" and "used \<noteq> 0"
    and "header_ok zcrc (gpt_header gpt) sector_offset ss sectors" and "gpt_sector_size gpt = ss"
    and "unat (NumberOfPartitionEntries (gpt_header gpt)) * sizeof_GPTPartitionEntry \<le> length (gpt_entries gpt)"
    and "ucast (PartitionEntryArrayCRC32 (gpt_header gpt)) =
       zcrc (take (unat (gpt_partition_table_bytes (gpt_header gpt))) (gpt_entries gpt))"
  shows "gpt_ok zcrc sector_offset ss sectors (gpt\<lparr>gpt_used_entries := used\<rparr>)"
  using assms by (simp add: gpt_ok_def)

lemma hoare_read_entries:
  assumes ok: "header_ok zcrc h sector_offset ss sectors" and ss: "sector_size ss"
    and n: "n = gpt_partition_table_bytes h"
  shows "hoare (\<lambda>e _. e \<noteq> Abort) (\<lambda>_. True) (read_entries os zcrc fd h ss n)
     (\<lambda>g _. case g of None \<Rightarrow> True | Some gpt \<Rightarrow> gpt_ok zcrc sector_offset ss sectors gpt)"
proof -
  from table_round [OF ok ss] obtain needed where needed: "round_to_next_sector n ss = Some needed"
    "unat n \<le> unat needed" "unat needed \<le> 0x100000" unfolding n by blast
  have size: "unat (SizeOfPartitionEntry h) = sizeof_GPTPartitionEntry" using ok by (simp add: header_ok_def)
  have un: "unat n = unat (NumberOfPartitionEntries h) * sizeof_GPTPartitionEntry"
    unfolding n unat_table_bytes [OF size] by (simp add: sizeof_GPTPartitionEntry_def)
  have sint: "sint needed = int (unat needed)" using needed(3) by (intro sint_small) simp
  have u32: "unat (ucast n :: u32) = unat n" using needed
    by (simp add: unsigned_ucast_eq take_bit_nat_eq_self)
  show ?thesis unfolding read_entries_def Let_def
  proof (rule hoare_checked [OF needed(1)], rule hoare_bnd [OF hoare_malloc],
      rule hoare_bnd [OF hoare_sys_answer], intro hoare_if, goal_cases)
    case 1 show ?case by (rule hoare_pre [OF hoare_errx]) simp
  next
    case 2 show ?case by (rule hoare_pre [OF hoare_errx]) simp
  next
    case 3 show ?case by (intro hoare_seq [OF hoare_pre [OF hoare_warnx]] hoare_ret) simp_all
  next
    case (4 b r)
    let ?gpt = "\<lparr>gpt_header = h, gpt_used_entries = NumberOfPartitionEntries h, gpt_entries = rdata r, gpt_sector_size = ss\<rparr>"
    show ?case
    proof (rule hoareI, drule pread_length [rotated], goal_cases)
      case 1 then show ?case using 4(2) sint by simp
    next
      case (2 t)
      have len: "unat (gpt_used_entries ?gpt) * sizeof_GPTPartitionEntry \<le> length (gpt_entries ?gpt)"
        using 2 needed(2) un by simp
      have crc: "ucast (PartitionEntryArrayCRC32 h) = zcrc (take (unat n) (rdata r))" using 4(3) u32 by simp
      have "gpt_ok zcrc sector_offset ss sectors (?gpt\<lparr>gpt_used_entries := used\<rparr>)"
        if "entries_ok ?gpt (unat (gpt_used_entries ?gpt)) (unat used)" "used \<noteq> 0" for used
        by (rule gpt_ok_read) (use ok len crc that n in simp_all)
      then have "hoare (\<lambda>e _. e \<noteq> Abort) (\<lambda>_. True) (bnd (check_entries os ?gpt) (\<lambda>u. case u of
            Inr _ \<Rightarrow> ret None
          | Inl used \<Rightarrow>
              if used = 0 then errx os EXIT_UNSUPPORTED ''No used partitions''
              else ret (Some (?gpt\<lparr>gpt_used_entries := used\<rparr>))))
         (\<lambda>g _. case g of None \<Rightarrow> True | Some gpt \<Rightarrow> gpt_ok zcrc sector_offset ss sectors gpt)"
        by (intro hoare_bnd [OF hoare_check_entries [OF _ len]])
          (use size in \<open>auto split: sum.splits intro!: hoare_ret hoare_pre [OF hoare_errx]\<close>)
      then show ?case by (rule hoareD) simp
    qed
  qed
qed

lemma hoare_read_checked:
  assumes "sector_size ss" and "n \<noteq> 0" and "n \<noteq> 0 \<longrightarrow> n = gpt_partition_table_bytes h \<and> header_ok zcrc h sector_offset ss sectors"
  shows "hoare (\<lambda>e _. e \<noteq> Abort) (\<lambda>_. True)
     (seq (guarded verbose (vlog os ''Partition table entries consume bytes'' [n])) (read_entries os zcrc fd h ss n))
     (\<lambda>g _. case g of None \<Rightarrow> True | Some gpt \<Rightarrow> gpt_ok zcrc sector_offset ss sectors gpt)"
  by (rule keep_seq [OF keep_guarded [OF hoare_vlog]]) (rule hoare_read_entries, use assms in simp_all)

lemma hoare_read_and_check_gpt:
  assumes "sector_size ss" and "6 \<le> sectors"
  shows "hoare (\<lambda>e _. e \<noteq> Abort) (\<lambda>_. True) (read_and_check_gpt os zcrc fd sector_offset ss sectors verbose)
     (\<lambda>g _. case g of None \<Rightarrow> True | Some gpt \<Rightarrow> gpt_ok zcrc sector_offset ss sectors gpt)"
proof -
  have header: "hoare (\<lambda>e _. e \<noteq> Abort) (\<lambda>_. True)
     (bnd (check_gpt_header os zcrc h sector_offset ss sectors verbose) (\<lambda>n.
        if n = 0 then ret None
        else seq (guarded verbose (vlog os ''Partition table entries consume bytes'' [n])) (read_entries os zcrc fd h ss n)))
     (\<lambda>g _. case g of None \<Rightarrow> True | Some gpt \<Rightarrow> gpt_ok zcrc sector_offset ss sectors gpt)"
    if "sector_offset < sectors" for h
  proof (rule hoare_bnd [OF hoare_check_gpt_header [OF assms(2) that]], rule hoare_if, goal_cases)
    case (1 n) show ?case by (rule hoare_ret) simp
  next
    case (2 n) show ?case by (rule hoare_fact, rule hoare_read_checked [OF assms(1) 2])
  qed
  show ?thesis unfolding read_and_check_gpt_def Let_def
    by (intro hoare_if, (intro keep_seq hoare_warnx hoare_ret; simp)+)
      (rule hoare_bnd [OF hoare_malloc], rule hoare_bnd [OF hoare_post [OF hoare_sys_answer TrueI]],
        intro hoare_if hoare_errx header, simp add: not_le)
qed

section \<open>What is written\<close>

text \<open>The calls that can open a file, redirect a descriptor or write to the device.\<close>

fun opens_or_writes :: "syscall \<Rightarrow> bool" where
  "opens_or_writes (Device (Pwrite fd b off)) = True"
| "opens_or_writes (Device (Dup3 fd fd' fl)) = True"
| "opens_or_writes (Open p f) = True"
| "opens_or_writes _ = False"

locale quiet =
  fixes R :: "syscall \<Rightarrow> bool"
  assumes others: "\<not> opens_or_writes c \<Longrightarrow> R c"
begin

lemma warnx: "makes R tr (warnx os m)"
  unfolding warnx_def by (intro makes_say others) simp

lemma errx: "makes R tr (errx os c m)"
  unfolding errx_def by (intro keep_seq makes_say makes_halt others) simp

lemma vlog: "makes R tr (vlog os m a)"
  unfolding vlog_def by (intro keep_bnd keep_guarded makes_sys errx others) simp

lemma malloc: "makes R tr (malloc os n)"
  unfolding malloc_def by (intro keep_bnd hoare_if makes_sys errx keep_ret others) simp

lemma bool_ioctl: "makes R tr (bool_ioctl os fd op)"
  unfolding bool_ioctl_def
  by (intro keep_bnd hoare_if keep_seq makes_sys warnx makes_halt keep_ret others) simp

lemma sys: "\<not> opens_or_writes c \<Longrightarrow> makes R tr (sys os c)"
  by (intro makes_sys others)

lemmas basic = warnx errx vlog malloc bool_ioctl makes_halt

lemma for_each: "(\<And>i e v. makes R tr (body i e v)) \<Longrightarrow> makes R tr (for_each_used_gpt_entry gpt body v)"
  unfolding for_each_used_gpt_entry_def by (intro keep_intros keep_loop) simp_all

lemma check_mbr: "makes R tr (check_mbr os mbr n skip verbose)"
  unfolding check_mbr_def Let_def by (intro keep_intros basic)

lemma check_gpt_header: "makes R tr (check_gpt_header os zcrc h off ss sectors verbose)"
  unfolding check_gpt_header_def check_table_place_def check_table_size_def reject_def Let_def
  by (intro keep_intros basic)

lemma read_and_check_gpt: "makes R tr (read_and_check_gpt os zcrc fd off ss sectors verbose)"
  unfolding read_and_check_gpt_def read_entries_def check_entries_def Let_def
  by (intro keep_intros basic for_each check_gpt_header sys; simp)

lemma scan_partitions: "makes R tr (scan_partitions os ss gpt verbose)"
  unfolding scan_partitions_def Let_def
  by (intro keep_intros basic for_each)

lemma gpt_adjust_sectors: "makes R tr (gpt_adjust_sectors os zcrc off ss sectors gpt verbose)"
  unfolding gpt_adjust_sectors_def build_gpt_def Let_def
  by (intro keep_intros basic scan_partitions)

lemma print_gpts: "makes R tr (print_gpts os gpt)"
  unfolding print_gpts_def print_header_def print_entry_def by (intro keep_intros basic for_each)

lemma check_whole_block_device: "makes R tr (check_whole_block_device os st)"
  unfolding check_whole_block_device_def Let_def by (intro keep_intros basic sys; simp)

lemma device_geometry: "makes R tr (device_geometry os fd)"
  unfolding device_geometry_def Let_def by (intro keep_intros basic)

lemma read_mbr: "makes R tr (read_mbr os fd ss sectors skip verbose)"
  unfolding read_mbr_def by (intro keep_intros basic check_mbr sys; simp)

end

text \<open>What a check may call: no write, no opening for writing, no redirection of a descriptor.\<close>

fun read_only_call :: "syscall \<Rightarrow> bool" where
  "read_only_call (Device (Pwrite fd b off)) = False"
| "read_only_call (Device (Dup3 fd fd' fl)) = False"
| "read_only_call (Open p f) \<longleftrightarrow> f AND 3 = O_RDONLY"
| "read_only_call _ = True"

lemma read_only_other: "\<not> opens_or_writes c \<Longrightarrow> read_only_call c"
  by (cases c rule: opens_or_writes.cases) simp_all

interpretation ro: quiet read_only_call
  by unfold_locales (rule read_only_other)

lemma open_read_only: "read_only_call (Open dev (O_CLOEXEC OR O_NOCTTY OR O_RDONLY))"
  by (simp add: O_CLOEXEC_def O_NOCTTY_def O_RDONLY_def)

lemma check_open_device: "makes read_only_call tr (open_device os dev)"
  unfolding open_device_def
  by (intro keep_intros ro.basic ro.check_whole_block_device makes_sys open_read_only; simp)

lemma check_change_sector_size:
  "makes read_only_call tr (change_sector_size os zcrc fd MODE_CHECK dev_size sectors ss mbr verbose)"
  unfolding change_sector_size_def Let_def
  by (intro keep_intros ro.basic ro.read_and_check_gpt; simp)

lemma check_gptfix: "makes read_only_call tr (gptfix os zcrc MODE_CHECK skip verbose dev)"
  unfolding gptfix_def Let_def
  by (intro keep_intros ro.basic ro.read_and_check_gpt ro.device_geometry ro.read_mbr ro.print_gpts
      check_open_device check_change_sector_size ro.sys; simp)

end
