(* ===== verification/Gpt_Layout.thy ===== *)
theory Gpt_Layout
  imports Gpt_Props
begin

text \<open>
  The layout of the rewritten tables: where the used partitions lie, what the scan over them
  establishes, and that no write of the repair touches one of them or the table that was read.
\<close>

unbundle bit_operations_syntax

section \<open>The bounds of the used area\<close>

definition start_byte :: "GPT \<Rightarrow> GPTPartitionEntry \<Rightarrow> u64" where
  "start_byte gpt e = StartingLBA e * ucast (gpt_sector_size gpt)"

definition end_byte :: "GPT \<Rightarrow> GPTPartitionEntry \<Rightarrow> u64" where
  "end_byte gpt e = (EndingLBA e + 1) * ucast (gpt_sector_size gpt)"

text \<open>The first \<open>n\<close> entries: the used ones are aligned and lie between the two bounds.\<close>

definition scanned :: "GPT \<Rightarrow> u32 \<Rightarrow> nat \<Rightarrow> u64 \<Rightarrow> u64 \<Rightarrow> bool" where
  "scanned gpt ss n first_start last_end \<longleftrightarrow>
     (\<forall>j<n. \<forall>e. entry_at gpt (word_of_nat j) = Some e \<and> \<not> unused_entry e \<longrightarrow>
        first_start \<le> start_byte gpt e \<and> end_byte gpt e \<le> last_end \<and>
        start_byte gpt e mod ucast ss = 0 \<and> end_byte gpt e mod ucast ss = 0) \<and>
     (first_start = - 1 \<or> first_start mod ucast ss = 0) \<and> last_end mod ucast ss = 0"

lemma scanned_skip:
  "scanned gpt ss i a b \<Longrightarrow> entry_at gpt (word_of_nat i) = Some e \<Longrightarrow> unused_entry e \<Longrightarrow> scanned gpt ss (Suc i) a b"
  by (auto simp add: scanned_def less_Suc_eq)

lemma scanned_step:
  assumes "scanned gpt ss i a b" and "entry_at gpt (word_of_nat i) = Some e"
    and "start_byte gpt e mod ucast ss = 0" and "end_byte gpt e mod ucast ss = 0"
  shows "scanned gpt ss (Suc i) (if start_byte gpt e < a then start_byte gpt e else a)
     (if b \<le> end_byte gpt e then end_byte gpt e else b)"
proof -
  let ?a = "if start_byte gpt e < a then start_byte gpt e else a"
  let ?b = "if b \<le> end_byte gpt e then end_byte gpt e else b"
  have le: "?a \<le> a" "?a \<le> start_byte gpt e" "b \<le> ?b" "end_byte gpt e \<le> ?b"
    by (simp_all add: not_less not_le less_imp_le)
  have "?a \<le> start_byte gpt e' \<and> end_byte gpt e' \<le> ?b \<and>
      start_byte gpt e' mod ucast ss = 0 \<and> end_byte gpt e' mod ucast ss = 0"
    if "j < Suc i" "entry_at gpt (word_of_nat j) = Some e'" "\<not> unused_entry e'" for j e'
  proof (cases "j = i")
    case True
    with that(2) assms le show ?thesis by simp
  next
    case False
    with that(1) have "j < i" by simp
    with that assms(1) have "a \<le> start_byte gpt e'" "end_byte gpt e' \<le> b"
        "start_byte gpt e' mod ucast ss = 0" "end_byte gpt e' mod ucast ss = 0"
      unfolding scanned_def by blast+
    with le show ?thesis by (simp only: order_trans [OF le(1)] order_trans [OF _ le(3)] simp_thms)
  qed
  then show ?thesis using assms unfolding scanned_def by simp
qed

lemma scan_partitions_returning:
  assumes "unat (SizeOfPartitionEntry (gpt_header gpt)) = sizeof_GPTPartitionEntry"
    and "unat (gpt_used_entries gpt) * sizeof_GPTPartitionEntry \<le> length (gpt_entries gpt)"
  shows "returning (scan_partitions os ss gpt verbose)
     (\<lambda>(a, b, _). scanned gpt ss (unat (gpt_used_entries gpt)) a b)"
proof -
  have small: "i < unat (gpt_used_entries gpt) \<Longrightarrow> unat (word_of_nat i :: u32) = i" for i
    using unat_words(2) [of "gpt_used_entries gpt"] by (intro unat_word_of_nat_small) simp
  let ?I = "\<lambda>i (a, b, _, _) _. scanned gpt ss i a b"
  let ?Q = "\<lambda>r _. case r of Inl (a, b, _) \<Rightarrow> scanned gpt ss (unat (gpt_used_entries gpt)) a b
     | Inr (a, b, _) \<Rightarrow> scanned gpt ss (unat (gpt_used_entries gpt)) a b"
  have start: "scanned gpt ss 0 (- 1) 0" by (simp add: scanned_def)
  show ?thesis unfolding scan_partitions_def
  proof (rule hoare_bnd [where R = ?Q, OF hoare_pre [OF hoare_for_each [where I = ?I]]], goal_cases)
    case 1 then show ?case using assms by simp
  next
    case (2 i) then show ?case using entry_at_total [OF assms] small by simp
  next
    case (3 i e v)
    obtain a b p q where v: "v = (a, b, p, q)" by (metis prod_cases4)
    let ?a = "if start_byte gpt e < a then start_byte gpt e else a"
    let ?b = "if b \<le> end_byte gpt e then end_byte gpt e else b"
    let ?p = "if start_byte gpt e < a then word_of_nat i else p"
    let ?q = "if b \<le> end_byte gpt e then word_of_nat i else q"
    let ?post = "\<lambda>r. case r of Inl (a, b, _, _) \<Rightarrow> scanned gpt ss (Suc i) a b
      | Inr (a, b, _, _) \<Rightarrow> scanned gpt ss (unat (gpt_used_entries gpt)) a b"
    have pair: "(let (a', p') = (if start_byte gpt e < a then (start_byte gpt e, word_of_nat i) else (a, p));
         (b', q') = (if b \<le> end_byte gpt e then (end_byte gpt e, word_of_nat i) else (b, q))
       in ret (Inl (a', b', p', q'))) = ret (Inl (?a, ?b, ?p, ?q))"
      by simp
    have body: "returning (seq m (if start_byte gpt e mod ucast ss \<noteq> 0 then errx os c x
       else if end_byte gpt e mod ucast ss \<noteq> 0 then errx os c' x' else ret (Inl (?a, ?b, ?p, ?q)))) ?post"
      if "scanned gpt ss i a b" for m c x c' x'
      by (intro returning_seq hoare_if returning_never returning_ret)
        (use scanned_step [OF that 3(2)] in simp)
    show ?case unfolding v prod.case start_byte_def [symmetric] end_byte_def [symmetric]
        Let_def [of "start_byte gpt e"] Let_def [of "end_byte gpt e"] pair
      by (rule hoare_fact, rule hoare_post [OF body]) (auto split: sum.splits)
  next
    case 4 then show ?case by (auto intro: scanned_skip)
  next
    case 5 then show ?case by auto
  next
    case 6 then show ?case using start by simp
  next
    case 7 then show ?case by (auto simp add: hoare_def wp_simps split: sum.split)
  qed
qed

section \<open>The room for the tables\<close>

text \<open>In natural numbers: sizes as the adjusted table has them, and the free space around the used area.\<close>

definition laid_out :: "GPT \<Rightarrow> u64 \<Rightarrow> u32 \<Rightarrow> u64 \<Rightarrow> GPT \<times> u64 \<Rightarrow> bool" where
  "laid_out gpt sector_offset ss sectors = (\<lambda>(new_gpt, table).
     (sector_offset = 1 \<or> sector_offset = sectors - 1) \<and> MyLBA (gpt_header new_gpt) = sector_offset \<and>
     PartitionEntryLBA (gpt_header new_gpt) =
       (if sector_offset = 1 then 2 else sectors - 1 - drop_bit (ctz ss) table) \<and>
     length (gpt_entries new_gpt) = unat table \<and> unat ss dvd unat table \<and>
     (\<exists>first_start last_end. scanned gpt ss (unat (gpt_used_entries gpt)) first_start last_end \<and>
        2 * unat ss + unat table \<le> unat first_start \<and> first_start < last_end \<and>
        unat last_end + unat table + unat ss \<le> unat ss * unat sectors))"

lemma required_bytes:
  assumes "sector_size ss" and "unat (SizeOfPartitionEntry (gpt_header gpt)) = sizeof_GPTPartitionEntry"
  shows "gpt_partition_table_required_bytes gpt ss n = round_to_next_sector (word_of_nat (128 * unat n)) ss"
    "unat (word_of_nat (128 * unat n) :: u64) = 128 * unat n"
proof -
  have b: "128 * unat n < 2 ^ 64" using unat_words(2) [of n] by simp
  then show w: "unat (word_of_nat (128 * unat n) :: u64) = 128 * unat n" by (intro unat_word_of_nat_small) simp
  have "unat (ucast (SizeOfPartitionEntry (gpt_header gpt)) * ucast n :: u64) = 128 * unat n"
    using b assms(2) by (subst unat_mult) (simp_all add: sizeof_GPTPartitionEntry_def)
  with w have "(ucast (SizeOfPartitionEntry (gpt_header gpt)) * ucast n :: u64) = word_of_nat (128 * unat n)"
    by (simp only: word_unat_eq_iff)
  then show "gpt_partition_table_required_bytes gpt ss n = round_to_next_sector (word_of_nat (128 * unat n)) ss"
    using sector_size_valid [OF assms(1)] by (simp add: gpt_partition_table_required_bytes_def)
qed

lemma mod_dvd: "(w :: u64) mod ucast (ss :: u32) = 0 \<longleftrightarrow> unat ss dvd unat w"
proof -
  have "w mod ucast ss = 0 \<longleftrightarrow> unat (w mod ucast ss) = 0" by (simp add: unat_eq_0)
  also have "\<dots> \<longleftrightarrow> unat w mod unat ss = 0" by (simp add: unat_mod)
  finally show ?thesis by (simp add: dvd_eq_mod_eq_0)
qed

text \<open>The arithmetic of the layout: a first table fits, so the free space is enough for the final one.\<close>

lemma room:
  assumes ss: "sector_size ss" and S: "unat ss * unat sectors < 2 ^ 64" and s6: "6 \<le> sectors"
    and size: "unat (SizeOfPartitionEntry (gpt_header gpt)) = sizeof_GPTPartitionEntry"
    and scan: "scanned gpt ss (unat (gpt_used_entries gpt)) first_start last_end"
    and lt: "first_start < last_end" and le: "last_end \<le> ucast ss * sectors"
    and t0: "gpt_partition_table_required_bytes gpt ss (gpt_used_entries gpt) = Some table0"
    and bk: "\<not> ucast ss * sectors - last_end < table0 + ucast ss"
    and prim: "\<not> table0 + 2 * ucast ss > first_start"
    and avail: "avail = min ((ucast ss * sectors - ucast ss) - last_end) (first_start - 2 * ucast ss)"
    and n: "n = (ucast (min (avail div ucast (SizeOfPartitionEntry (gpt_header gpt)))
       (ucast (NumberOfPartitionEntries (gpt_header gpt)))) :: u32)"
    and t: "gpt_partition_table_required_bytes gpt ss n = Some table"
  shows "2 * unat ss + unat table \<le> unat first_start \<and>
    unat last_end + unat table + unat ss \<le> unat ss * unat sectors \<and> unat ss dvd unat table \<and>
    128 * unat n \<le> unat table"
proof -
  let ?s = "unat ss" let ?S = "unat ss * unat sectors"
  have s: "?s = 512 \<or> ?s = 4096" by (rule sector_size_unat [OF ss])
  have uS: "unat (ucast ss * sectors :: u64) = ?S" using S by (subst unat_mult) simp_all
  have "128 * unat (gpt_used_entries gpt) \<le> 128 * 2 ^ 32" using unat_words(2) [of "gpt_used_entries gpt"] by simp
  moreover have "?s dvd 128 * 2 ^ 32" using s by auto
  ultimately have t0b: "unat table0 \<le> 128 * 2 ^ 32"
    using round_sector [OF ss, of "word_of_nat (128 * unat (gpt_used_entries gpt))" "128 * 2 ^ 32"] t0
    unfolding required_bytes(1) [OF ss size] required_bytes(2) [OF ss size] by fastforce
  have ts: "unat (table0 + ucast ss) = unat table0 + ?s"
    using t0b s by (subst unat_add) auto
  have u2: "unat (2 * ucast ss :: u64) = 2 * ?s" using s by (subst unat_mult) auto
  have tss: "unat (table0 + 2 * ucast ss) = unat table0 + 2 * ?s"
    using t0b s u2 by (subst unat_add) auto
  have l1: "unat last_end \<le> ?S" using le uS by (simp add: word_le_nat_alt)
  then have "unat (ucast ss * sectors - last_end) = ?S - unat last_end"
    using uS by (subst unat_minus) simp_all
  with bk ts have b1: "unat last_end + unat table0 + ?s \<le> ?S" using l1 by (simp add: word_less_nat_alt)
  have p1: "unat table0 + 2 * ?s \<le> unat first_start" using prim tss by (simp add: word_less_nat_alt)
  have a1: "unat ((ucast ss * sectors - ucast ss) - last_end) = ?S - ?s - unat last_end"
  proof -
    have "?s \<le> ?S" using b1 by linarith
    then have "unat (ucast ss * sectors - ucast ss) = ?S - ?s" unfolding uS [symmetric]
      by (subst unat_minus) simp_all
    moreover have "unat last_end \<le> ?S - ?s" using b1 by linarith
    ultimately show ?thesis by (subst unat_minus) simp_all
  qed
  have a2: "unat (first_start - 2 * ucast ss) = unat first_start - 2 * ?s"
    using p1 u2 by (subst unat_minus) simp_all
  have ua: "unat avail = min (?S - ?s - unat last_end) (unat first_start - 2 * ?s)"
    unfolding avail using a1 a2 by (auto simp add: min_def word_le_nat_alt)
  have "first_start \<noteq> - 1" using lt word_n1_ge [of last_end] by auto
  with scan have d: "?s dvd unat first_start" "?s dvd unat last_end" by (simp_all add: scanned_def mod_dvd)
  have da: "?s dvd unat avail" unfolding ua using d
    by (auto simp add: min_def intro!: dvd_diff_nat)
  have un: "unat n \<le> unat avail div 128"
  proof -
    let ?m = "min (avail div ucast (SizeOfPartitionEntry (gpt_header gpt))) (ucast (NumberOfPartitionEntries (gpt_header gpt)))"
    have "unat ?m \<le> unat (avail div ucast (SizeOfPartitionEntry (gpt_header gpt)))"
      by (simp add: word_le_nat_alt [symmetric])
    also have "\<dots> = unat avail div 128" using size by (simp add: unat_div sizeof_GPTPartitionEntry_def)
    finally have "unat ?m \<le> unat avail div 128" .
    moreover have "unat n \<le> unat ?m" unfolding n by (simp add: unsigned_ucast_eq take_bit_nat_less_eq_self)
    ultimately show ?thesis by linarith
  qed
  then have n128: "128 * unat n \<le> unat avail" by linarith
  have "unat avail < 2 ^ 64" using unat_words(1) [of avail] by simp
  with round_sector [OF ss _ da this, of "word_of_nat (128 * unat n)"] n128 t
  have r: "?s dvd unat table" "128 * unat n \<le> unat table" "unat table \<le> unat avail"
    unfolding required_bytes(1) [OF ss size] required_bytes(2) [OF ss size] by fastforce+
  from r(3) have "unat table \<le> ?S - ?s - unat last_end" "unat table \<le> unat first_start - 2 * ?s"
    unfolding ua by simp_all
  with r(1,2) b1 p1 show ?thesis by linarith
qed

lemma copy_entry_length: "copy_entry gpt ss i b = Some b' \<Longrightarrow> length b' = length b"
  by (auto simp add: copy_entry_def gpt_entry_def entry_bytes_at_def Let_def bind_eq_Some_conv
      gpt_ent.length_enc split: if_splits)

lemma copy_entries_length: "copy_entries gpt ss i n b = Some b' \<Longrightarrow> length b' = length b"
  by (induction gpt ss i n b rule: copy_entries.induct) (auto simp add: bind_eq_Some_conv dest: copy_entry_length)

lemma build_gpt_returning:
  assumes "2 * unat ss + unat table \<le> unat first_start \<and>
      unat last_end + unat table + unat ss \<le> unat ss * unat sectors \<and> unat ss dvd unat table"
    and "scanned gpt ss (unat (gpt_used_entries gpt)) first_start last_end" and "first_start < last_end"
    and "sector_offset = 1 \<or> sector_offset = sectors - 1"
  shows "returning (build_gpt os zcrc sector_offset ss sectors gpt verbose n table) (laid_out gpt sector_offset ss sectors)"
proof -
  have "laid_out gpt sector_offset ss sectors (g, table)"
    if "fixup_gpt zcrc \<lparr> gpt_header = new_header sector_offset ss sectors gpt n table, gpt_used_entries = n,
         gpt_entries = es, gpt_sector_size = 0 \<rparr> table = Some g" "length es = unat table" for es g
    using that assms
    by (auto simp add: laid_out_def fixup_gpt_def Let_def new_header_def word_le_nat_alt split: if_splits)
  then show ?thesis unfolding build_gpt_def Let_def
    by (intro returning_seq returning_bnd [OF returning_any] returning_bnd [OF malloc_returning] returning_checked
        returning_ret) (auto dest: copy_entries_length)
qed

lemma gpt_adjust_sectors_returning:
  assumes "sector_size ss" and "unat ss * unat sectors < 2 ^ 64"
    and "unat (SizeOfPartitionEntry (gpt_header gpt)) = sizeof_GPTPartitionEntry"
    and "unat (gpt_used_entries gpt) * sizeof_GPTPartitionEntry \<le> length (gpt_entries gpt)"
  shows "returning (gpt_adjust_sectors os zcrc sector_offset ss sectors gpt verbose) (laid_out gpt sector_offset ss sectors)"
  unfolding gpt_adjust_sectors_def Let_def
proof (intro returning_assert returning_bnd [OF scan_partitions_returning [OF assms(3,4)]], unfold split_paired_all prod.case,
    intro returning_assert returning_checked returning_guard returning_never returning_seq, goal_cases)
  case (1 a b p q t0 t)
  show ?case
    by (rule build_gpt_returning) (use room [OF assms(1,2) 1(1) assms(3) 1(5,6,8,7,9,10) refl refl 1(12)] 1 in simp_all)
qed

section \<open>Where the repair writes\<close>

fun writes_within :: "nat \<Rightarrow> nat \<Rightarrow> syscall \<Rightarrow> bool" where
  "writes_within lo hi (Device (Pwrite fd b off)) \<longleftrightarrow> lo \<le> unat off \<and> unat off + length b \<le> hi"
| "writes_within lo hi _ = True"

lemma writes_within_other: "\<not> opens_or_writes c \<Longrightarrow> writes_within lo hi c"
  by (cases "(lo, hi, c)" rule: writes_within.cases) simp_all

interpretation ww: quiet "writes_within lo hi" for lo hi
  by unfold_locales (rule writes_within_other)

lemma writes_within_mono: "writes_within lo hi c \<Longrightarrow> lo' \<le> lo \<Longrightarrow> hi \<le> hi' \<Longrightarrow> writes_within lo' hi' c"
  by (cases "(lo, hi, c)" rule: writes_within.cases) simp_all

lemma makes_sync_pwrite:
  assumes "lo \<le> unat offset" and "unat offset + unat len \<le> hi"
  shows "makes (writes_within lo hi) tr (sync_pwrite os fd data len offset)"
  unfolding sync_pwrite_def
  by (intro keep_intros ww.basic) (use assms in simp)

text \<open>The byte range of a used entry of a table that was read, in natural numbers.\<close>

definition first_byte :: "u32 \<Rightarrow> GPTPartitionEntry \<Rightarrow> nat" where
  "first_byte ss e = unat (StartingLBA e) * unat ss"

definition after_last_byte :: "u32 \<Rightarrow> GPTPartitionEntry \<Rightarrow> nat" where
  "after_last_byte ss e = (unat (EndingLBA e) + 1) * unat ss"

text \<open>Entry \<open>i\<close> is a partition on a device of \<open>dev\<close> bytes.\<close>

definition partition_on :: "GPT \<Rightarrow> nat \<Rightarrow> u32 \<Rightarrow> GPTPartitionEntry \<Rightarrow> bool" where
  "partition_on gpt dev i e \<longleftrightarrow>
     i < gpt_used_entries gpt \<and> entry_at gpt i = Some e \<and> \<not> unused_entry e \<and>
     first_byte (gpt_sector_size gpt) e \<le> dev \<and> after_last_byte (gpt_sector_size gpt) e \<le> dev"

lemma unat_offsets:
  assumes "0 < unat ss" and "first_byte ss e < 2 ^ 64" and "after_last_byte ss e < 2 ^ 64"
  shows "unat (StartingLBA e * ucast ss) = first_byte ss e" "unat ((EndingLBA e + 1) * ucast ss) = after_last_byte ss e"
proof -
  show "unat (StartingLBA e * ucast ss) = first_byte ss e"
    using assms(2) unfolding first_byte_def by (subst unat_mult) simp_all
  have b: "(unat (EndingLBA e) + 1) * unat ss < 2 ^ 64" using assms(3) by (simp add: after_last_byte_def)
  have "(unat (EndingLBA e) + 1) * 1 \<le> (unat (EndingLBA e) + 1) * unat ss" using assms(1) by (intro mult_le_mono2) simp
  with b have "unat (EndingLBA e) + unat (1 :: u64) < 2 ^ 64" by simp
  then have "unat (EndingLBA e + 1) = unat (EndingLBA e) + 1" by (subst unat_add) simp_all
  with b show "unat ((EndingLBA e + 1) * ucast ss) = after_last_byte ss e"
    unfolding after_last_byte_def by (subst unat_mult) simp_all
qed

lemma scanned_partition:
  assumes "scanned gpt ss (unat (gpt_used_entries gpt)) a b" and "partition_on gpt dev i e"
    and "dev < 2 ^ 64" and "sector_size (gpt_sector_size gpt)"
  shows "unat a \<le> first_byte (gpt_sector_size gpt) e \<and> after_last_byte (gpt_sector_size gpt) e \<le> unat b"
    "unat ss dvd first_byte (gpt_sector_size gpt) e" "unat ss dvd after_last_byte (gpt_sector_size gpt) e"
proof -
  note p = assms(2) [unfolded partition_on_def]
  have "unat i < unat (gpt_used_entries gpt) \<and> entry_at gpt (word_of_nat (unat i)) = Some e \<and> \<not> unused_entry e"
    using p by (simp add: word_less_nat_alt)
  with assms(1) have f: "a \<le> start_byte gpt e" "end_byte gpt e \<le> b"
    "start_byte gpt e mod ucast ss = 0" "end_byte gpt e mod ucast ss = 0"
    unfolding scanned_def by blast+
  have s: "0 < unat (gpt_sector_size gpt)" using sector_size_unat [OF assms(4)] by auto
  have "unat (start_byte gpt e) = first_byte (gpt_sector_size gpt) e \<and>
      unat (end_byte gpt e) = after_last_byte (gpt_sector_size gpt) e"
    unfolding start_byte_def end_byte_def using unat_offsets [OF s, of e] p assms(3) by simp
  with f show "unat a \<le> first_byte (gpt_sector_size gpt) e \<and> after_last_byte (gpt_sector_size gpt) e \<le> unat b"
    "unat ss dvd first_byte (gpt_sector_size gpt) e" "unat ss dvd after_last_byte (gpt_sector_size gpt) e"
    by (simp_all add: word_le_nat_alt mod_dvd)
qed

lemma gpt_ok_sizes:
  assumes "gpt_ok zcrc off ss sectors gpt"
  shows "unat (SizeOfPartitionEntry (gpt_header gpt)) = sizeof_GPTPartitionEntry"
    "unat (gpt_used_entries gpt) * sizeof_GPTPartitionEntry \<le> length (gpt_entries gpt)" "gpt_sector_size gpt = ss"
proof -
  have "unat (gpt_used_entries gpt) \<le> unat (NumberOfPartitionEntries (gpt_header gpt))"
    using assms by (simp add: gpt_ok_def entries_ok_def)
  then have "unat (gpt_used_entries gpt) * sizeof_GPTPartitionEntry \<le>
      unat (NumberOfPartitionEntries (gpt_header gpt)) * sizeof_GPTPartitionEntry" by (rule mult_le_mono1)
  then show "unat (gpt_used_entries gpt) * sizeof_GPTPartitionEntry \<le> length (gpt_entries gpt)"
    by (rule order_trans) (use assms in \<open>simp add: gpt_ok_def\<close>)
qed (use assms in \<open>simp_all add: gpt_ok_def header_ok_def\<close>)

lemma gpt_ok_start:
  assumes "gpt_ok zcrc off ss sectors gpt" and "partition_on gpt dev i e"
  shows "3 * unat ss \<le> first_byte ss e"
proof -
  have "unat i < unat (NumberOfPartitionEntries (gpt_header gpt))"
    using assms by (simp add: gpt_ok_def entries_ok_def partition_on_def word_less_nat_alt)
  moreover have "entry_at gpt (word_of_nat (unat i)) = Some e \<and> \<not> unused_entry e" using assms(2) by (simp add: partition_on_def)
  ultimately have "FirstUsableLBA (gpt_header gpt) \<le> StartingLBA e"
    using assms(1) unfolding gpt_ok_def entries_ok_def by blast
  moreover have "3 \<le> FirstUsableLBA (gpt_header gpt)" using assms(1) by (simp add: gpt_ok_def header_ok_def)
  ultimately have "3 \<le> StartingLBA e" by (rule order_trans [rotated])
  then have "3 \<le> unat (StartingLBA e)" by (simp add: word_le_nat_alt)
  then show ?thesis unfolding first_byte_def by (rule mult_le_mono1)
qed

text \<open>The setting of a repair: a device of \<open>dev\<close> bytes, a checked table for the other sector size.\<close>

definition repair :: "(bytes \<Rightarrow> u64) \<Rightarrow> u64 \<Rightarrow> GPT \<Rightarrow> u32 \<Rightarrow> u64 \<Rightarrow> nat \<Rightarrow> bool" where
  "repair zcrc sector_offset gpt ss sectors dev \<longleftrightarrow>
     sector_size ss \<and> sector_size (gpt_sector_size gpt) \<and> gpt_sector_size gpt \<noteq> ss \<and> 6 \<le> sectors \<and>
     dev = unat ss * unat sectors \<and> dev < 2 ^ 63 \<and> 4096 dvd dev \<and>
     (\<exists>old_sectors. gpt_ok zcrc sector_offset (gpt_sector_size gpt) old_sectors gpt)"

lemma unat_drop_ctz:
  assumes "sector_size ss"
  shows "unat (drop_bit (ctz ss) (v :: u64)) = unat v div unat ss"
  using assms by (auto simp add: sector_size_def ctz_sector unat_drop_bit_eq drop_bit_eq_div unat_div)

lemma unat_pred_sectors: "6 \<le> (sectors :: u64) \<Longrightarrow> unat (sectors - 1) = unat sectors - 1 \<and> sectors - 1 \<noteq> 1 \<and> 6 \<le> unat sectors"
proof -
  assume "6 \<le> sectors"
  then have "6 \<le> unat sectors" by (simp add: word_le_nat_alt)
  moreover from this have "unat (sectors - 1) = unat sectors - 1" by (subst unat_minus) simp_all
  moreover from this have "sectors - 1 \<noteq> 1"
  proof -
    have "unat (sectors - 1) \<noteq> unat (1 :: u64)" using calculation by simp
    then show ?thesis by (simp only: word_unat_eq_iff not_False_eq_True)
  qed
  ultimately show ?thesis by simp
qed

lemma primary_room:
  assumes R: "repair zcrc off gpt ss sectors dev" and L: "laid_out gpt 1 ss sectors (new_gpt, table)"
    and p: "partition_on gpt dev i e"
  shows "2 * unat ss + unat table \<le> first_byte (gpt_sector_size gpt) e \<and>
    (ss = 512 \<longrightarrow> 8192 \<le> first_byte (gpt_sector_size gpt) e)"
proof -
  from L obtain a b where *: "scanned gpt ss (unat (gpt_used_entries gpt)) a b"
    "2 * unat ss + unat table \<le> unat a" by (auto simp add: laid_out_def)
  have "unat a \<le> first_byte (gpt_sector_size gpt) e"
    using scanned_partition(1) [OF *(1) p] R by (simp add: repair_def)
  moreover have "3 * unat (gpt_sector_size gpt) \<le> first_byte (gpt_sector_size gpt) e"
    using R gpt_ok_start [OF _ p] unfolding repair_def by blast
  moreover have "ss = 512 \<longrightarrow> unat (gpt_sector_size gpt) = 4096" using R by (auto simp add: repair_def sector_size_def)
  ultimately show ?thesis using *(2) by linarith
qed

lemma backup_room:
  assumes R: "repair zcrc off gpt ss sectors dev" and L: "laid_out gpt w ss sectors (new_gpt, table)"
    and p: "partition_on gpt dev i e"
  shows "after_last_byte (gpt_sector_size gpt) e + unat table + unat ss \<le> dev \<and>
    after_last_byte (gpt_sector_size gpt) e + 4096 \<le> dev"
proof -
  let ?e = "after_last_byte (gpt_sector_size gpt) e"
  from L obtain a b where *: "scanned gpt ss (unat (gpt_used_entries gpt)) a b"
    "unat b + unat table + unat ss \<le> unat ss * unat sectors" by (auto simp add: laid_out_def)
  have "?e \<le> unat b" using scanned_partition(1) [OF *(1) p] R by (simp add: repair_def)
  then have 1: "?e + unat table + unat ss \<le> dev" using *(2) R by (simp add: repair_def)
  have "unat ss = 4096 \<or> unat ss = 512 \<and> unat (gpt_sector_size gpt) = 4096"
    using R by (auto simp add: repair_def sector_size_def)
  then have "?e + 4096 \<le> dev"
  proof
    assume "unat ss = 4096" with 1 show ?thesis by linarith
  next
    assume s: "unat ss = 512 \<and> unat (gpt_sector_size gpt) = 4096"
    with R obtain q where q: "dev = 4096 * q" by (auto simp add: repair_def elim: dvdE)
    have "4096 * (unat (EndingLBA e) + 1) < 4096 * q" using 1 s q by (simp add: after_last_byte_def)
    then have "unat (EndingLBA e) + 2 \<le> q" by simp
    then have "4096 * (unat (EndingLBA e) + 2) \<le> 4096 * q" by (rule mult_le_mono2)
    then show ?thesis using s q by (simp add: after_last_byte_def)
  qed
  with 1 show ?thesis by simp
qed

lemma makes_clear_primary:
  assumes "sector_size ss" and "2 * unat ss \<le> hi" and "ss = 512 \<longrightarrow> 8192 \<le> hi" and "1 \<noteq> sectors - 1"
  shows "makes (writes_within 0 hi) tr (clear_old os fd 1 sectors ss old_ss mbr buf)"
proof -
  have "ss = 4096 \<and> 8192 \<le> hi \<or> ss = 512 \<and> 8192 \<le> hi" using assms by (auto simp add: sector_size_def)
  then show ?thesis unfolding clear_old_def using assms(4)
    by (auto intro!: keep_intros ww.basic makes_sync_pwrite)
qed

lemma makes_clear_backup:
  assumes "unat (ucast ss * sectors :: u64) = dev" and "lo + 4096 \<le> dev"
  shows "makes (writes_within lo dev) tr (clear_old os fd (sectors - 1) sectors ss old_ss mbr buf)"
proof -
  have "unat (ucast ss * sectors - 4096 :: u64) = dev - 4096"
    using assms by (subst unat_minus) simp_all
  then show ?thesis unfolding clear_old_def using assms(2)
    by (auto intro!: makes_sync_pwrite)
qed

text \<open>The three writes of one table: what is cleared, the entries, the header.\<close>

lemma makes_create_new_gpt:
  assumes ok: "sector_size ss" "unat ss * unat sectors < 2 ^ 64" "gpt_ok zcrc off old_ss old_sectors gpt"
    and places: "\<And>new_gpt table. laid_out gpt w ss sectors (new_gpt, table) \<Longrightarrow>
      (\<forall>buf. makes (writes_within lo hi) tr (clear_old os fd w sectors ss (gpt_sector_size gpt) mbr buf)) \<and>
      lo \<le> unat (PartitionEntryLBA (gpt_header new_gpt) * ucast ss) \<and>
      unat (PartitionEntryLBA (gpt_header new_gpt) * ucast ss) + unat table \<le> hi \<and>
      lo \<le> unat (MyLBA (gpt_header new_gpt) * ucast ss) \<and>
      unat (MyLBA (gpt_header new_gpt) * ucast ss) + unat ss \<le> hi"
  shows "makes (writes_within lo hi) tr (create_new_gpt os zcrc fd w sectors ss gpt mbr verbose)"
  unfolding create_new_gpt_def Let_def
proof (rule hoare_bnd [OF makes_and [OF ww.gpt_adjust_sectors gpt_adjust_sectors_returning [OF ok(1,2) gpt_ok_sizes(1,2) [OF ok(3)]]]],
    rule hoare_pull, unfold split_paired_all prod.case, goal_cases)
  case (1 new_gpt table)
  from places [OF this] show ?case
    by (intro keep_intros ww.basic ww.check_gpt_header ww.print_gpts makes_sync_pwrite) simp_all
qed

lemma makes_primary:
  assumes R: "repair zcrc off gpt ss sectors dev" and p: "partition_on gpt dev i e"
  shows "makes (writes_within 0 (first_byte (gpt_sector_size gpt) e)) tr (create_new_gpt os zcrc fd 1 sectors ss gpt mbr verbose)"
proof -
  from R obtain old_sectors where ok: "sector_size ss" "unat ss * unat sectors < 2 ^ 64" "6 \<le> sectors"
    "gpt_ok zcrc off (gpt_sector_size gpt) old_sectors gpt" by (auto simp add: repair_def)
  have u: "unat (2 * ucast ss :: u64) = 2 * unat ss" "unat (1 * ucast ss :: u64) = unat ss"
    using sector_size_unat [OF ok(1)] by (subst unat_mult; fastforce)+
  show ?thesis
    by (rule makes_create_new_gpt [OF ok(1,2,4)], frule primary_room [OF R _ p], intro conjI allI makes_clear_primary)
      (use ok(1) u unat_pred_sectors [OF ok(3)] in \<open>auto simp add: laid_out_def\<close>)
qed

lemma unat_times_sector:
  assumes "unat a = m - k" and "m * unat (ss :: u32) < 2 ^ 64"
  shows "unat (a * ucast ss :: u64) = m * unat ss - k * unat ss"
proof -
  have eq: "unat a * unat (ucast ss :: u64) = m * unat ss - k * unat ss"
    by (simp only: assms(1) unat_ucast_u64 diff_mult_distrib)
  with assms(2) have "unat a * unat (ucast ss :: u64) < 2 ^ 64" by linarith
  then show ?thesis unfolding eq [symmetric] by (rule unat_mult)
qed

lemma makes_backup:
  assumes R: "repair zcrc off gpt ss sectors dev" and p: "partition_on gpt dev i e"
  shows "makes (writes_within (after_last_byte (gpt_sector_size gpt) e) dev) tr
     (create_new_gpt os zcrc fd (sectors - 1) sectors ss gpt mbr verbose)"
proof -
  from R obtain old_sectors where ok: "sector_size ss" "unat ss * unat sectors < 2 ^ 64" "6 \<le> sectors"
    "gpt_ok zcrc off (gpt_sector_size gpt) old_sectors gpt" and dev: "dev = unat ss * unat sectors"
    by (auto simp add: repair_def)
  have all: "unat (ucast ss * sectors :: u64) = dev" using ok(2) dev by (subst unat_mult) simp_all
  have n1: "unat (sectors - 1) = unat sectors - 1" "sectors - 1 \<noteq> 1" "6 \<le> unat sectors"
    using unat_pred_sectors [OF ok(3)] by simp_all
  have s: "0 < unat ss" using sector_size_unat [OF ok(1)] by auto
  have hd: "unat ((sectors - 1) * ucast ss :: u64) = dev - unat ss"
    using unat_times_sector [OF n1(1), of ss] ok(2) unfolding dev by (simp only: mult.commute mult_1)
  show ?thesis
  proof (rule makes_create_new_gpt [OF ok(1,2,4)], goal_cases)
    case (1 new_gpt table)
    note room = backup_room [OF R 1 p]
    from 1 have L: "PartitionEntryLBA (gpt_header new_gpt) = sectors - 1 - drop_bit (ctz ss) table"
      "MyLBA (gpt_header new_gpt) = sectors - 1" "unat ss dvd unat table" using n1(2) by (auto simp add: laid_out_def)
    from L(3) obtain q where q: "unat table = unat ss * q" by (elim dvdE)
    have "unat (drop_bit (ctz ss) table) = q" using s by (simp add: unat_drop_ctz [OF ok(1)] q)
    moreover have "q + 1 \<le> unat sectors"
    proof -
      have "unat ss * (q + 1) \<le> unat ss * unat sectors" using room q dev by simp
      with s show ?thesis by (metis mult_le_cancel1 not_gr_zero)
    qed
    ultimately have "unat (sectors - 1 - drop_bit (ctz ss) table) = unat sectors - (1 + q)"
      using n1 by (subst unat_minus) simp_all
    from unat_times_sector [OF this, of ss] have "unat (PartitionEntryLBA (gpt_header new_gpt) * ucast ss) = dev - unat ss - unat table"
      unfolding L(1) using ok(2) unfolding dev q
      by (simp add: mult.commute add_mult_distrib2)
    with room hd L(2) all show ?case by (auto intro!: makes_clear_backup)
  qed
qed

section \<open>The entries of the new table\<close>

definition slot :: "nat \<Rightarrow> bytes \<Rightarrow> bytes" where
  "slot j b = take 128 (drop (128 * j) b)"

definition moved :: "GPT \<Rightarrow> u32 \<Rightarrow> GPTPartitionEntry \<Rightarrow> GPTPartitionEntry" where
  "moved gpt ss e = (if unused_entry e then e else move_entry (gpt_sector_size gpt) ss e)"

lemma copy_entry_slots:
  assumes size: "unat (SizeOfPartitionEntry (gpt_header gpt)) = sizeof_GPTPartitionEntry"
    and c: "copy_entry gpt ss i b = Some b'"
  shows "\<exists>e. entry_at gpt (word_of_nat i) = Some e \<and> decode_GPTPartitionEntry (slot i b') = moved gpt ss e"
    "j \<noteq> i \<Longrightarrow> slot j b' = slot j b"
proof -
  from c size obtain old where old: "entry_bytes_at gpt (word_of_nat i) = Some old" and len: "128 * (i + 1) \<le> length b"
    and b': "b' = take (128 * i) b @ (if unused_entry (decode_GPTPartitionEntry (take 128 old)) then old
       else encode_GPTPartitionEntry (move_entry (gpt_sector_size gpt) ss (decode_GPTPartitionEntry (take 128 old))) @
         drop 128 old) @ drop (128 * (i + 1)) b"
    by (auto simp add: copy_entry_def gpt_entry_def Let_def bind_eq_Some_conv sizeof_GPTPartitionEntry_def mult.commute
        split: if_splits)
  have o128: "length old = 128" using old size
    by (auto simp add: entry_bytes_at_def Let_def sizeof_GPTPartitionEntry_def split: if_splits)
  let ?e = "decode_GPTPartitionEntry old"
  let ?new = "if unused_entry ?e then old else encode_GPTPartitionEntry (move_entry (gpt_sector_size gpt) ss ?e)"
  have new: "length ?new = 128" "decode_GPTPartitionEntry ?new = moved gpt ss ?e"
    using o128 gpt_ent.length_enc gpt_ent.dec_enc by (simp_all add: moved_def sizeof_GPTPartitionEntry_def)
  have b2: "b' = take (128 * i) b @ ?new @ drop (128 * (i + 1)) b" using b' o128 by simp
  have e: "entry_at gpt (word_of_nat i) = Some ?e" using old o128
    by (simp add: entry_at_def sizeof_GPTPartitionEntry_def)
  have "slot i b' = ?new" unfolding b2 slot_def using len new(1) by simp
  with e new(2) show "\<exists>e. entry_at gpt (word_of_nat i) = Some e \<and> decode_GPTPartitionEntry (slot i b') = moved gpt ss e"
    by simp
  show "slot j b' = slot j b" if "j \<noteq> i"
  proof (cases "j < i")
    case True
    then have "128 * j + 128 \<le> 128 * i" by simp
    then show ?thesis unfolding b2 slot_def using len
      by (simp add: drop_take)
  next
    case False
    with that have "128 * (i + 1) \<le> 128 * j" by simp
    then obtain k where k: "128 * j = 128 * (i + 1) + k" by (metis le_Suc_ex)
    show ?thesis unfolding b2 slot_def k using len new(1) by (simp add: drop_append add.commute add.left_commute)
  qed
qed

lemma copy_entries_slots:
  assumes "unat (SizeOfPartitionEntry (gpt_header gpt)) = sizeof_GPTPartitionEntry"
  shows "copy_entries gpt ss i n b = Some b' \<Longrightarrow>
    (\<forall>j. i \<le> j \<and> j < i + n \<longrightarrow> (\<exists>e. entry_at gpt (word_of_nat j) = Some e \<and>
       decode_GPTPartitionEntry (slot j b') = moved gpt ss e)) \<and> (\<forall>j<i. slot j b' = slot j b)"
proof (induction n arbitrary: i b)
  case 0 then show ?case by auto
next
  case (Suc n)
  then obtain b1 where b1: "copy_entry gpt ss i b = Some b1" "copy_entries gpt ss (i + 1) n b1 = Some b'"
    by (auto simp add: bind_eq_Some_conv)
  note here = copy_entry_slots [OF assms b1(1)] and rest = Suc.IH [OF b1(2)]
  have "slot i b' = slot i b1" using rest by simp
  with here(1) rest show ?case using here(2)
    by (metis (no_types, lifting) add_Suc_right add_Suc_shift le_antisym less_or_eq_imp_le not_less_eq_eq
        Suc_eq_plus1 less_Suc_eq nat_less_le)
qed

lemma move_entry_preserves:
  assumes "sector_size ss" and "first_byte old_ss e < 2 ^ 64" and "after_last_byte old_ss e < 2 ^ 64"
    and "sector_size old_ss" and "unat ss dvd first_byte old_ss e" and "unat ss dvd after_last_byte old_ss e"
  shows "first_byte ss (move_entry old_ss ss e) = first_byte old_ss e"
    "after_last_byte ss (move_entry old_ss ss e) = after_last_byte old_ss e"
proof -
  have s: "0 < unat ss" "0 < unat old_ss" using sector_size_unat assms(1,4) by fastforce+
  note 1 = unat_offsets(1) [OF s(2) assms(2,3)] and 2 = unat_offsets(2) [OF s(2) assms(2,3)]
  show "first_byte ss (move_entry old_ss ss e) = first_byte old_ss e"
    using 1 assms(5) by (simp add: first_byte_def [of ss] move_entry_def Let_def unat_div)
  let ?q = "(EndingLBA e + 1) * ucast old_ss div ucast ss :: u64"
  have q: "unat ?q = after_last_byte old_ss e div unat ss" using 2 by (simp add: unat_div)
  have "0 < after_last_byte old_ss e" using s by (simp add: after_last_byte_def)
  then have "1 \<le> after_last_byte old_ss e div unat ss" using assms(6) s by (auto elim!: dvdE)
  with q have "unat (?q - 1) + 1 = after_last_byte old_ss e div unat ss" by (subst unat_minus) simp_all
  then show "after_last_byte ss (move_entry old_ss ss e) = after_last_byte old_ss e"
    using assms(6) by (simp add: after_last_byte_def [of ss] move_entry_def Let_def)
qed

text \<open>What the new table carries over: every entry, moved; the checksum in the header is its own.\<close>

definition carried :: "(bytes \<Rightarrow> u64) \<Rightarrow> GPT \<Rightarrow> u32 \<Rightarrow> GPT \<times> u64 \<Rightarrow> bool" where
  "carried zcrc gpt ss = (\<lambda>(new_gpt, table).
     let h = gpt_header new_gpt; n = NumberOfPartitionEntries h in
     gpt_used_entries gpt \<le> n \<and> unat (SizeOfPartitionEntry h) = sizeof_GPTPartitionEntry \<and>
     128 * unat n \<le> unat table \<and> length (gpt_entries new_gpt) = unat table \<and>
     PartitionEntryArrayCRC32 h = ucast (zcrc (take (unat (gpt_partition_table_bytes h)) (gpt_entries new_gpt))) \<and>
     (\<forall>i<n. \<exists>e. entry_at gpt i = Some e \<and> entry_at new_gpt i = Some (moved gpt ss e)))"

lemma fixup_carried:
  assumes size: "unat (SizeOfPartitionEntry (gpt_header gpt)) = sizeof_GPTPartitionEntry"
    and copy: "copy_entries gpt ss 0 (unat n) junk = Some es" "length junk = unat table" "128 * unat n \<le> unat table"
    and used: "gpt_used_entries gpt \<le> n"
    and fx: "fixup_gpt zcrc \<lparr> gpt_header = h, gpt_used_entries = u, gpt_entries = es, gpt_sector_size = z \<rparr> table = Some new_gpt"
    and h: "NumberOfPartitionEntries h = n" "SizeOfPartitionEntry h = SizeOfPartitionEntry (gpt_header gpt)"
  shows "carried zcrc gpt ss (new_gpt, table)"
proof -
  have len: "length es = unat table" using copy_entries_length [OF copy(1)] copy(2) by simp
  have bytes: "unat (gpt_partition_table_bytes h) = 128 * unat n"
    using unat_table_bytes [of h] size h by simp
  let ?h = "h\<lparr>PartitionEntryArrayCRC32 := ucast (zcrc (take (128 * unat n) es))\<rparr>"
  from fx bytes have g: "gpt_header new_gpt = ?h\<lparr>HeaderCRC32 := ucast (zcrc (encode_GPTHeader ?h))\<rparr>"
    "gpt_entries new_gpt = take (128 * unat n) es @ replicate (unat table - 128 * unat n) 0 @ drop (unat table) es"
    by (auto simp add: fixup_gpt_def Let_def split: if_splits)
  have same: "gpt_partition_table_bytes (gpt_header new_gpt) = gpt_partition_table_bytes h"
    unfolding g(1) by (simp add: gpt_partition_table_bytes_def)
  have size': "unat (SizeOfPartitionEntry (gpt_header new_gpt)) = sizeof_GPTPartitionEntry"
    using size h(2) g(1) by simp
  have len': "length (gpt_entries new_gpt) = unat table" using g(2) len copy(3) by simp
  have slots: "slot j (gpt_entries new_gpt) = slot j es" if "j < unat n" for j
  proof -
    have "128 * j + 128 \<le> 128 * unat n" using that by simp
    then show ?thesis unfolding g(2) slot_def using len copy(3) by (simp add: drop_take)
  qed
  have entries: "\<exists>e. entry_at gpt i = Some e \<and> entry_at new_gpt i = Some (moved gpt ss e)" if "i < n" for i
  proof -
    from that have i: "unat i < unat n" by (simp add: word_less_nat_alt)
    from copy_entries_slots [OF size copy(1)] i obtain e where
      e: "entry_at gpt i = Some e" "decode_GPTPartitionEntry (slot (unat i) es) = moved gpt ss e" by fastforce
    have "entry_at new_gpt i = Some (decode_GPTPartitionEntry (slot (unat i) (gpt_entries new_gpt)))"
      unfolding slot_def
      by (rule entry_at_total [OF size' _ i]) (use len' copy(3) in \<open>simp add: sizeof_GPTPartitionEntry_def mult.commute\<close>)
    with e slots [OF i] show ?thesis by simp
  qed
  show ?thesis unfolding carried_def prod.case Let_def same bytes
    using entries used copy(3) len' size' len h(1) unfolding g by simp
qed

lemma build_gpt_carried:
  assumes "unat (SizeOfPartitionEntry (gpt_header gpt)) = sizeof_GPTPartitionEntry"
    and "128 * unat n \<le> unat table" and "gpt_used_entries gpt \<le> n"
  shows "returning (build_gpt os zcrc sector_offset ss sectors gpt verbose n table) (carried zcrc gpt ss)"
  unfolding build_gpt_def Let_def
proof (intro returning_seq returning_checked returning_bnd [OF malloc_returning] returning_ret, goal_cases)
  case (1 block junk es new_gpt)
  show ?case by (rule fixup_carried [OF assms(1) 1(3,2) assms(2,3) 1(4)]) (simp_all add: new_header_def Let_def)
qed

lemma enough_entries:
  assumes "ucast (used :: u32) \<le> m" and "used \<le> all"
  shows "used \<le> (ucast (min m (ucast (all :: u32)) :: u64) :: u32)"
proof -
  let ?m = "min m (ucast all) :: u64"
  have "unat ?m \<le> unat all" using unat_ucast_u64 [of all] by (simp add: min_def word_le_nat_alt)
  then have "unat ?m < 2 ^ 32" using unat_words(2) [of all] by linarith
  then have "unat (ucast ?m :: u32) = unat ?m" by (simp add: unsigned_ucast_eq take_bit_nat_eq_self)
  moreover have "unat used \<le> unat ?m" using assms by (simp add: min_def word_le_nat_alt)
  ultimately show ?thesis by (simp add: word_le_nat_alt)
qed

lemma gpt_adjust_sectors_carried:
  assumes "sector_size ss" and "unat ss * unat sectors < 2 ^ 64" and "gpt_ok zcrc off old_ss old_sectors gpt"
  shows "returning (gpt_adjust_sectors os zcrc sector_offset ss sectors gpt verbose) (carried zcrc gpt ss)"
  unfolding gpt_adjust_sectors_def Let_def
proof (intro returning_assert returning_bnd [OF scan_partitions_returning [OF gpt_ok_sizes(1,2) [OF assms(3)]]],
    unfold split_paired_all prod.case,
    intro returning_assert returning_checked returning_guard returning_never returning_seq, goal_cases)
  case (1 a b p q t0 t)
  have "gpt_used_entries gpt \<le> NumberOfPartitionEntries (gpt_header gpt)"
    using assms(3) by (simp add: gpt_ok_def entries_ok_def word_le_nat_alt)
  with 1(11) show ?case
    by (intro build_gpt_carried gpt_ok_sizes(1) [OF assms(3)] enough_entries)
      (use room [OF assms(1,2) 1(1) gpt_ok_sizes(1) [OF assms(3)] 1(5,6,8,7,9,10) refl refl 1(12)] in simp_all)
qed

section \<open>A finished table\<close>

text \<open>
  The last two calls wrote, completely, a table and the header that describes it: the header
  is one that every check accepts, it names the sector of the table, and it has its checksum.
\<close>

definition committed :: "(bytes \<Rightarrow> u64) \<Rightarrow> GPT \<Rightarrow> fd \<Rightarrow> u64 \<Rightarrow> u64 \<Rightarrow> u32 \<Rightarrow> (syscall \<times> response) list \<Rightarrow> bool" where
  "committed zcrc gpt fd w sectors ss tr \<longleftrightarrow>
     (\<exists>tr0 new_gpt table r r'. let h = gpt_header new_gpt; es = gpt_entries new_gpt in
        tr = tr0 @ [(Device (Pwrite fd es (PartitionEntryLBA h * ucast ss)), r),
          (Device (Pwrite fd (encode_GPTHeader h @ replicate (unat ss - sizeof_GPTHeader) 0) (w * ucast ss)), r')] \<and>
        rv r = int (length es) \<and> rv r' = uint ss \<and>
        header_ok zcrc h w ss sectors \<and> MyLBA h = w \<and> carried zcrc gpt ss (new_gpt, table))"

lemma hoare_sync_pwrite:
  "hoare (\<lambda>_ _. True) (\<lambda>t. trace t = tr) (sync_pwrite os fd data len offset)
     (\<lambda>_ t. \<exists>r. trace t = tr @ [(Device (Pwrite fd (take (unat len) data) offset), r)] \<and> rv r = uint len)"
  by (auto simp add: hoare_def sync_pwrite_def assert_c_def errx_def wp_simps)

lemma hoare_any: "hoare (\<lambda>_ _. True) P m (\<lambda>_ t. \<exists>tr. trace t = tr)"
  by (simp add: hoare_def wp_def split: option.split sum.split)

lemma hoare_commit:
  assumes "length es = unat table" and "length hdr = unat (ss :: u32)"
  shows "hoare (\<lambda>_ _. True) (\<lambda>_. True)
     (seq m (seq (sync_pwrite os fd es table off) (sync_pwrite os fd hdr (ucast ss) off')))
     (\<lambda>_ t. \<exists>tr0 r r'. trace t = tr0 @ [(Device (Pwrite fd es off), r), (Device (Pwrite fd hdr off'), r')] \<and>
        rv r = int (length es) \<and> rv r' = uint ss)"
proof (rule hoare_seq [OF hoare_any], rule hoare_ex)
  fix tr
  show "hoare (\<lambda>_ _. True) (\<lambda>t. trace t = tr)
     (seq (sync_pwrite os fd es table off) (sync_pwrite os fd hdr (ucast ss) off'))
     (\<lambda>_ t. \<exists>tr0 r r'. trace t = tr0 @ [(Device (Pwrite fd es off), r), (Device (Pwrite fd hdr off'), r')] \<and>
        rv r = int (length es) \<and> rv r' = uint ss)"
  proof (rule hoare_seq [OF hoare_sync_pwrite], rule hoare_ex, rule hoare_pull,
      rule hoare_post [OF hoare_sync_pwrite], goal_cases)
    case (1 r x t)
    have full: "take (unat table) es = es" "take (unat (ucast ss :: u64)) hdr = hdr"
      using assms by simp_all
    have int: "uint table = int (length es)" "uint (ucast ss :: u64) = uint ss"
      unfolding uint_nat unat_ucast_u64 using assms by simp_all
    from 1 obtain r' where "trace t = tr @ [(Device (Pwrite fd es off), r), (Device (Pwrite fd hdr off'), r')]"
      "rv r' = uint ss" "rv r = int (length es)"
      unfolding full int by (metis append_Cons append_Nil append_assoc)
    then show ?case by blast
  qed
qed

lemma create_new_gpt_commits:
  assumes R: "repair zcrc off gpt ss sectors dev"
  shows "hoare (\<lambda>_ _. True) (\<lambda>_. True) (create_new_gpt os zcrc fd w sectors ss gpt mbr verbose)
     (\<lambda>_ t. committed zcrc gpt fd w sectors ss (trace t))"
proof -
  from R obtain old_sectors where ok: "sector_size ss" "unat ss * unat sectors < 2 ^ 64" "6 \<le> sectors"
    "gpt_ok zcrc off (gpt_sector_size gpt) old_sectors gpt" by (auto simp add: repair_def)
  have big: "sizeof_GPTHeader \<le> unat ss" using sector_size_unat [OF ok(1)] by (auto simp add: sizeof_GPTHeader_def)
  note adjust = returning_conj [OF gpt_adjust_sectors_returning [OF ok(1,2) gpt_ok_sizes(1,2) [OF ok(4)]]
      gpt_adjust_sectors_carried [OF ok(1,2,4)]]
  show ?thesis unfolding create_new_gpt_def
  proof (rule hoare_bnd [OF adjust], rule hoare_fact, unfold split_paired_all prod.case, goal_cases)
    case (1 new_gpt table)
    let ?h = "gpt_header new_gpt"
    have w: "w < sectors" using 1 unat_pred_sectors [OF ok(3)] ok(3)
      by (auto simp add: laid_out_def word_less_nat_alt word_le_nat_alt)
    have len: "length (gpt_entries new_gpt) = unat table" and my: "MyLBA ?h = w"
      using 1 by (auto simp add: laid_out_def)
    have hl: "length (encode_GPTHeader ?h @ replicate (unat ss - sizeof_GPTHeader) 0) = unat ss"
      using big by (simp add: gpt_hdr.length_enc)
    have fin: "hoare (\<lambda>_ _. True) (\<lambda>_. True) (seq m (seq (sync_pwrite os fd (gpt_entries new_gpt) table (PartitionEntryLBA ?h * ucast ss))
         (sync_pwrite os fd (encode_GPTHeader ?h @ replicate (unat ss - sizeof_GPTHeader) 0) (ucast ss) (MyLBA ?h * ucast ss))))
       (\<lambda>_ t. committed zcrc gpt fd w sectors ss (trace t))" if "header_ok zcrc ?h w ss sectors" for m
    proof (rule hoare_post [OF hoare_commit [OF len hl]], elim exE, goal_cases)
      case (1 x t tr0 r r')
      then show ?case unfolding committed_def Let_def using that \<open>laid_out _ _ _ _ _ \<and> carried _ _ _ _\<close> my
        by (intro exI [of _ tr0] exI [of _ new_gpt] exI [of _ table] exI [of _ r] exI [of _ r']) simp
    qed
    show ?case unfolding Let_def
      by (rule hoare_bnd [OF hoare_weaken_stop [OF hoare_check_gpt_header [OF ok(3) w]]], rule hoare_fact)
        (rule hoare_assertE, rule hoare_seq [OF returning_any], rule hoare_assertE, rule hoare_bnd [OF returning_any],
         rule fin, simp)
  qed
qed

end
