(* ===== verification/Gpt_Safety.thy ===== *)
theory Gpt_Safety
  imports Gpt_Layout
begin

text \<open>
  The properties of the partition-table tool: rounding, the verdict on a header, what a table
  that was read satisfies, what a rewritten table keeps, the order of the writes and where they
  go, and that a check only reads.
\<close>

unbundle bit_operations_syntax

section \<open>Every call of a repair\<close>

interpretation anyc: quiet "\<lambda>_. True"
  by unfold_locales simp

lemma any_sync_pwrite: "makes (\<lambda>_. True) tr (sync_pwrite os fd data len off)"
  unfolding sync_pwrite_def by (intro keep_intros anyc.basic TrueI)

lemma any_create_new_gpt: "makes (\<lambda>_. True) tr (create_new_gpt os zcrc fd w sectors ss gpt mbr verbose)"
  unfolding create_new_gpt_def clear_old_def Let_def
  by (intro keep_intros anyc.basic anyc.gpt_adjust_sectors anyc.check_gpt_header anyc.print_gpts any_sync_pwrite)

lemma makes_reopen: "(\<And>c. (\<nexists>n b off. c = Device (Pwrite n b off)) \<Longrightarrow> R c) \<Longrightarrow>
   makes R tr (reopen_for_writing os fd)"
  unfolding reopen_for_writing_def Let_def errx_def by (intro keep_intros makes_say makes_halt; simp)

text \<open>The range a rewritten table may be written to, seen from one partition.\<close>

definition table_range :: "bool \<Rightarrow> GPT \<Rightarrow> nat \<Rightarrow> GPTPartitionEntry \<Rightarrow> syscall \<Rightarrow> bool" where
  "table_range backup gpt dev e =
     (if backup then writes_within (after_last_byte (gpt_sector_size gpt) e) dev
      else writes_within 0 (first_byte (gpt_sector_size gpt) e))"

definition outside_partitions :: "bool \<Rightarrow> GPT \<Rightarrow> nat \<Rightarrow> syscall \<Rightarrow> bool" where
  "outside_partitions backup gpt dev c \<longleftrightarrow>
     (\<forall>x. partition_on gpt dev (fst x) (snd x) \<longrightarrow> table_range backup gpt dev (snd x) c)"

lemma outside_partitions_other: "(\<nexists>n b off. c = Device (Pwrite n b off)) \<Longrightarrow> outside_partitions backup gpt dev c"
  unfolding outside_partitions_def table_range_def
  by (cases "(0 :: nat, 0 :: nat, c)" rule: writes_within.cases) (auto split: dev_call.splits)

lemma makes_create:
  assumes "repair zcrc off gpt ss sectors dev"
  shows "makes (outside_partitions backup gpt dev) tr
     (create_new_gpt os zcrc fd (if backup then sectors - 1 else 1) sectors ss gpt mbr verbose)"
  unfolding outside_partitions_def
  by (rule makes_all) (use makes_primary [OF assms] makes_backup [OF assms] any_create_new_gpt in \<open>auto simp add: table_range_def\<close>)

section \<open>Both tables\<close>

text \<open>
  The calls so far, in two phases: the first table, and, only after its entries and its header
  were completely written, the second.
\<close>

definition phases ::
  "(syscall \<Rightarrow> bool) \<Rightarrow> (syscall \<Rightarrow> bool) \<Rightarrow> ((syscall \<times> response) list \<Rightarrow> bool) \<Rightarrow> (syscall \<times> response) list \<Rightarrow>
    'w sys \<Rightarrow> bool" where
  "phases R1 R2 C tr t \<longleftrightarrow>
     (\<exists>tr1 tr2. trace t = tr @ tr1 @ tr2 \<and> list_all R1 (calls tr1) \<and> list_all R2 (calls tr2) \<and>
        (tr2 \<noteq> [] \<longrightarrow> C (tr @ tr1)))"

lemma phase_one: "made R1 tr t \<Longrightarrow> phases R1 R2 C tr t"
  unfolding made_def phases_def by (elim exE conjE, rule_tac x = tr' in exI, rule_tac x = "[]" in exI) simp

lemma phase_two: "made R1 tr u \<Longrightarrow> C (trace u) \<Longrightarrow> made R2 (trace u) t \<Longrightarrow> phases R1 R2 C tr t"
  unfolding made_def phases_def by (elim exE conjE, rule_tac x = tr' in exI, rule_tac x = tr'a in exI) simp

lemma hoare_phases:
  fixes m :: "('w sys, unit) prog" and n :: "('w sys, 'a) prog"
  assumes first: "makes R1 tr m" "hoare (\<lambda>_ _. True) (\<lambda>_. True) m (\<lambda>_ t. C (trace t))"
    and second: "\<And>tr. makes R2 tr n" "hoare (\<lambda>_ _. True) (\<lambda>_. True) n (\<lambda>_ t. D (trace t))"
  shows "hoare (\<lambda>_. phases R1 R2 C tr) (made R1 tr) (seq m n) (\<lambda>_ t. phases R1 R2 C tr t \<and> D (trace t))"
proof (rule hoare_seq)
  show "hoare (\<lambda>_. phases R1 R2 C tr) (made R1 tr) m (\<lambda>_ t. made R1 tr t \<and> C (trace t))"
    using first unfolding hoare_def
    by (auto elim!: wp_mono [OF wp_conj] intro: phase_one)
  show "hoare (\<lambda>_. phases R1 R2 C tr) (\<lambda>t. made R1 tr t \<and> C (trace t)) n (\<lambda>_ t. phases R1 R2 C tr t \<and> D (trace t))"
  proof (rule hoareI)
    fix u :: "'w sys"
    assume u: "made R1 tr u \<and> C (trace u)"
    have "made R2 (trace u) u" by (simp add: made_def)
    from hoareD [OF second(1) this] hoareD [OF second(2) TrueI]
    have "wp n (\<lambda>_ t. made R2 (trace u) t \<and> D (trace t)) (\<lambda>_ t. made R2 (trace u) t \<and> True) u" by (rule wp_conj)
    then show "wp n (\<lambda>_ t. phases R1 R2 C tr t \<and> D (trace t)) (\<lambda>_. phases R1 R2 C tr) u"
      by (rule wp_mono) (use u in \<open>auto intro: phase_two\<close>)
  qed
qed

lemma fix_tables_phases:
  assumes R: "repair zcrc off gpt ss sectors dev"
  shows "hoare (\<lambda>_. phases (outside_partitions p gpt dev) (outside_partitions (\<not> p) gpt dev)
       (committed zcrc gpt fd (if p then sectors - 1 else 1) sectors ss) tr)
     (made (outside_partitions p gpt dev) tr)
     (fix_tables os zcrc fd p sectors ss gpt mbr verbose)
     (\<lambda>_ t. phases (outside_partitions p gpt dev) (outside_partitions (\<not> p) gpt dev)
       (committed zcrc gpt fd (if p then sectors - 1 else 1) sectors ss) tr t \<and>
       committed zcrc gpt fd (if p then 1 else sectors - 1) sectors ss (trace t))"
proof -
  let ?one = "outside_partitions p gpt dev"
  have pre: "hoare (\<lambda>_. phases ?one R2 C tr) (made ?one tr) m (\<lambda>_. made ?one tr)" if "makes ?one tr m" for m :: "('b sys, unit) prog" and R2 C
    using that unfolding hoare_def by (auto elim!: wp_mono intro: phase_one)
  have backup: "makes (outside_partitions (\<not> p) gpt dev) tr
      (create_new_gpt os zcrc fd (if p then 1 else sectors - 1) sectors ss gpt mbr verbose)" for tr
    using makes_create [OF R, of "\<not> p"] by (cases p) simp_all
  show ?thesis unfolding fix_tables_def
    by (intro hoare_seq [OF pre] hoare_phases makes_create [OF R] create_new_gpt_commits [OF R] backup
        makes_reopen outside_partitions_other) (simp_all add: warnx_def makes_say outside_partitions_other)
qed

section \<open>Where a table comes from\<close>

text \<open>The header and the entries are what the device answered to two reads.\<close>

definition table_read :: "fd \<Rightarrow> u64 \<Rightarrow> GPT \<Rightarrow> (syscall \<times> response) list \<Rightarrow> bool" where
  "table_read fd off gpt tr \<longleftrightarrow>
     (let ss = gpt_sector_size gpt in
      \<exists>n r r'. (Device (Pread fd (unat ss) (off * ucast ss)), r) \<in> set tr \<and>
        decode_GPTHeader (take sizeof_GPTHeader (rdata r)) = gpt_header gpt \<and>
        (Device (Pread fd n (ucast ss * PartitionEntryLBA (gpt_header gpt))), r') \<in> set tr \<and>
        rdata r' = gpt_entries gpt)"

lemma table_readI:
  assumes "(Device (Pread fd (unat ss) (off * ucast ss)), r) \<in> set tr"
    and "(Device (Pread fd n (ucast ss * PartitionEntryLBA (decode_GPTHeader (take sizeof_GPTHeader (rdata r))))), r') \<in> set tr"
  shows "table_read fd off \<lparr>gpt_header = decode_GPTHeader (take sizeof_GPTHeader (rdata r)), gpt_used_entries = u,
     gpt_entries = rdata r', gpt_sector_size = ss\<rparr> tr"
  unfolding table_read_def Let_def using assms by (intro exI [of _ n] exI [of _ r] exI [of _ r']) simp

lemma any_check_entries: "makes (\<lambda>_. True) tr (check_entries os gpt)"
  unfolding check_entries_def by (intro keep_intros anyc.basic anyc.for_each)

lemma seen_read_entries:
  assumes "decode_GPTHeader (take sizeof_GPTHeader (rdata r)) = h"
  shows "hoare (\<lambda>_ _. True) (seen (Device (Pread fd (unat ss) (off * ucast ss)), r)) (read_entries os zcrc fd h ss n)
     (\<lambda>g t. case g of None \<Rightarrow> True | Some gpt \<Rightarrow> gpt_sector_size gpt = ss \<and> table_read fd off gpt (trace t))"
proof -
  let ?e = "(Device (Pread fd (unat ss) (off * ucast ss)), r)"
  let ?Q = "\<lambda>g t. case g of None \<Rightarrow> True | Some gpt \<Rightarrow> gpt_sector_size gpt = ss \<and> table_read fd off gpt (trace t)"
  have fin: "hoare (\<lambda>_ _. True) (\<lambda>t. seen ?e t \<and> seen (Device (Pread fd k (ucast ss * PartitionEntryLBA h)), r') t)
      (bnd (check_entries os \<lparr>gpt_header = h, gpt_used_entries = u, gpt_entries = rdata r', gpt_sector_size = ss\<rparr>)
        (\<lambda>v. case v of Inr _ \<Rightarrow> ret None
          | Inl used \<Rightarrow> if used = 0 then errx os c m
              else ret (Some (\<lparr>gpt_header = h, gpt_used_entries = u, gpt_entries = rdata r', gpt_sector_size = ss\<rparr>
                \<lparr>gpt_used_entries := used\<rparr>)))) ?Q" for k r' u c m
  proof (rule hoare_bnd [where R = "\<lambda>_ t. seen ?e t \<and> seen (Device (Pread fd k (ucast ss * PartitionEntryLBA h)), r') t"])
    show "hoare (\<lambda>_ _. True) (\<lambda>t. seen ?e t \<and> seen (Device (Pread fd k (ucast ss * PartitionEntryLBA h)), r') t)
       (check_entries os \<lparr>gpt_header = h, gpt_used_entries = u, gpt_entries = rdata r', gpt_sector_size = ss\<rparr>)
       (\<lambda>_ t. seen ?e t \<and> seen (Device (Pread fd k (ucast ss * PartitionEntryLBA h)), r') t)"
      by (rule keep_both [OF any_check_entries])
  next
    fix v :: "32 word + unit"
    show "hoare (\<lambda>_ _. True) (\<lambda>t. seen ?e t \<and> seen (Device (Pread fd k (ucast ss * PartitionEntryLBA h)), r') t)
       (case v of Inr _ \<Rightarrow> ret None
          | Inl used \<Rightarrow> if used = 0 then errx os c m
              else ret (Some (\<lparr>gpt_header = h, gpt_used_entries = u, gpt_entries = rdata r', gpt_sector_size = ss\<rparr>
                \<lparr>gpt_used_entries := used\<rparr>))) ?Q"
      using assms by (cases v) (auto intro!: hoare_ret hoare_never_True table_readI)
  qed
  show ?thesis unfolding read_entries_def Let_def
    by (intro hoare_bnd [OF keep_seen [OF makes_checked]] hoare_bnd [OF keep_seen [OF anyc.malloc]]
        hoare_bnd [OF hoare_sys_both] hoare_if hoare_never_True fin hoare_seq [OF hoare_weak] hoare_ret) simp
qed

lemma seen_read_and_check_gpt:
  "hoare (\<lambda>_ _. True) (\<lambda>_. True) (read_and_check_gpt os zcrc fd off ss sectors verbose)
     (\<lambda>g t. case g of None \<Rightarrow> True | Some gpt \<Rightarrow> gpt_sector_size gpt = ss \<and> table_read fd off gpt (trace t))"
  unfolding read_and_check_gpt_def Let_def
  by (intro hoare_if hoare_seq [OF hoare_weak] hoare_bnd [OF hoare_weak [where m = "malloc _ _"]]
      hoare_bnd [OF hoare_sys_seen] hoare_never_True hoare_bnd [OF keep_seen [OF anyc.check_gpt_header]]
      hoare_seq [OF keep_seen [OF keep_guarded [OF anyc.vlog]]] seen_read_entries refl)
    (auto intro!: hoare_ret)

text \<open>A failed assertion aside, what was read is in order, whatever the number of sectors.\<close>

lemma returning_check_gpt_header:
  "returning (check_gpt_header os zcrc h off ss sectors verbose)
     (\<lambda>n. n \<noteq> 0 \<longrightarrow> n = gpt_partition_table_bytes h \<and> header_ok zcrc h off ss sectors)"
proof (cases "6 \<le> sectors \<and> off < sectors")
  case True
  then show ?thesis by (intro hoare_weaken_stop [OF hoare_check_gpt_header]) simp_all
next
  case False
  then show ?thesis by (auto simp add: check_gpt_header_def hoare_def assert_c_def wp_simps)
qed

lemma returning_read_and_check_gpt:
  assumes "sector_size ss"
  shows "returning (read_and_check_gpt os zcrc fd off ss sectors verbose)
     (\<lambda>g. case g of None \<Rightarrow> True | Some gpt \<Rightarrow> gpt_ok zcrc off ss sectors gpt)"
proof -
  have checked: "returning (seq m (read_entries os zcrc fd h ss n))
      (\<lambda>g. case g of None \<Rightarrow> True | Some gpt \<Rightarrow> gpt_ok zcrc off ss sectors gpt)"
    if "n \<noteq> 0 \<longrightarrow> n = gpt_partition_table_bytes h \<and> header_ok zcrc h off ss sectors" "n \<noteq> 0" for m h n
    using that by (intro returning_seq hoare_weaken_stop [OF hoare_read_entries] assms) simp_all
  show ?thesis unfolding read_and_check_gpt_def Let_def
    by (intro hoare_if returning_seq returning_bnd [OF returning_any [where m = "malloc _ _"]]
        returning_bnd [OF returning_any [where m = "sys _ _"]] returning_never
        returning_bnd [OF returning_check_gpt_header] checked) (simp_all add: returning_ret)
qed

section \<open>The whole run\<close>

fun no_pwrite :: "syscall \<Rightarrow> bool" where
  "no_pwrite (Device (Pwrite fd b off)) = False"
| "no_pwrite _ = True"

lemma no_pwrite_iff: "no_pwrite c \<longleftrightarrow> (\<nexists>n b off. c = Device (Pwrite n b off))"
  by (cases c rule: no_pwrite.cases) simp_all

lemma no_pwrite_other: "\<not> opens_or_writes c \<Longrightarrow> no_pwrite c"
  by (cases c rule: opens_or_writes.cases) simp_all

interpretation nw: quiet no_pwrite
  by unfold_locales (rule no_pwrite_other)

text \<open>A write that lies on the device and outside the bytes from \<open>lo\<close> to \<open>hi\<close>.\<close>

fun spares :: "nat \<Rightarrow> nat \<Rightarrow> nat \<Rightarrow> syscall \<Rightarrow> bool" where
  "spares lo hi dev (Device (Pwrite fd b off)) \<longleftrightarrow>
     unat off + length b \<le> dev \<and> (unat off + length b \<le> lo \<or> hi \<le> unat off)"
| "spares lo hi dev _ = True"

lemma no_pwrite_spares: "no_pwrite c \<Longrightarrow> spares lo hi dev c"
  by (cases c rule: no_pwrite.cases) simp_all

lemma outside_spares:
  assumes "outside_partitions backup gpt dev c" and "partition_on gpt dev i e"
  shows "spares (first_byte (gpt_sector_size gpt) e) (after_last_byte (gpt_sector_size gpt) e) dev c"
proof -
  from assms(1) have "\<forall>x. partition_on gpt dev (fst x) (snd x) \<longrightarrow> table_range backup gpt dev (snd x) c"
    by (simp only: outside_partitions_def)
  from spec [OF this, of "(i, e)"] assms(2) have "table_range backup gpt dev e c" by simp
  with assms(2) show ?thesis
    by (cases c rule: no_pwrite.cases) (auto simp add: table_range_def partition_on_def split: if_splits)
qed

definition size_read :: "fd \<Rightarrow> nat \<Rightarrow> (syscall \<times> response) list \<Rightarrow> bool" where
  "size_read fd dev tr \<longleftrightarrow> (\<exists>r. (Device (Ioctl fd BLKGETSIZE64), r) \<in> set tr \<and> unat (rval r) = dev)"

text \<open>
  A repair happened: a table that was read from the device and is in order for the other
  sector size, on a device whose size was asked for; no write touched a partition of it.
\<close>

definition repaired :: "(bytes \<Rightarrow> u64) \<Rightarrow> (syscall \<times> response) list \<Rightarrow> (syscall \<times> response) list \<Rightarrow> bool" where
  "repaired zcrc whole tr \<longleftrightarrow>
     (\<exists>fd off gpt ss sectors dev.
        repair zcrc off gpt ss sectors dev \<and> table_read fd off gpt whole \<and> size_read fd dev whole \<and>
        (\<forall>i e. partition_on gpt dev i e \<longrightarrow>
           list_all (spares (first_byte (gpt_sector_size gpt) e) (after_last_byte (gpt_sector_size gpt) e) dev) (calls tr)))"

definition careful :: "(bytes \<Rightarrow> u64) \<Rightarrow> gpt_mode \<Rightarrow> (syscall \<times> response) list \<Rightarrow> 'w sys \<Rightarrow> bool" where
  "careful zcrc m tr t \<longleftrightarrow>
     (\<exists>tr'. trace t = tr @ tr' \<and> (list_all no_pwrite (calls tr') \<or> m = MODE_FIX \<and> repaired zcrc (trace t) tr'))"

lemma careful_quiet: "made no_pwrite tr t \<Longrightarrow> careful zcrc m tr t"
  by (auto simp add: made_def careful_def)

lemma table_read_append: "table_read fd off gpt tr \<Longrightarrow> table_read fd off gpt (tr @ tr')"
  unfolding table_read_def Let_def by (auto; blast)

lemma size_read_append: "size_read fd dev tr \<Longrightarrow> size_read fd dev (tr @ tr')"
  by (auto simp add: size_read_def)

lemma careful_more:
  assumes "careful zcrc m tr u" and "made no_pwrite (trace u) t"
  shows "careful zcrc m tr t"
proof -
  from assms obtain tr' tr'' where u: "trace u = tr @ tr'" and t: "trace t = trace u @ tr''" "list_all no_pwrite (calls tr'')"
    and c: "list_all no_pwrite (calls tr') \<or> m = MODE_FIX \<and> repaired zcrc (trace u) tr'"
    by (auto simp add: careful_def made_def)
  have "repaired zcrc (trace t) (tr' @ tr'')" if "repaired zcrc (trace u) tr'"
    using that t unfolding repaired_def
    by (elim exE conjE) (intro exI conjI allI impI, assumption,
      auto intro: table_read_append size_read_append no_pwrite_spares simp add: list_all_iff)
  with u t c show ?thesis unfolding careful_def
    by (intro exI [of _ "tr' @ tr''"]) auto
qed

lemma keep_careful:
  fixes m :: "('w sys, 'a) prog"
  assumes "\<And>tr. makes no_pwrite tr m"
  shows "hoare (\<lambda>_. careful zcrc md tr) (careful zcrc md tr) m (\<lambda>_. careful zcrc md tr)"
proof (rule hoareI)
  fix u :: "'w sys"
  assume u: "careful zcrc md tr u"
  have "made no_pwrite (trace u) u" by (simp add: made_def)
  from hoareD [OF assms this] show "wp m (\<lambda>_. careful zcrc md tr) (\<lambda>_. careful zcrc md tr) u"
    by (rule wp_mono) (use u in \<open>auto intro: careful_more\<close>)
qed

lemma careful_phases:
  assumes u: "made no_pwrite tr u" and R: "repair zcrc off gpt ss sectors dev"
    and known: "table_read fd off gpt (trace u)" "size_read fd dev (trace u)"
    and t: "phases (outside_partitions p gpt dev) (outside_partitions q gpt dev) C (trace u) t"
  shows "careful zcrc MODE_FIX tr t"
proof -
  from u obtain tr0 where tr0: "trace u = tr @ tr0" "list_all no_pwrite (calls tr0)" by (auto simp add: made_def)
  from t obtain tr1 tr2 where tr: "trace t = trace u @ tr1 @ tr2"
    "list_all (outside_partitions p gpt dev) (calls tr1)" "list_all (outside_partitions q gpt dev) (calls tr2)"
    by (auto simp add: phases_def)
  have "list_all (spares (first_byte (gpt_sector_size gpt) e) (after_last_byte (gpt_sector_size gpt) e) dev) (calls (tr0 @ tr1 @ tr2))"
    if "partition_on gpt dev i e" for i e
    using tr tr0(2) that by (auto simp add: list_all_iff intro: no_pwrite_spares outside_spares)
  then have "repaired zcrc (trace t) (tr0 @ tr1 @ tr2)"
    unfolding repaired_def tr(1) using R known
    by (intro exI conjI allI impI) (assumption, auto intro: table_read_append size_read_append)
  with tr tr0 show ?thesis unfolding careful_def by (intro exI [of _ "tr0 @ tr1 @ tr2"]) simp
qed

lemma lasting_size_read: "lasting (size_read fd dev)"
  by (simp add: lasting_def size_read_append)

lemma lasting_size_table: "lasting (\<lambda>tr. size_read fd dev tr \<and> table_read fd' off gpt tr)"
  by (simp add: lasting_def size_read_append table_read_append)

text \<open>What is known of a table after the calls that look for it.\<close>

definition known_table :: "(bytes \<Rightarrow> u64) \<Rightarrow> fd \<Rightarrow> u32 \<Rightarrow> u64 \<Rightarrow> GPT option \<Rightarrow> (syscall \<times> response) list \<Rightarrow> bool" where
  "known_table zcrc fd ss sectors g tr \<longleftrightarrow>
     (\<forall>gpt. g = Some gpt \<longrightarrow> gpt_sector_size gpt = ss \<and>
        (\<exists>off. gpt_ok zcrc off ss sectors gpt \<and> table_read fd off gpt tr))"

lemma find_table:
  assumes "sector_size ss"
  shows "hoare (\<lambda>_. made no_pwrite tr) (\<lambda>t. made no_pwrite tr t \<and> size_read fd dev (trace t))
     (read_and_check_gpt os zcrc fd off ss sectors verbose)
     (\<lambda>g t. (made no_pwrite tr t \<and> size_read fd dev (trace t)) \<and> known_table zcrc fd ss sectors g (trace t))"
proof -
  note keep = keep_lasting [OF nw.read_and_check_gpt lasting_size_read, of tr fd dev os zcrc fd off ss sectors verbose]
  note found = hoare_conj [OF returning_read_and_check_gpt [OF assms] seen_read_and_check_gpt]
  have "hoare (\<lambda>_. made no_pwrite tr) (\<lambda>t. made no_pwrite tr t \<and> size_read fd dev (trace t))
     (read_and_check_gpt os zcrc fd off ss sectors verbose)
     (\<lambda>g t. (made no_pwrite tr t \<and> size_read fd dev (trace t)) \<and>
        (case g of None \<Rightarrow> True | Some gpt \<Rightarrow> gpt_ok zcrc off ss sectors gpt) \<and>
        (case g of None \<Rightarrow> True | Some gpt \<Rightarrow> gpt_sector_size gpt = ss \<and> table_read fd off gpt (trace t)))"
    using hoare_conj [OF keep hoare_pre [OF found]] by simp
  then show ?thesis by (rule hoare_post) (auto simp add: known_table_def split: option.splits)
qed

lemma careful_start:
  assumes "\<And>tr. makes no_pwrite tr m" and "\<And>x. hoare (\<lambda>_. careful zcrc md tr) (made no_pwrite tr) (f x) Q"
  shows "hoare (\<lambda>_. careful zcrc md tr) (made no_pwrite tr) (bnd m f) Q"
  by (rule hoare_bnd [OF hoareI assms(2)], rule wp_mono [OF hoareD [OF assms(1)]]) (auto intro: careful_quiet)

lemma hoare_careful_stop:
  assumes "hoare (\<lambda>_. made no_pwrite tr) P m Q"
  shows "hoare (\<lambda>_. careful zcrc md tr) P m Q"
  using assms unfolding hoare_def by (auto elim!: wp_mono intro: careful_quiet)

lemma end_careful:
  assumes "\<And>tr. makes no_pwrite tr m" and "\<And>t. P t \<Longrightarrow> made no_pwrite tr t"
  shows "hoare (\<lambda>_. careful zcrc md tr) P m (\<lambda>_. careful zcrc md tr)"
  by (rule hoareI, rule wp_mono [OF hoareD [OF assms(1)]], erule assms(2)) (auto intro: careful_quiet)

lemma careful_fix_tables:
  assumes R: "\<And>gpt off. g = Some gpt \<Longrightarrow> gpt_sector_size gpt = old_ss \<Longrightarrow> gpt_ok zcrc off old_ss old_sectors gpt \<Longrightarrow>
      repair zcrc off gpt ss sectors dev"
    and g: "g = Some gpt"
  shows "hoare (\<lambda>_. careful zcrc MODE_FIX tr)
     (\<lambda>t. (made no_pwrite tr t \<and> size_read fd dev (trace t)) \<and> known_table zcrc fd old_ss old_sectors g (trace t))
     (fix_tables os zcrc fd p sectors ss gpt mbr verbose) (\<lambda>_. careful zcrc MODE_FIX tr)"
proof (rule hoareI)
  fix u :: "'a sys"
  assume u: "(made no_pwrite tr u \<and> size_read fd dev (trace u)) \<and> known_table zcrc fd old_ss old_sectors g (trace u)"
  then obtain off where k: "gpt_sector_size gpt = old_ss" "gpt_ok zcrc off old_ss old_sectors gpt" "table_read fd off gpt (trace u)"
    using g by (auto simp add: known_table_def)
  note rep = R [OF g k(1,2)]
  have "made (outside_partitions p gpt dev) (trace u) u" by (simp add: made_def)
  from hoareD [OF fix_tables_phases [OF rep] this]
  show "wp (fix_tables os zcrc fd p sectors ss gpt mbr verbose) (\<lambda>_. careful zcrc MODE_FIX tr) (\<lambda>_. careful zcrc MODE_FIX tr) u"
    by (rule wp_mono) (use u k(3) in \<open>auto intro: careful_phases [OF _ rep]\<close>)
qed

lemma sint_nonneg: "0 \<le> sint (w :: u64) \<Longrightarrow> unat w < 2 ^ 63"
proof (rule ccontr)
  assume w: "0 \<le> sint w" "\<not> unat w < 2 ^ 63"
  then have "bit w 63" using unat_words(1) [of w] by (intro bit_top) simp_all
  with w(1) show False using bit_last_iff [of w] by simp
qed

lemma careful_change_sector_size:
  assumes ss: "sector_size ss" and s6: "6 \<le> sectors" and dev: "dev_size = ucast ss * sectors"
    "unat dev_size = unat ss * unat sectors" "0 \<le> sint dev_size"
  shows "hoare (\<lambda>_. careful zcrc m tr) (\<lambda>t. made no_pwrite tr t \<and> size_read fd (unat dev_size) (trace t))
     (change_sector_size os zcrc fd m dev_size sectors ss mbr verbose) (\<lambda>_. careful zcrc m tr)"
proof (cases "dev_size mod 4096 \<noteq> 0")
  case True
  then show ?thesis unfolding change_sector_size_def if_P [OF True]
    by (intro end_careful nw.errx) simp
next
  case False
  define old_ss where "old_ss = (if ss = 4096 then 512 else 4096 :: u32)"
  define old_sectors where "old_sectors = (if ss = 4096 then push_bit 3 sectors else drop_bit 3 sectors)"
  have old: "sector_size old_ss" "old_ss \<noteq> ss" using ss by (auto simp add: old_ss_def sector_size_def)
  have "unat (dev_size mod 4096) = 0" using False by (simp only: unat_0 not_not)
  then have "4096 dvd unat dev_size" by (simp add: unat_mod dvd_eq_mod_eq_0)
  moreover have "unat dev_size < 2 ^ 63" by (rule sint_nonneg [OF dev(3)])
  ultimately have rep: "repair zcrc off gpt ss sectors (unat dev_size)"
    if "gpt_sector_size gpt = old_ss" "gpt_ok zcrc off old_ss old_sectors gpt" for gpt off
    using that ss s6 old dev unfolding repair_def by auto
  note find = hoare_careful_stop [OF find_table [OF old(1)]]
  show ?thesis unfolding change_sector_size_def Let_def old_ss_def [symmetric] old_sectors_def [symmetric] if_not_P [OF False]
  proof (rule hoare_bnd [OF find], goal_cases)
    case (1 primary)
    show ?case
    proof (rule hoare_bnd [where R = "\<lambda>g t. (made no_pwrite tr t \<and> size_read fd (unat dev_size) (trace t)) \<and>
          known_table zcrc fd old_ss old_sectors g (trace t)"], goal_cases)
      case 1
      show ?case by (cases primary; simp only: option.case) (rule hoare_pre [OF find], simp, rule hoare_ret)
    next
      case (2 g)
      have check: "makes no_pwrite tr (seq (assert_c b) (errx os c x))" for tr b c x
        by (intro keep_seq makes_assert nw.errx)
      show ?case
        using careful_fix_tables [where g = g and os = os and mbr = mbr and verbose = verbose and dev = "unat dev_size"
            and ss = ss and sectors = sectors and old_ss = old_ss and old_sectors = old_sectors and zcrc = zcrc and tr = tr, OF rep]
        by (cases g) (auto intro!: end_careful [OF check] end_careful [OF nw.errx])
    qed
  qed
qed

lemma nw_open_device: "makes no_pwrite tr (open_device os dev)"
  unfolding open_device_def
  by (intro keep_intros nw.basic nw.check_whole_block_device makes_sys; simp)

text \<open>The size of the device, and that it was asked for.\<close>

lemma hoare_bool_ioctl:
  "hoare (\<lambda>_ _. True) (\<lambda>_. True) (bool_ioctl os fd op)
     (\<lambda>(_, v) t. \<exists>r. seen (Device (Ioctl fd op), r) t \<and> rval r = v)"
  by (auto simp add: hoare_def bool_ioctl_def warnx_def wp_simps)

lemma geometry_known:
  "hoare (\<lambda>_ _. True) (\<lambda>_. True) (device_geometry os fd)
     (\<lambda>(ss, dev_size) t. size_read fd (unat dev_size) (trace t) \<and> sector_size ss \<and> 0 \<le> sint dev_size \<and>
        dev_size mod ucast ss = 0 \<and> 6 \<le> dev_size div ucast ss)"
  unfolding device_geometry_def Let_def
proof (rule hoare_bnd [OF hoare_weak], unfold split_paired_all prod.case, intro hoare_if hoare_never_True,
    rule hoare_bnd [OF hoare_bool_ioctl], unfold split_paired_all prod.case, intro hoare_if hoare_never_True, goal_cases)
  case (1 ok v ok' dev_size)
  then show ?case by (intro hoare_ret) (auto simp add: size_read_def sector_size_def not_less)
qed

lemma sectors_exact:
  assumes "(dev_size :: u64) mod ucast (ss :: u32) = 0" and "sector_size ss"
  shows "dev_size = ucast ss * (dev_size div ucast ss)" "unat dev_size = unat ss * unat (dev_size div ucast ss)"
proof -
  have "unat ss dvd unat dev_size" using assms(1) by (simp add: mod_dvd)
  then show 1: "unat dev_size = unat ss * unat (dev_size div ucast ss)" by (simp add: unat_div)
  have "unat (ucast ss * (dev_size div ucast ss)) = unat dev_size"
    using 1 unat_words(1) [of dev_size] by (subst unat_mult) simp_all
  then show "dev_size = ucast ss * (dev_size div ucast ss)" by (simp only: word_unat_eq_iff)
qed

lemma careful_gptfix:
  "hoare (\<lambda>_. careful zcrc m tr) (made no_pwrite tr) (gptfix os zcrc m skip verbose dev) (\<lambda>_. careful zcrc m tr)"
  unfolding gptfix_def Let_def
proof (rule careful_start [OF nw_open_device], rule keep_option, goal_cases)
  case (1 f) show ?case by (rule hoare_ret) (rule careful_quiet)
next
  case (2 f fd)
  have geometry: "hoare (\<lambda>_. made no_pwrite tr) (made no_pwrite tr) (device_geometry os fd)
     (\<lambda>x t. made no_pwrite tr t \<and> (case x of (ss, dev_size) \<Rightarrow> size_read fd (unat dev_size) (trace t) \<and> sector_size ss \<and>
        0 \<le> sint dev_size \<and> dev_size mod ucast ss = 0 \<and> 6 \<le> dev_size div ucast ss))"
    using hoare_conj [OF nw.device_geometry hoare_pre [OF geometry_known]] by (simp add: case_prod_unfold)
  show ?case
  proof (rule hoare_bnd [OF hoare_careful_stop [OF geometry]], unfold split_paired_all prod.case, goal_cases)
    case (1 ss dev_size)
    let ?known = "\<lambda>t. made no_pwrite tr t \<and> size_read fd (unat dev_size) (trace t)"
    let ?facts = "sector_size ss \<and> 0 \<le> sint dev_size \<and> dev_size mod ucast ss = 0 \<and> 6 \<le> dev_size div ucast ss"
    have keep: "hoare (\<lambda>_. careful zcrc m tr) ?known p (\<lambda>_. ?known)" if "\<And>tr. makes no_pwrite tr p" for p :: "('a sys, 'b) prog"
      using keep_lasting [OF that lasting_size_read] by (rule hoare_careful_stop)
    note keeps = keep_lasting [OF _ lasting_size_read, THEN hoare_careful_stop]
    have main: "hoare (\<lambda>_. careful zcrc m tr) ?known
      (bnd (read_mbr os fd ss (dev_size div ucast ss) skip verbose) (\<lambda>mbr.
         seq (guarded verbose (vlog os ''Sector size, device size, sectors'' [ucast ss, dev_size, dev_size div ucast ss]))
         (bnd (read_and_check_gpt os zcrc fd 1 ss (dev_size div ucast ss) verbose) (\<lambda>primary.
          bnd (case primary of Some g \<Rightarrow> ret (Some g)
               | None \<Rightarrow> read_and_check_gpt os zcrc fd (dev_size div ucast ss - 1) ss (dev_size div ucast ss) verbose) (\<lambda>g.
          seq (case g of
                 None \<Rightarrow> change_sector_size os zcrc fd m dev_size (dev_size div ucast ss) ss mbr verbose
               | Some gpt \<Rightarrow> guarded (m = MODE_CHECK \<and> verbose) (print_gpts os gpt))
          (seq (guarded (m = MODE_FIX \<and> g = None)
                 (bnd (bool_ioctl os fd BLKRRPART) (\<lambda>(ok, v).
                  bnd (gets errno) (\<lambda>e.
                  guarded (\<not> ok \<and> e \<noteq> EINVAL) (errx os EXIT_IO ''Cannot reload kernel partition table'')))))
          (bnd (sys os (Close fd)) (\<lambda>_.
           bnd (sys os (Device Fflush)) (\<lambda>_.
           bnd (sys os (Device Ferror_stdout)) (\<lambda>r.
           if rv r \<noteq> 0 then errx os EXIT_IO ''Write error on stdout'' else ret 0))))))))))
      (\<lambda>_. careful zcrc m tr)" if facts: ?facts
    proof (rule hoare_bnd [OF keeps [OF nw.read_mbr]], rule hoare_seq [OF keeps [OF keep_guarded [OF nw.vlog]]],
        rule hoare_bnd [OF keeps [OF nw.read_and_check_gpt]], rule hoare_bnd [OF keeps], goal_cases)
      case (1 mbr primary)
      show ?case by (cases primary) (simp_all add: keep_ret nw.read_and_check_gpt)
    next
      case (2 mbr primary g)
      have change: "hoare (\<lambda>_. careful zcrc m tr) ?known
         (change_sector_size os zcrc fd m dev_size (dev_size div ucast ss) ss mbr verbose) (\<lambda>_. careful zcrc m tr)"
        using facts sectors_exact [of dev_size ss] by (intro careful_change_sector_size) simp_all
      show ?case
      proof (rule hoare_seq [where R = "careful zcrc m tr"], goal_cases)
        case 1
        show ?case using change by (cases g) (auto intro!: end_careful keep_guarded nw.print_gpts)
      next
        case 2
        show ?case
          by (rule keep_careful) (intro keep_intros nw.basic nw.sys; simp)
      qed
    qed
    then show ?case by (intro hoareI) (auto dest: hoareD)
  qed
qed

end
