(* ===== verification/Gpt_Theorems.thy ===== *)
theory Gpt_Theorems
  imports Gpt_Safety
begin

text \<open>
  The theorems on the partition-table tool, with a concrete table and environment that
  satisfy their hypotheses.
\<close>

unbundle bit_operations_syntax

section \<open>The tool always ends\<close>

lemma ends_messages [ends_intros]: "ends (vlog os m a)" "ends (bool_ioctl os fd op)"
  unfolding vlog_def bool_ioctl_def by (intro ends_intros)+

lemma ends_for_each [ends_intros]:
  assumes "\<And>i e v. ends (body i e v)"
  shows "ends (for_each_used_gpt_entry gpt body v)"
proof -
  let ?n = "gpt_used_entries gpt"
  let ?body = "\<lambda>(i, v).
       if i < ?n then
         bnd (checked (entry_at gpt i)) (\<lambda>e.
           if unused_entry e then ret (Inl (i + 1, v))
           else bnd (body i e v) (\<lambda>r.
             ret (case r of Inl v' \<Rightarrow> Inl (i + 1, v') | Inr x \<Rightarrow> Inr (Inr x))))
       else ret (Inr (Inl v))"
  have "twp (loop ?body (0, v)) (\<lambda>_ _. True) (\<lambda>_ _. True) s" for s
  proof (rule loop_twp [where I = "\<lambda>_ _. True" and R = "measure (\<lambda>((i, v), s). unat ?n - unat i)"], goal_cases)
    case (2 iv t)
    obtain i v where iv: "iv = (i, v)" by (cases iv)
    show ?case unfolding iv prod.case
    proof (cases "i < ?n")
      case True
      then have "unat ?n - unat (i + 1) < unat ?n - unat i" using unat_Suc_u32 [of i ?n] by linarith
      moreover have "\<exists>r u. body i e v t = Some (r, u)" for e
        using assms unfolding ends_def by (metis not_None_eq surj_pair)
      then obtain r u where "body i e v t = Some (r e, u e)" for e by metis
      ultimately show "twp (if i < ?n then
         bnd (checked (entry_at gpt i)) (\<lambda>e.
           if unused_entry e then ret (Inl (i + 1, v))
           else bnd (body i e v) (\<lambda>r.
             ret (case r of Inl v' \<Rightarrow> Inl (i + 1, v') | Inr x \<Rightarrow> Inr (Inr x))))
       else ret (Inr (Inl v)))
        (\<lambda>r t'. case r of Inl y \<Rightarrow> True \<and> ((y, t'), ((i, v), t)) \<in> measure (\<lambda>((i, v), s). unat ?n - unat i) | Inr a \<Rightarrow> True)
        (\<lambda>_ _. True) t" using True
        by (cases "entry_at gpt i") (auto simp add: checked_def wp_simps twp_def split: option.split sum.split)
    qed (simp add: wp_simps)
  qed simp_all
  then have "ends (loop ?body (0, v))" unfolding ends_def by (blast dest: twp_terminates)
  then show ?thesis unfolding for_each_used_gpt_entry_def by (intro ends_intros)
qed

lemma ends_gpt [ends_intros]:
  "ends (check_mbr os mbr n skip verbose)"
  "ends (check_gpt_header os zcrc h off ss sectors verbose)"
  "ends (check_entries os gpt)"
  "ends (scan_partitions os ss gpt verbose)"
  "ends (build_gpt os zcrc off ss sectors gpt verbose k table)"
  "ends (print_gpts os gpt)"
  "ends (sync_pwrite os fd data len offset)"
  "ends (check_whole_block_device os st)"
  "ends (reopen_for_writing os fd)"
  "ends (device_geometry os fd)"
  unfolding check_mbr_def check_gpt_header_def check_table_place_def check_table_size_def reject_def check_entries_def
    scan_partitions_def build_gpt_def print_gpts_def print_header_def print_entry_def sync_pwrite_def
    check_whole_block_device_def reopen_for_writing_def device_geometry_def Let_def
  by (intro ends_intros)+

lemma ends_gpt_parts [ends_intros]:
  "ends (gpt_adjust_sectors os zcrc off ss sectors gpt verbose)"
  "ends (read_entries os zcrc fd h ss n)"
  "ends (clear_old os fd w sectors ss old_ss mbr buf)"
  "ends (open_device os dev)"
  "ends (read_mbr os fd ss sectors skip verbose)"
  unfolding gpt_adjust_sectors_def read_entries_def clear_old_def open_device_def read_mbr_def Let_def
  by (intro ends_intros)+

lemma ends_create [ends_intros]:
  "ends (create_new_gpt os zcrc fd w sectors ss gpt mbr verbose)"
  "ends (read_and_check_gpt os zcrc fd off ss sectors verbose)"
  unfolding create_new_gpt_def read_and_check_gpt_def Let_def
  by (intro ends_intros)+

lemma ends_change [ends_intros]:
  "ends (fix_tables os zcrc fd p sectors ss gpt mbr verbose)"
  unfolding fix_tables_def by (intro ends_intros)+

lemma ends_change_sector_size [ends_intros]:
  "ends (change_sector_size os zcrc fd m dev_size sectors ss mbr verbose)"
  unfolding change_sector_size_def Let_def by (intro ends_intros)+

lemma ends_gptfix: "ends (gptfix os zcrc m skip verbose dev)"
  unfolding gptfix_def Let_def by (intro ends_intros)+

section \<open>A concrete repair\<close>

text \<open>
  A device of 256 KiB with 4096-byte sectors that carries a table for 512-byte sectors with one
  partition, in the bytes from 32768 to 36864.
\<close>

definition demo_os :: "unit os" where
  "demo_os c w = (\<lparr>rv = 0, re = 0, rdata = [],
     rstat = \<lparr>st_mode = 0, st_size = 0, st_atim_sec = 0, st_atim_nsec = 0, st_mtim_sec = 0, st_mtim_nsec = 0, st_rdev = 0\<rparr>,
     rvfs = (0, 0), rval = 0, rext = zero_ext2\<rparr>, w)"

definition demo_state :: "unit sys" where
  "demo_state = \<lparr> world = (), errno = 0, trace = [] \<rparr>"

definition demo_header :: GPTHeader where
  "demo_header = \<lparr> Signature = EFI_PART, Revision = 0x00010000, HeaderSize = 92, HeaderCRC32 = 0, Reserved = 0,
     MyLBA = 1, AlternateLBA = 511, FirstUsableLBA = 64, LastUsableLBA = 400, DiskGUID = 7, PartitionEntryLBA = 2,
     NumberOfPartitionEntries = 1, SizeOfPartitionEntry = 128, PartitionEntryArrayCRC32 = 0 \<rparr>"

definition demo_entry :: GPTPartitionEntry where
  "demo_entry = \<lparr> PartitionTypeGUID = 1, UniquePartitionGUID = 2, StartingLBA = 64, EndingLBA = 71, Attributes = 0,
     PartitionName = 0 \<rparr>"

definition demo_gpt :: GPT where
  "demo_gpt = \<lparr> gpt_header = demo_header, gpt_used_entries = 1, gpt_entries = encode_GPTPartitionEntry demo_entry,
     gpt_sector_size = 512 \<rparr>"

lemma demo_header_ok: "header_ok (\<lambda>_. 0) demo_header 1 512 512"
  by (simp add: header_ok_def demo_header_def gpt_partition_table_bytes_def sizeof_GPTHeader_def sizeof_GPTPartitionEntry_def)

lemma demo_entry_at: "entry_at demo_gpt 0 = Some demo_entry"
proof -
  have "length (gpt_entries demo_gpt) = 128"
    by (simp add: demo_gpt_def gpt_ent.length_enc) (simp add: sizeof_GPTPartitionEntry_def)
  moreover have "decode_GPTPartitionEntry (gpt_entries demo_gpt) = demo_entry"
    by (simp add: demo_gpt_def gpt_ent.dec_enc)
  ultimately show ?thesis
    by (subst entry_at_total [where n = 1])
      (simp_all add: demo_gpt_def demo_header_def sizeof_GPTPartitionEntry_def)
qed

lemma demo_repair: "repair (\<lambda>_. 0) 1 demo_gpt 4096 64 262144"
proof -
  have len: "length (gpt_entries demo_gpt) = sizeof_GPTPartitionEntry" by (simp add: demo_gpt_def gpt_ent.length_enc)
  have "entries_ok demo_gpt 1 1"
    using demo_entry_at by (simp add: entries_ok_def) (simp add: demo_gpt_def demo_header_def demo_entry_def unused_entry_def)
  then have "gpt_ok (\<lambda>_. 0) 1 512 512 demo_gpt"
    using demo_header_ok len by (simp add: gpt_ok_def) (simp add: demo_gpt_def demo_header_def)
  moreover have "gpt_sector_size demo_gpt = 512" by (simp add: demo_gpt_def)
  ultimately show ?thesis unfolding repair_def sector_size_def by auto
qed

lemma demo_partition: "partition_on demo_gpt 262144 0 demo_entry"
  using demo_entry_at
  by (simp add: partition_on_def first_byte_def after_last_byte_def) (simp add: demo_gpt_def demo_entry_def unused_entry_def)

lemma demo_scan: "scan_partitions demo_os 4096 demo_gpt False s = Some (Inr (32768, 36864, 0, 0), s)"
proof -
  have u: "\<not> unused_entry demo_entry" by (simp add: unused_entry_def demo_entry_def)
  have f: "gpt_used_entries demo_gpt = 1" "gpt_sector_size demo_gpt = 512" "StartingLBA demo_entry = 64"
    "EndingLBA demo_entry = 71" "unat (SizeOfPartitionEntry (gpt_header demo_gpt)) = sizeof_GPTPartitionEntry"
    by (simp_all add: demo_gpt_def demo_entry_def demo_header_def sizeof_GPTPartitionEntry_def)
  show ?thesis
    unfolding scan_partitions_def for_each_used_gpt_entry_def f
    by (simp add: demo_entry_at u f bnd_def seq_def assert_c_def guarded_def checked_def ret_def
      loop.simps [of _ "(0, _)"] loop.simps [of _ "(1, _)"])
qed

lemma demo_scan_twp: "twp (scan_partitions demo_os 4096 demo_gpt False) Q E s = Q (32768, 36864, 0, 0) s"
  by (simp add: twp_def demo_scan)

lemma demo_malloc: "twp (malloc demo_os n) (\<lambda>b t. length b = n) (\<lambda>_ _. False) s"
  by (simp add: malloc_def wp_simps sys_res_def demo_os_def)

lemma demo_sizes:
  "gpt_used_entries demo_gpt = 1" "gpt_sector_size demo_gpt = 512" "SizeOfPartitionEntry (gpt_header demo_gpt) = 128"
  "NumberOfPartitionEntries (gpt_header demo_gpt) = 1" "FirstUsableLBA (gpt_header demo_gpt) = 64"
  by (simp_all add: demo_gpt_def demo_header_def)

lemma demo_valid: "valid_sector_size 512" "valid_sector_size 4096"
  using sector_size_valid by (simp_all add: sector_size_def)

lemma demo_round: "round_to_next_sector 32768 4096 = Some 32768"
  "gpt_partition_table_required_bytes demo_gpt 4096 1 = Some 4096"
  using demo_valid by (simp_all add: gpt_partition_table_required_bytes_def demo_sizes round_to_next_sector_nat)

lemma demo_copy:
  assumes "128 \<le> length b"
  shows "\<exists>b'. copy_entries demo_gpt 4096 0 (Suc 0) b = Some b' \<and> length b' = length b"
proof -
  have "copy_entry demo_gpt 4096 0 b \<noteq> None"
    using assms by (auto simp add: copy_entry_def gpt_entry_def entry_bytes_at_def demo_sizes Let_def
      sizeof_GPTPartitionEntry_def demo_gpt_def demo_header_def gpt_ent.length_enc)
  then obtain b' where "copy_entry demo_gpt 4096 0 b = Some b'" by blast
  with copy_entry_length [OF this] show ?thesis by simp
qed

lemma demo_fixup:
  assumes "length es = 4096" and "NumberOfPartitionEntries h = 1" and "SizeOfPartitionEntry h = 128"
  shows "fixup_gpt (\<lambda>_. 0) \<lparr>gpt_header = h, gpt_used_entries = u, gpt_entries = es, gpt_sector_size = z\<rparr> 4096 \<noteq> None"
  using assms by (simp add: fixup_gpt_def gpt_partition_table_bytes_def Let_def)

lemma demo_build: "twp (build_gpt demo_os (\<lambda>_. 0) 1 4096 64 demo_gpt False 1 4096) (\<lambda>_ _. True) (\<lambda>_ _. False) s"
proof -
  have fits: "first_usable_fits 4096 demo_gpt 4096"
    using demo_round by (simp add: first_usable_fits_def demo_sizes)
  have fin: "twp (bnd (checked (copy_entries demo_gpt 4096 0 (unat (1 :: u32)) junk)) (\<lambda>es.
       bnd (checked (fixup_gpt (\<lambda>_. 0)
         \<lparr> gpt_header = new_header 1 4096 64 demo_gpt 1 4096, gpt_used_entries = 1, gpt_entries = es, gpt_sector_size = 0 \<rparr>
         4096)) (\<lambda>new_gpt. ret (new_gpt, 4096)))) (\<lambda>_ _. True) (\<lambda>_ _. False) t"
    if "length junk = unat (4096 :: u64)" for junk t
  proof -
    from demo_copy [of junk] that obtain es where es: "copy_entries demo_gpt 4096 0 (Suc 0) junk = Some es" "length es = 4096"
      by auto
    moreover obtain g where "fixup_gpt (\<lambda>_. 0)
         \<lparr> gpt_header = new_header 1 4096 64 demo_gpt 1 4096, gpt_used_entries = 1, gpt_entries = es, gpt_sector_size = 0 \<rparr> 4096 = Some g"
      using demo_fixup [OF es(2)] by (force simp add: new_header_def Let_def demo_sizes)
    ultimately show ?thesis by (simp add: checked_def wp_simps)
  qed
  show ?thesis unfolding build_gpt_def Let_def
    by (simp only: wp_simps assert_c_def fits) (rule twp_mono [OF demo_malloc], simp only: wp_simps not_True_eq_False if_False,
      rule twp_mono [OF demo_malloc], use fin in \<open>simp_all only: wp_simps\<close>)
qed

lemma demo_adjust: "\<exists>new_gpt table t.
    gpt_adjust_sectors demo_os (\<lambda>_. 0) 1 4096 64 demo_gpt False demo_state = Some (Inr (new_gpt, table), t)"
proof -
  have "twp (gpt_adjust_sectors demo_os (\<lambda>_. 0) 1 4096 64 demo_gpt False) (\<lambda>_ _. True) (\<lambda>_ _. False) demo_state"
    unfolding gpt_adjust_sectors_def Let_def
    by (simp add: wp_simps assert_c_def demo_sizes demo_valid demo_scan_twp checked_def demo_round demo_build)
  then show ?thesis by (auto dest: twp_returned)
qed

section \<open>The theorems\<close>

text \<open>
  Rounding to sectors is exact: it succeeds precisely for a sector size that is a power of
  two from 512 bytes on and a value whose rounding does not overflow, and its result is the
  least multiple of the sector size that is not below the value.
\<close>

theorem round_to_next_sector_least:
  "round_to_next_sector v ss = Some r \<longleftrightarrow>
     (\<exists>k. 9 \<le> k \<and> k < 32 \<and> ss = 2 ^ k) \<and> unat v + (unat ss - 1) < 2 ^ 64 \<and>
     unat ss dvd unat r \<and> unat v \<le> unat r \<and> unat r < unat v + unat ss"
proof (cases "valid_sector_size ss")
  case False
  then have "\<not> (\<exists>k. 9 \<le> k \<and> k < 32 \<and> ss = 2 ^ k)" using valid_sector_size_powers by blast
  with False show ?thesis by (simp add: round_to_next_sector_def)
next
  case True
  then have k: "\<exists>k. 9 \<le> k \<and> k < 32 \<and> ss = 2 ^ k" by (rule valid_sector_size_power)
  then obtain j where "9 \<le> j" "j < 32" "ss = 2 ^ j" by blast
  then have s: "0 < unat ss" by (simp add: unat_power2)
  let ?n = "unat v + (unat ss - 1)" let ?m = "?n div unat ss * unat ss"
  have le: "?m \<le> ?n" "unat v \<le> ?m"
  proof -
    have "?n mod unat ss \<le> unat ss - 1" using mod_less_divisor [OF s, of ?n] by linarith
    moreover have "?n = ?m + ?n mod unat ss" by (rule div_mult_mod_eq [symmetric])
    ultimately show "unat v \<le> ?m" by linarith
  qed (rule div_times_less_eq_dividend)
  have eq: "unat r = ?m" if "unat ss dvd unat r" "unat v \<le> unat r" "unat r < unat v + unat ss"
  proof -
    from that(1) obtain q where q: "unat r = q * unat ss" by (metis dvd_def mult.commute)
    have "q * unat ss \<le> ?n" "?n < (q + 1) * unat ss" using that(2,3) s unfolding q by simp_all
    then have "?n div unat ss = q" using s by (simp add: div_nat_eqI mult.commute)
    then show ?thesis by (simp add: q)
  qed
  have small: "unat (word_of_nat ?m :: u64) = ?m" if "?n < 2 ^ 64"
    using le_less_trans [OF le(1) that] by (intro unat_word_of_nat_small) simp
  show ?thesis
  proof (cases "?n < 2 ^ 64")
    case False
    with round_to_next_sector_nat [OF True, of v] show ?thesis by simp
  next
    case fits: True
    have "?m < unat v + unat ss" using le(1) s by linarith
    with small [OF fits] le(2) have "r = word_of_nat ?m \<longleftrightarrow> unat ss dvd unat r \<and> unat v \<le> unat r \<and> unat r < unat v + unat ss"
      using eq by (metis dvd_triv_right word_unat_eq_iff)
    with round_to_next_sector_nat [OF True, of v] fits k show ?thesis by (simp add: eq_commute)
  qed
qed



text \<open>On a device of fewer than six sectors no table is read.\<close>

lemma read_and_check_gpt_small:
  assumes "sectors < 6"
  shows "hoare (\<lambda>e _. e = Abort \<longrightarrow> sector_offset = 1 \<and> 2 \<le> sectors) (\<lambda>_. True)
     (read_and_check_gpt os zcrc fd sector_offset ss sectors verbose) (\<lambda>g _. g = None)"
proof -
  have n: "unat sectors < 6" using assms by (simp add: word_less_nat_alt)
  have off: "sector_offset = 1 \<and> 2 \<le> sectors" if "\<not> sector_offset \<ge> sectors" "\<not> (sector_offset \<noteq> 1 \<and> sector_offset < 5)"
  proof -
    have "unat sector_offset < 5" using that(1) n by (simp add: word_le_nat_alt)
    then have "sector_offset = 1" using that(2) by (auto simp add: word_less_nat_alt)
    with that(1) show ?thesis by (simp add: word_le_nat_alt)
  qed
  have "\<not> 6 \<le> sectors" using assms by simp
  then have check: "check_gpt_header os zcrc h sector_offset ss sectors verbose = halt Abort" for h
    by (simp add: check_gpt_header_def assert_c_def guarded_def seq_def bnd_halt)
  show ?thesis unfolding read_and_check_gpt_def Let_def check bnd_halt
    using off by (auto simp add: hoare_def wp_simps warnx_def errx_def malloc_def)
qed

text \<open>
  C11: A table that was read is in order.  For every device and whatever it answers, reading a
  table fails an assertion only for the primary table of a device of two to five sectors, and a
  table it returns has a header that passed every check, a checksum that is right, all its used
  entries in the usable space, and the index of the last of them; header and entries are the
  answers to two reads of the device.
\<close>

theorem read_and_check_gpt_sound:
  assumes "sector_size ss" and "read_and_check_gpt os zcrc fd sector_offset ss sectors verbose s = Some (r, t)"
  shows "(r = Inl Abort \<longrightarrow> sector_offset = 1 \<and> 2 \<le> sectors \<and> sectors \<le> 5) \<and>
     (\<forall>gpt. r = Inr (Some gpt) \<longrightarrow>
        6 \<le> sectors \<and> gpt_ok zcrc sector_offset ss sectors gpt \<and> table_read fd sector_offset gpt (trace t))"
proof (cases "6 \<le> sectors")
  case False
  then have small: "sectors < 6" by simp
  then have five: "sectors \<le> 5" by (simp add: word_le_nat_alt word_less_nat_alt)
  have "wp (read_and_check_gpt os zcrc fd sector_offset ss sectors verbose)
     (\<lambda>g _. g = None) (\<lambda>e _. e = Abort \<longrightarrow> sector_offset = 1 \<and> 2 \<le> sectors) s"
    by (rule hoareD [OF read_and_check_gpt_small [OF small] TrueI])
  then show ?thesis using assms(2) five by (auto simp add: wp_def split: sum.splits)
next
  case True
  have "wp (read_and_check_gpt os zcrc fd sector_offset ss sectors verbose)
     (\<lambda>g _. case g of None \<Rightarrow> True | Some gpt \<Rightarrow> gpt_ok zcrc sector_offset ss sectors gpt) (\<lambda>e _. e \<noteq> Abort) s"
    by (rule hoareD [OF hoare_read_and_check_gpt [OF assms(1) True] TrueI])
  moreover have "wp (read_and_check_gpt os zcrc fd sector_offset ss sectors verbose)
     (\<lambda>g t. case g of None \<Rightarrow> True | Some gpt \<Rightarrow> gpt_sector_size gpt = ss \<and> table_read fd sector_offset gpt (trace t)) (\<lambda>_ _. True) s"
    by (rule hoareD [OF seen_read_and_check_gpt TrueI])
  ultimately show ?thesis using assms(2) True by (auto simp add: wp_def split: sum.splits)
qed

text \<open>A disk with the header of the concrete table in its second sector and the entries in its third.\<close>

definition demo_disk :: bytes where
  "demo_disk = replicate 512 0 @ encode_GPTHeader demo_header @ replicate (512 - sizeof_GPTHeader) 0 @
     encode_GPTPartitionEntry demo_entry @ replicate (512 - sizeof_GPTPartitionEntry) 0"

definition disk_os :: "unit os" where
  "disk_os c w = ((fst (demo_os c w))\<lparr>rdata := (case c of Device (Pread fd n off) \<Rightarrow> drop (unat off) demo_disk | _ \<Rightarrow> [])\<rparr>, w)"

lemma demo_disk_length: "length demo_disk = 1536"
  by (simp add: demo_disk_def gpt_hdr.length_enc gpt_ent.length_enc) (simp add: sizeof_GPTHeader_def sizeof_GPTPartitionEntry_def)

lemma demo_disk_parts:
  "take sizeof_GPTHeader (drop 512 demo_disk) = encode_GPTHeader demo_header"
  "take sizeof_GPTPartitionEntry (drop 1024 demo_disk) = encode_GPTPartitionEntry demo_entry"
proof -
  let ?front = "replicate 512 0 @ encode_GPTHeader demo_header @ replicate (512 - sizeof_GPTHeader) (0 :: u8)"
  have l: "length (replicate 512 (0 :: u8)) = 512" "length ?front = 1024"
    by (simp_all add: gpt_hdr.length_enc) (simp add: sizeof_GPTHeader_def)
  have "drop (length (replicate 512 (0 :: u8))) demo_disk = encode_GPTHeader demo_header @ replicate (512 - sizeof_GPTHeader) 0 @
     encode_GPTPartitionEntry demo_entry @ replicate (512 - sizeof_GPTPartitionEntry) 0"
    unfolding demo_disk_def by (rule append_eq_conv_conj [THEN iffD1, OF refl, THEN conjunct2, symmetric])
  then show "take sizeof_GPTHeader (drop 512 demo_disk) = encode_GPTHeader demo_header"
    unfolding l by (simp add: gpt_hdr.length_enc)
  have "demo_disk = ?front @ encode_GPTPartitionEntry demo_entry @ replicate (512 - sizeof_GPTPartitionEntry) 0"
    by (simp add: demo_disk_def)
  then have "drop (length ?front) demo_disk = encode_GPTPartitionEntry demo_entry @ replicate (512 - sizeof_GPTPartitionEntry) 0"
    by (rule append_eq_conv_conj [THEN iffD1, OF sym, THEN conjunct2, symmetric])
  then show "take sizeof_GPTPartitionEntry (drop 1024 demo_disk) = encode_GPTPartitionEntry demo_entry"
    unfolding l by (simp add: gpt_ent.length_enc)
qed

lemma disk_round: "round_to_next_sector 128 512 = Some 512"
  using demo_valid by (simp add: round_to_next_sector_nat)

definition disk_gpt :: GPT where
  "disk_gpt = \<lparr>gpt_header = demo_header, gpt_used_entries = 1, gpt_entries = drop 1024 demo_disk, gpt_sector_size = 512\<rparr>"

lemma disk_entry_at: "entry_at disk_gpt 0 = Some demo_entry"
proof -
  have "length (gpt_entries disk_gpt) = 512" by (simp add: disk_gpt_def demo_disk_length)
  moreover have "take sizeof_GPTPartitionEntry (gpt_entries disk_gpt) = encode_GPTPartitionEntry demo_entry"
    using demo_disk_parts(2) by (simp add: disk_gpt_def sizeof_GPTPartitionEntry_def)
  ultimately show ?thesis
    by (subst entry_at_total [where n = 1])
      (simp_all add: disk_gpt_def demo_header_def gpt_ent.dec_enc sizeof_GPTPartitionEntry_def)
qed

lemma disk_check: "twp (check_entries disk_os disk_gpt) Q E s = Q (Inl 1) s"
proof -
  have u: "\<not> unused_entry demo_entry" by (simp add: unused_entry_def demo_entry_def)
  have f: "gpt_used_entries disk_gpt = 1" "FirstUsableLBA (gpt_header disk_gpt) = 64" "LastUsableLBA (gpt_header disk_gpt) = 400"
    "StartingLBA demo_entry = 64" "EndingLBA demo_entry = 71"
    "unat (SizeOfPartitionEntry (gpt_header disk_gpt)) = sizeof_GPTPartitionEntry"
    by (simp_all add: disk_gpt_def demo_entry_def demo_header_def sizeof_GPTPartitionEntry_def)
  have "check_entries disk_os disk_gpt s = Some (Inr (Inl 1), s)"
    unfolding check_entries_def for_each_used_gpt_entry_def f
    by (simp add: disk_entry_at u f bnd_def seq_def checked_def ret_def assert_c_def guarded_def
      loop.simps [of _ "(0, _)"] loop.simps [of _ "(1, _)"])
  then show ?thesis by (simp add: twp_def)
qed

lemma disk_res:
  "rv (sys_res disk_os (Device (Malloc n)) u) = 0"
  "sys_res disk_os (Device (Pread 3 512 off)) u =
     (fst (demo_os (Device (Pread 3 512 off)) ()))\<lparr>rv := int (length (take 512 (drop (unat off) demo_disk))), rdata := take 512 (drop (unat off) demo_disk)\<rparr>"
  by (simp_all add: sys_res_def disk_os_def demo_os_def)

lemma disk_header: "decode_GPTHeader (take (min sizeof_GPTHeader 512) (drop 512 demo_disk)) = demo_header"
  "decode_GPTHeader (take sizeof_GPTHeader (drop 512 demo_disk)) = demo_header"
  using demo_disk_parts(1) by (simp_all add: sizeof_GPTHeader_def gpt_hdr.dec_enc)

lemma disk_header_twp: "twp (check_gpt_header disk_os (\<lambda>_. 0) demo_header 1 512 512 False) (\<lambda>n _. n = 128) (\<lambda>_ _. False) s"
proof (rule twpI)
  show "check_gpt_header disk_os (\<lambda>_. 0) demo_header 1 512 512 False s \<noteq> None"
    using ends_gpt(2) unfolding ends_def by blast
  have "gpt_partition_table_bytes demo_header = 128" by (simp add: gpt_partition_table_bytes_def demo_header_def)
  then show "wp (check_gpt_header disk_os (\<lambda>_. 0) demo_header 1 512 512 False) (\<lambda>n _. n = 128) (\<lambda>_ _. False) s"
    using hoareD [OF check_gpt_header_accepts [OF demo_header_ok] TrueI] by simp
qed

lemma disk_entries: "twp (read_entries disk_os (\<lambda>_. 0) 3 demo_header 512 128)
    (\<lambda>g _. g = Some (disk_gpt\<lparr>gpt_used_entries := 1\<rparr>)) (\<lambda>_ _. False) s"
proof -
  have h: "PartitionEntryLBA demo_header = 2" "PartitionEntryArrayCRC32 demo_header = 0" "NumberOfPartitionEntries demo_header = 1"
    by (simp_all add: demo_header_def)
  show ?thesis unfolding read_entries_def Let_def h disk_round checked_def malloc_def
    by (simp add: wp_simps disk_res demo_disk_length) (simp add: disk_check [unfolded disk_gpt_def] wp_simps disk_res demo_disk_length disk_gpt_def)
qed

theorem read_and_check_gpt_sound_witness:
  "\<exists>gpt t. read_and_check_gpt disk_os (\<lambda>_. 0) 3 1 512 512 False demo_state = Some (Inr (Some gpt), t) \<and>
     entry_at gpt 0 = Some demo_entry \<and> gpt_ok (\<lambda>_. 0) 1 512 512 gpt"
proof -
  have far: "\<not> (512 :: u64) \<le> 1" by (simp add: word_le_nat_alt)
  have "twp (read_and_check_gpt disk_os (\<lambda>_. 0) 3 1 512 512 False) (\<lambda>g _. g = Some (disk_gpt\<lparr>gpt_used_entries := 1\<rparr>)) (\<lambda>_ _. False) demo_state"
    unfolding read_and_check_gpt_def Let_def malloc_def
    by (simp add: wp_simps disk_res demo_disk_length disk_header far guarded_def)
      (rule twp_mono [OF disk_header_twp], use disk_entries in \<open>simp_all add: wp_simps guarded_def disk_res disk_header far demo_disk_length\<close>)
  from twp_returned [OF this] obtain t where
    run: "read_and_check_gpt disk_os (\<lambda>_. 0) 3 1 512 512 False demo_state = Some (Inr (Some (disk_gpt\<lparr>gpt_used_entries := 1\<rparr>)), t)"
    by auto
  have "sector_size 512" by (simp add: sector_size_def)
  from read_and_check_gpt_sound [OF this run] run disk_entry_at show ?thesis by (auto simp add: disk_gpt_def)
qed

text \<open>
  C10: The new table keeps the partitions.  When the layout for the other sector size succeeds,
  every partition on the device is in the same slot of the new table, with the same type,
  identity, attributes and name, and covers the same bytes of the device.
\<close>

theorem gpt_adjust_sectors_keeps_partitions:
  assumes "repair zcrc off gpt ss sectors dev" and "partition_on gpt dev i e"
    and "gpt_adjust_sectors os zcrc sector_offset ss sectors gpt verbose s = Some (Inr (new_gpt, table), t)"
  shows "\<exists>e'. entry_at new_gpt i = Some e' \<and> i < NumberOfPartitionEntries (gpt_header new_gpt) \<and>
     first_byte ss e' = first_byte (gpt_sector_size gpt) e \<and>
     after_last_byte ss e' = after_last_byte (gpt_sector_size gpt) e \<and>
     PartitionTypeGUID e' = PartitionTypeGUID e \<and> UniquePartitionGUID e' = UniquePartitionGUID e \<and>
     Attributes e' = Attributes e \<and> PartitionName e' = PartitionName e"
proof -
  from assms(1) obtain old_sectors where ok: "sector_size ss" "unat ss * unat sectors < 2 ^ 64" "dev < 2 ^ 64"
    "gpt_ok zcrc off (gpt_sector_size gpt) old_sectors gpt" "sector_size (gpt_sector_size gpt)"
    by (auto simp add: repair_def)
  have "wp (gpt_adjust_sectors os zcrc sector_offset ss sectors gpt verbose)
     (\<lambda>x _. laid_out gpt sector_offset ss sectors x \<and> carried zcrc gpt ss x) (\<lambda>_ _. True) s"
    by (rule hoareD [OF returning_conj [OF gpt_adjust_sectors_returning [OF ok(1,2) gpt_ok_sizes(1,2) [OF ok(4)]]
      gpt_adjust_sectors_carried [OF ok(1,2,4)]] TrueI])
  with assms(3) have L: "laid_out gpt sector_offset ss sectors (new_gpt, table)" and C: "carried zcrc gpt ss (new_gpt, table)"
    by (simp_all add: wp_def)
  from L obtain a b where scan: "scanned gpt ss (unat (gpt_used_entries gpt)) a b" by (auto simp add: laid_out_def)
  note p = assms(2) [unfolded partition_on_def]
  from C p have n: "i < NumberOfPartitionEntries (gpt_header new_gpt)" by (auto simp add: carried_def Let_def)
  then obtain e0 where "entry_at gpt i = Some e0" "entry_at new_gpt i = Some (moved gpt ss e0)"
    using C by (auto simp add: carried_def Let_def)
  with p have e': "entry_at new_gpt i = Some (move_entry (gpt_sector_size gpt) ss e)" by (simp add: moved_def)
  have dvd: "unat ss dvd first_byte (gpt_sector_size gpt) e" "unat ss dvd after_last_byte (gpt_sector_size gpt) e"
    by (rule scanned_partition(2,3) [OF scan assms(2) ok(3,5)])+
  have "first_byte ss (move_entry (gpt_sector_size gpt) ss e) = first_byte (gpt_sector_size gpt) e \<and>
     after_last_byte ss (move_entry (gpt_sector_size gpt) ss e) = after_last_byte (gpt_sector_size gpt) e"
    using move_entry_preserves [OF ok(1) _ _ ok(5) dvd] p ok(3) by simp
  then show ?thesis using e' n by (simp add: move_entry_def Let_def)
qed

theorem gpt_adjust_sectors_keeps_partitions_witness:
  "\<exists>new_gpt table t e'. gpt_adjust_sectors demo_os (\<lambda>_. 0) 1 4096 64 demo_gpt False demo_state = Some (Inr (new_gpt, table), t)
     \<and> entry_at new_gpt 0 = Some e' \<and> first_byte 4096 e' = 32768"
proof -
  obtain new_gpt table t where
    run: "gpt_adjust_sectors demo_os (\<lambda>_. 0) 1 4096 64 demo_gpt False demo_state = Some (Inr (new_gpt, table), t)"
    using demo_adjust by blast
  have "first_byte (gpt_sector_size demo_gpt) demo_entry = 32768"
    by (simp add: first_byte_def demo_gpt_def demo_entry_def)
  with gpt_adjust_sectors_keeps_partitions [OF demo_repair demo_partition run] run show ?thesis by auto
qed

text \<open>
  C4: The order of a repair.  For every behaviour of the environment, also when a write fails or
  is cut short, the calls of \<open>fix_tables\<close> fall into two phases.  All writes of the first lie on
  the far side of every partition (behind it for the backup table, before it for the primary),
  so the table that was read stays as it is; the second phase starts only after the entries of
  the first table and its header, which passes every check, were completely written.  When
  \<open>fix_tables\<close> returns, the second table is complete too.
\<close>

theorem fix_tables_order:
  assumes "repair zcrc off gpt ss sectors dev"
    and "fix_tables os zcrc fd used_primary sectors ss gpt mbr verbose s = Some (r, t)"
  shows "(\<exists>tr1 tr2. trace t = trace s @ tr1 @ tr2 \<and>
      list_all (outside_partitions used_primary gpt dev) (calls tr1) \<and>
      list_all (outside_partitions (\<not> used_primary) gpt dev) (calls tr2) \<and>
      (tr2 \<noteq> [] \<longrightarrow> committed zcrc gpt fd (if used_primary then sectors - 1 else 1) sectors ss (trace s @ tr1))) \<and>
    (r = Inr () \<longrightarrow> committed zcrc gpt fd (if used_primary then 1 else sectors - 1) sectors ss (trace t))"
proof -
  have "made (outside_partitions used_primary gpt dev) (trace s) s" by (simp add: made_def)
  from hoare_outcome [OF fix_tables_phases [OF assms(1)] this assms(2)]
  show ?thesis by (cases r) (simp_all add: phases_def)
qed

theorem fix_tables_order_witness:
  "\<exists>r t tr1 tr2. fix_tables demo_os (\<lambda>_. 0) 3 True 64 4096 demo_gpt [] False demo_state = Some (r, t) \<and>
     trace t = trace demo_state @ tr1 @ tr2 \<and> list_all (outside_partitions True demo_gpt 262144) (calls tr1)"
proof -
  obtain r t where run: "fix_tables demo_os (\<lambda>_. 0) 3 True 64 4096 demo_gpt [] False demo_state = Some (r, t)"
    using ends_runs [OF ends_change] by blast
  from fix_tables_order [OF demo_repair run] run show ?thesis by auto
qed

text \<open>
  C23: A check only reads.  In check mode, whatever the device answers, the tool opens nothing for
  writing, redirects no descriptor and writes nothing to the device.
\<close>

theorem gptfix_check_only_reads:
  assumes "gptfix os zcrc MODE_CHECK skip_bpb_check verbose dev s = Some (r, t)"
  shows "\<exists>tr. trace t = trace s @ tr \<and> list_all read_only_call (calls tr)"
proof -
  have "made read_only_call (trace s) s" by (simp add: made_def)
  from hoare_run [OF check_gptfix this assms] show ?thesis by (simp add: made_def)
qed

theorem gptfix_check_only_reads_witness:
  "\<exists>r t. gptfix demo_os (\<lambda>_. 0) MODE_CHECK False False [47] demo_state = Some (r, t) \<and>
     list_all read_only_call (calls (trace t))"
proof -
  obtain r t where run: "gptfix demo_os (\<lambda>_. 0) MODE_CHECK False False [47] demo_state = Some (r, t)"
    using ends_runs [OF ends_gptfix] by blast
  from gptfix_check_only_reads [OF run] run show ?thesis by (auto simp add: demo_state_def)
qed

text \<open>
  C5: A run of the whole tool is careful.  Either it writes nothing to the device, or it runs in
  fix mode and has read a table from the device that is in order for the other sector size; then
  every write lies on the device and spares every partition of that table.
\<close>

theorem gptfix_spares_partitions:
  assumes "gptfix os zcrc m skip_bpb_check verbose dev s = Some (r, t)"
  shows "\<exists>tr. trace t = trace s @ tr \<and>
     (list_all no_pwrite (calls tr) \<or> m = MODE_FIX \<and> repaired zcrc (trace t) tr)"
proof -
  have "made no_pwrite (trace s) s" by (simp add: made_def)
  from hoare_run [OF careful_gptfix this assms] show ?thesis by (simp add: careful_def)
qed

theorem gptfix_spares_partitions_witness:
  "\<exists>r t. gptfix demo_os (\<lambda>_. 0) MODE_FIX False False [47] demo_state = Some (r, t) \<and>
     (list_all no_pwrite (calls (trace t)) \<or> repaired (\<lambda>_. 0) (trace t) (trace t))"
proof -
  obtain r t where run: "gptfix demo_os (\<lambda>_. 0) MODE_FIX False False [47] demo_state = Some (r, t)"
    using ends_runs [OF ends_gptfix] by blast
  from gptfix_spares_partitions [OF run] run show ?thesis by (auto simp add: demo_state_def)
qed

text \<open>
  The tool always ends: no device contents and no behaviour of the environment makes it loop.
\<close>

theorem gptfix_terminates: "\<exists>r t. gptfix os zcrc m skip_bpb_check verbose dev s = Some (r, t)"
  by (rule ends_runs [OF ends_gptfix])

end
