(* ===== verification/Not_Script.thy ===== *)
theory Not_Script
  imports Sys_Common
begin

text \<open>
  The block-device hotplug script, \<open>src/not-script/not-script.c\<close>.  A value read from XenStore is
  the bytes it returned; the library puts a NUL byte behind them.  A C function of the library
  that returns \<open>NULL\<close>, \<open>false\<close> or no transaction answers with a negative result; a transaction
  that was started has its number in \<open>rval\<close>.
\<close>

unbundle bit_operations_syntax

section \<open>Constants\<close>

abbreviation (input) ENXIO :: errno where "ENXIO \<equiv> 6"
abbreviation (input) EACCES :: errno where "EACCES \<equiv> 13"
abbreviation (input) EBUSY :: errno where "EBUSY \<equiv> 16"

definition DEV_MAPPER :: bytes where "DEV_MAPPER = ascii ''/dev/mapper/''"
definition LOCK_FILE :: bytes where "LOCK_FILE = ascii ''/run/lock/qubes-script.lock''"
definition OPENED_KEY :: string where "OPENED_KEY = ''opened''"

definition LOOP_MAJOR :: u64 where "LOOP_MAJOR = 7"
definition LO_FLAGS_READ_ONLY :: u32 where "LO_FLAGS_READ_ONLY = 1"
definition LO_FLAGS_AUTOCLEAR :: u32 where "LO_FLAGS_AUTOCLEAR = 4"
definition LOOP_CLR_FD :: u64 where "LOOP_CLR_FD = 0x4C01"
definition LOOP_CTL_ADD :: u64 where "LOOP_CTL_ADD = 0x4C80"
definition LOOP_CTL_GET_FREE :: u64 where "LOOP_CTL_GET_FREE = 0x4C82"
definition BLKGETDISKSEQ :: u64 where "BLKGETDISKSEQ = 0x80081280"

text \<open>\<open>makedev\<close> of \<open>sys/sysmacros.h\<close>; its arguments are truncated to 32 bits.\<close>

definition makedev :: "u32 \<Rightarrow> u32 \<Rightarrow> u64" where
  "makedev ma mi =
     push_bit 8 (ucast (ma AND 0xFFF)) OR push_bit 32 (ucast (ma AND 0xFFFFF000)) OR
     ucast (mi AND 0xFF) OR push_bit 12 (ucast (mi AND 0xFFFFFF00))"

text \<open>The path of a key below the device's directory, \<open>APPEND_TO_XENSTORE_PATH\<close>.\<close>

definition xs_key :: "bytes \<Rightarrow> string \<Rightarrow> bytes" where
  "xs_key base name = base @ [0x2F] @ ascii name"

section \<open>Loop devices\<close>

definition open_file :: "'w os \<Rightarrow> bytes \<Rightarrow> ('w sys, int) prog" where
  "open_file os path = bnd (sys os (Open path (O_RDONLY OR O_NOCTTY OR O_CLOEXEC OR O_NOFOLLOW))) (\<lambda>r. ret (rv r))"

definition loop_path :: "u32 \<Rightarrow> bytes" where
  "loop_path devnum = ascii ''/dev/loop'' @ decimal (uint devnum)"

definition open_loop_dev :: "'w os \<Rightarrow> u32 \<Rightarrow> bool \<Rightarrow> ('w sys, int) prog" where
  "open_loop_dev os devnum writable =
     (if length (loop_path devnum) \<ge> 20 then halt Abort
      else
        bnd (sys os (Open (loop_path devnum)
              ((if writable then O_RDWR else O_RDONLY) OR O_EXCL OR O_CLOEXEC OR O_NOCTTY OR O_NOFOLLOW)))
          (\<lambda>r. ret (rv r)))"

definition loop_flags :: "bool \<Rightarrow> bool \<Rightarrow> u32" where
  "loop_flags writable autoclear =
     (if autoclear then LO_FLAGS_AUTOCLEAR else 0) OR (if writable then 0 else LO_FLAGS_READ_ONLY)"

text \<open>One round of the retry loop: \<open>Inl\<close> is the next retry count, \<open>Inr\<close> the configured device.\<close>

definition loop_attempt ::
  "'w os \<Rightarrow> fd \<Rightarrow> fd \<Rightarrow> fd \<Rightarrow> bool \<Rightarrow> bool \<Rightarrow> nat \<Rightarrow> ('w sys, nat + fd) prog" where
  "loop_attempt os lock ctrl_fd fd writable autoclear retry_count =
     bnd (sys os (Device (Loop_ctl ctrl_fd (if retry_count \<noteq> 0 then LOOP_CTL_ADD else LOOP_CTL_GET_FREE)))) (\<lambda>status.
     if rv status < 0 then errx os 1 ''ioctl(LOOP_CTL_*)''
     else
       bnd (open_loop_dev os (word_of_int (rv status)) writable) (\<lambda>dev_file.
       bnd (gets errno) (\<lambda>e.
       if dev_file < 0 then
         seq (assert_c (dev_file = -1))
         (if e \<noteq> EAGAIN \<and> e \<noteq> EBUSY \<and> e \<noteq> ENXIO \<and> e \<noteq> ENOENT \<or> retry_count \<ge> 5
          then errx os 1 ''open(/dev/loop)''
          else seq (warnx os ''open(/dev/loop): retry'') (ret (Inl (retry_count + 1))))
       else
         bnd (sys os (Device (Loop_configure dev_file fd 512 (loop_flags writable autoclear)))) (\<lambda>c.
         bnd (gets errno) (\<lambda>e.
         if rv c = 0 then bnd (sys os (Close lock)) (\<lambda>_. ret (Inr dev_file))
         else if rv c = -1 then
           if e \<noteq> EBUSY \<and> e \<noteq> ENXIO \<or> retry_count \<ge> 5 then errx os 1 ''ioctl(LOOP_CONFIGURE)''
           else
             bnd (sys os (Close dev_file)) (\<lambda>k.
             if rv k \<noteq> 0 then halt Abort else ret (Inl (retry_count + 1)))
         else halt Abort)))))"

definition setup_loop :: "'w os \<Rightarrow> fd \<Rightarrow> fd \<Rightarrow> bool \<Rightarrow> bool \<Rightarrow> ('w sys, fd) prog" where
  "setup_loop os ctrl_fd fd writable autoclear =
     bnd (sys os (Device (Open_mode LOCK_FILE (O_RDWR OR O_CREAT OR O_NOFOLLOW) 0x180))) (\<lambda>lock.
     if rv lock < 0 then errx os 1 ''open(LOCK_FILE)''
     else
       bnd (sys os (Device (Flock (rv lock)))) (\<lambda>l.
       if rv l \<noteq> 0 then errx os 1 ''flock(LOCK_FILE)''
       else loop (loop_attempt os (rv lock) ctrl_fd fd writable autoclear) 0))"

section \<open>Device-mapper devices and regular files\<close>

text \<open>A path below \<open>/dev/mapper\<close> must name the device that was opened.\<close>

definition dm_name_path :: "u64 \<Rightarrow> bytes" where
  "dm_name_path dev =
     ascii ''/sys/dev/block/'' @ decimal (uint (dev_major dev)) @ ascii '':'' @ decimal (uint (dev_minor dev)) @
     ascii ''/dm/name''"

definition check_device_mapper :: "'w os \<Rightarrow> bytes \<Rightarrow> u64 \<Rightarrow> ('w sys, unit) prog" where
  "check_device_mapper os path dev =
     (let devname = drop (length DEV_MAPPER) path; n = length devname; buf = dm_name_path dev in
      if devname = ascii ''control'' \<or> devname = ascii ''.'' \<or> devname = ascii ''..'' \<or> 0x2F \<in> set devname then
        errx os 1 ''Forbidden path''
      else if length buf \<ge> 45 then errx os 1 ''snprintf''
      else
        bnd (sys os (Open buf (O_RDONLY OR O_NOCTTY OR O_NOFOLLOW))) (\<lambda>sysfs_fd.
        if rv sysfs_fd < 0 then errx os 1 ''open(dm/name)''
        else
          bnd (malloc os (n + 2)) (\<lambda>_.
          bnd (sys os (Read (rv sysfs_fd) (n + 2))) (\<lambda>r.
          if rv r < 0 then errx os 1 ''read(dm/name)''
          else if rv r \<noteq> int (n + 1) \<or> take n (rdata r) \<noteq> devname \<or> rdata r ! n \<noteq> 0x0A then
            errx os 1 ''Opened the wrong device-mapper device!''
          else
            bnd (sys os (Close (rv sysfs_fd))) (\<lambda>c. guarded (rv c \<noteq> 0) (errx os 1 ''close()''))))))"

text \<open>A regular file is bound to a loop device, which takes over its descriptor.\<close>

definition attach_loop :: "'w os \<Rightarrow> fd \<Rightarrow> bool \<Rightarrow> bool \<Rightarrow> ('w sys, stat) prog" where
  "attach_loop os fd writable autoclear =
     bnd (open_file os (ascii ''/dev/loop-control'')) (\<lambda>ctrl_fd.
     if ctrl_fd < 0 then errx os 1 ''open(/dev/loop-control)''
     else
       bnd (setup_loop os ctrl_fd fd writable autoclear) (\<lambda>loop_fd.
       if loop_fd < 0 then errx os 1 ''loop device setup failed''
       else
         bnd (sys os (Device (Dup3 loop_fd fd O_CLOEXEC))) (\<lambda>d.
         if rv d \<noteq> fd then errx os 1 ''dup3''
         else
           bnd (sys os (Close loop_fd)) (\<lambda>c.
           if rv c \<noteq> 0 then errx os 1 ''close''
           else
             bnd (sys os (Close ctrl_fd)) (\<lambda>c.
             if rv c \<noteq> 0 then errx os 1 ''close''
             else
               bnd (sys os (Fstat fd)) (\<lambda>r.
               if rv r \<noteq> 0 then errx os 1 ''fstat'' else ret (rstat r)))))))"

definition process_blk_dev :: "'w os \<Rightarrow> fd \<Rightarrow> bytes \<Rightarrow> bool \<Rightarrow> bool \<Rightarrow> ('w sys, u64 \<times> u64) prog" where
  "process_blk_dev os fd path writable autoclear =
     bnd (sys os (Fstat fd)) (\<lambda>r.
     if rv r \<noteq> 0 then errx os 1 ''fstat''
     else
       bnd (if S_ISBLK (st_mode (rstat r)) then
              seq (guarded (take (length DEV_MAPPER) path = DEV_MAPPER)
                    (check_device_mapper os path (st_rdev (rstat r))))
              (ret (rstat r))
            else if S_ISREG (st_mode (rstat r)) then attach_loop os fd writable autoclear
            else errx os 1 ''Path is neither a block device nor regular file'') (\<lambda>statbuf.
       bnd (sys os (Device (Ioctl fd BLKGETDISKSEQ))) (\<lambda>q.
       if rv q \<noteq> 0 then errx os 1 ''ioctl(BLKGETDISKSEQ)''
       else ret (st_rdev statbuf, rval q))))"

definition redirect_stderr :: "'w os \<Rightarrow> ('w sys, unit) prog" where
  "redirect_stderr os =
     bnd (sys os (Device (Open_mode (ascii ''/var/log/xen/xen-hotplug.log'')
           (O_RDWR OR O_NOCTTY OR O_CLOEXEC OR O_APPEND OR O_CREAT) 0x1A0))) (\<lambda>r.
     bnd (gets errno) (\<lambda>e.
     if rv r < 0 then
       if e = ENOENT \<or> e = EACCES then ret () else errx os 1 ''open()''
     else
       bnd (sys os (Device (Dup2 (rv r) 2))) (\<lambda>d.
       if rv d \<noteq> 2 then errx os 1 ''dup2''
       else
         bnd (sys os (Close (rv r))) (\<lambda>c. guarded (rv c \<noteq> 0) (errx os 1 ''close'')))))"

section \<open>Hexadecimal numbers\<close>

definition hex_digit :: "u8 \<Rightarrow> bool" where
  "hex_digit c \<longleftrightarrow> 0x30 \<le> c \<and> c \<le> 0x39 \<or> 0x61 \<le> c \<and> c \<le> 0x66 \<or> 0x41 \<le> c \<and> c \<le> 0x46"

definition hex_value :: "u8 \<Rightarrow> nat" where
  "hex_value c =
     (if c \<le> 0x39 then unat c - 0x30 else if c \<le> 0x46 then unat c - 0x41 + 10 else unat c - 0x61 + 10)"

text \<open>
  \<open>strtoull(p + i, endp, 16)\<close> at a hexadecimal digit that is not a zero: the number and the index
  of its end.  A number that does not fit sets \<open>errno\<close>.
\<close>

function strtoull_hex :: "bytes \<Rightarrow> nat \<Rightarrow> nat \<Rightarrow> (nat \<times> nat) option" where
  "strtoull_hex p i acc =
     Option.bind (rd p i) (\<lambda>c.
       if hex_digit c then strtoull_hex p (i + 1) (acc * 16 + hex_value c) else Some (acc, i))"
  by auto
termination
  by (relation "measure (\<lambda>(p, i, acc). length p - i)") (auto simp add: rd_Some_iff)

declare strtoull_hex.simps [simp del]

text \<open>
  The outer \<open>None\<close> is an access outside the buffer, the inner one the result \<open>false\<close>; otherwise the
  number and the index of its end.
\<close>

definition strict_strtoul_hex :: "bytes \<Rightarrow> nat \<Rightarrow> u8 \<Rightarrow> nat \<Rightarrow> (u64 \<times> nat) option option" where
  "strict_strtoul_hex p i expected limit =
     Option.bind (rd p i) (\<lambda>c.
     Option.bind
       (if c = 0x30 then Some (Some (0, i + 1))
        else if hex_digit c then
          Option.bind (strtoull_hex p i 0) (\<lambda>(out, e).
            if out > limit \<or> out \<ge> 2 ^ 64 then Some None else Some (Some (word_of_nat out, e)))
        else Some None) (\<lambda>r.
     case r of
       None \<Rightarrow> Some None
     | Some (res, e) \<Rightarrow> Option.bind (rd p e) (\<lambda>c. Some (if c = expected then Some (res, e) else None))))"

text \<open>The value of \<open>physical-device\<close>: major and minor number; and the value of \<open>diskseq\<close>.\<close>

definition parse_physdev :: "bytes \<Rightarrow> (u64 \<times> u64) option option" where
  "parse_physdev physdev =
     Option.bind (strict_strtoul_hex (physdev @ [0]) 0 0x3A 0xFFFFFFFF) (\<lambda>r.
     case r of
       None \<Rightarrow> Some None
     | Some (ma, e) \<Rightarrow>
         Option.bind (strict_strtoul_hex (physdev @ [0]) (e + 1) 0 0xFFFFFFFF) (\<lambda>r.
         case r of
           None \<Rightarrow> Some None
         | Some (mi, e) \<Rightarrow> Some (if e \<noteq> length physdev then None else Some (ma, mi))))"

definition parse_diskseq :: "bytes \<Rightarrow> u64 option option" where
  "parse_diskseq diskseq_str =
     Option.bind (strict_strtoul_hex (diskseq_str @ [0]) 0 0 0xFFFFFFFFFFFFFFFF) (\<lambda>r.
     case r of
       None \<Rightarrow> Some None
     | Some (q, e) \<Rightarrow> Some (if e \<noteq> length diskseq_str then None else Some q))"

definition physdev_string :: "u64 \<Rightarrow> bytes" where
  "physdev_string dev = hex (unat (dev_major dev)) @ [0x3A] @ hex (unat (dev_minor dev))"

section \<open>Removing a device\<close>

definition get_opened :: "'w os \<Rightarrow> bytes \<Rightarrow> u8 \<Rightarrow> ('w sys, bool) prog" where
  "get_opened os key expected =
     bnd (sys os (Xenstore (Xs_read key))) (\<lambda>r.
     bnd (gets errno) (\<lambda>e.
     if rv r \<ge> 0 then
       if length (rdata r) \<noteq> 1 \<or> rdata r ! 0 \<noteq> expected then errx os 1 ''Expected opened entry'' else ret True
     else if e \<noteq> ENOENT then errx os 1 ''Error reading Xenstore key''
     else ret False))"

definition xs_get :: "'w os \<Rightarrow> bytes \<Rightarrow> ('w sys, bytes) prog" where
  "xs_get os key =
     bnd (sys os (Xenstore (Xs_read key))) (\<lambda>r. if rv r < 0 then errx os 1 ''xs_read'' else ret (rdata r))"

definition xs_remove :: "'w os \<Rightarrow> bytes \<Rightarrow> ('w sys, unit) prog" where
  "xs_remove os key =
     bnd (sys os (Xenstore (Xs_rm key))) (\<lambda>r. guarded (rv r < 0) (errx os 1 ''xs_rm''))"

text \<open>The loop device, once it is the expected one, loses its file.\<close>

definition clear_loop :: "'w os \<Rightarrow> u64 \<Rightarrow> u64 \<Rightarrow> u64 \<Rightarrow> ('w sys, unit) prog" where
  "clear_loop os ma mi expected_diskseq =
     bnd (open_file os (ascii ''/dev/loop-control'')) (\<lambda>loop_control_fd.
     if loop_control_fd < 0 then errx os 1 ''open(/dev/loop-control)''
     else
       bnd (open_loop_dev os (ucast mi) False) (\<lambda>loop_fd.
       if loop_fd < 0 then errx os 1 ''open(/dev/loop)''
       else
         bnd (sys os (Fstat loop_fd)) (\<lambda>r.
         if rv r \<noteq> 0 then errx os 1 ''fstat''
         else if st_rdev (rstat r) \<noteq> makedev (ucast ma) (ucast mi) then errx os 1 ''Opened wrong loop device''
         else
           bnd (sys os (Device (Ioctl loop_fd BLKGETDISKSEQ))) (\<lambda>q.
           if rv q \<noteq> 0 then errx os 1 ''ioctl(BLKGETDISKSEQ)''
           else if expected_diskseq \<noteq> rval q then errx os 1 ''Loop device diskseq mismatch!''
           else
             bnd (sys os (Device (Ioctl loop_fd LOOP_CLR_FD))) (\<lambda>c.
             bnd (gets errno) (\<lambda>e.
             if rv c \<noteq> 0 \<and> e \<noteq> EBUSY then errx os 1 ''ioctl(LOOP_CLR_FD)''
             else
               bnd (sys os (Close loop_fd)) (\<lambda>c.
               if rv c \<noteq> 0 then errx os 1 ''close''
               else
                 bnd (sys os (Close loop_control_fd)) (\<lambda>c.
                 guarded (rv c \<noteq> 0) (errx os 1 ''close(/dev/loop-control)'')))))))))"

definition remove_device :: "'w os \<Rightarrow> bytes \<Rightarrow> ('w sys, unit) prog" where
  "remove_device os base =
     bnd (xs_get os (xs_key base ''physical-device'')) (\<lambda>physdev.
     seq (xs_remove os (xs_key base ''physical-device''))
     (bnd (checked (parse_physdev physdev)) (\<lambda>d. case d of
       None \<Rightarrow> errx os 1 ''Bad physical device value''
     | Some (ma, mi) \<Rightarrow>
         bnd (xs_get os (xs_key base ''diskseq'')) (\<lambda>diskseq_str.
         seq (xs_remove os (xs_key base ''diskseq''))
         (bnd (checked (parse_diskseq diskseq_str)) (\<lambda>q. case q of
           None \<Rightarrow> errx os 1 ''Bad diskseq''
         | Some expected_diskseq \<Rightarrow>
             seq (modify (\<lambda>s. s\<lparr>errno := 0\<rparr>))
             (if ma \<noteq> LOOP_MAJOR then ret ()
              else
                bnd (xs_get os (xs_key base ''physical-device-path'')) (\<lambda>physical_device_path.
                bnd (xs_get os (xs_key base ''params'')) (\<lambda>params.
                if params = physical_device_path then ret ()
                else clear_loop os ma mi expected_diskseq)))))))))"

section \<open>Adding a device\<close>

definition read_mode :: "'w os \<Rightarrow> bytes \<Rightarrow> ('w sys, bool) prog" where
  "read_mode os base =
     bnd (sys os (Xenstore (Xs_read (xs_key base ''mode'')))) (\<lambda>r.
     bnd (gets errno) (\<lambda>e.
     if rv r < 0 then
       if e \<noteq> ENOENT then errx os 1 ''xs_read(mode)'' else ret False
     else
       let c = (rdata r @ [0]) ! 0; len = (if c = 0x72 \<or> c = 0x77 then length (rdata r) else 0) in
       if len \<noteq> 1 then errx os 1 ''Bad data in XenStore key: expected r or w'' else ret (c = 0x77)))"

definition xs_put :: "'w os \<Rightarrow> u64 \<Rightarrow> bytes \<Rightarrow> bytes \<Rightarrow> ('w sys, unit) prog" where
  "xs_put os t key value =
     bnd (sys os (Xenstore (Xs_write t key value))) (\<lambda>r. guarded (rv r < 0) (errx os 1 ''xs_write''))"

text \<open>The three keys in one transaction, again while it ends with \<open>EAGAIN\<close>.\<close>

definition publish :: "'w os \<Rightarrow> bytes \<Rightarrow> bytes \<Rightarrow> bytes \<Rightarrow> bytes \<Rightarrow> ('w sys, unit) prog" where
  "publish os base phys_dev physdev_path hex_diskseq =
     loop (\<lambda>_ :: unit.
       bnd (sys os (Xenstore Xs_transaction_start)) (\<lambda>r.
       let t = rval r in
       if t = 0 then errx os 1 ''Cannot start XenStore transaction''
       else
         seq (xs_put os t (xs_key base ''physical-device'') phys_dev)
         (seq (xs_put os t (xs_key base ''physical-device-path'') physdev_path)
         (if length hex_diskseq < 1 \<or> length hex_diskseq > 16 then errx os 1 ''snprintf''
          else
            seq (xs_put os t (xs_key base ''diskseq'') hex_diskseq)
            (bnd (sys os (Xenstore (Xs_transaction_end t))) (\<lambda>r.
             bnd (gets errno) (\<lambda>e.
             if rv r \<ge> 0 then ret (Inr ())
             else if e \<noteq> EAGAIN then errx os 1 ''xs_transaction_end''
             else ret (Inl ())))))))) ()"

text \<open>Waiting until the key \<open>opened\<close> is 1.\<close>

definition wait_opened :: "'w os \<Rightarrow> bytes \<Rightarrow> ('w sys, unit) prog" where
  "wait_opened os base =
     loop (\<lambda>_ :: unit.
       bnd (sys os (Xenstore Xs_read_watch)) (\<lambda>r.
       if rv r < 0 then errx os 1 ''xs_read_watch''
       else
         seq (warnx os ''Xenstore watch triggered'')
         (bnd (xs_get os (xs_key base OPENED_KEY)) (\<lambda>value.
          if length value \<noteq> 1 \<or> value ! 0 \<noteq> 0x31 \<and> value ! 0 \<noteq> 0x30 then errx os 1 ''bad value in Xenstore entry''
          else if value ! 0 = 0x31 then ret (Inr ())
          else ret (Inl ()))))) ()"

definition add_device :: "'w os \<Rightarrow> bytes \<Rightarrow> ('w sys, unit) prog" where
  "add_device os base =
     bnd (sys os (Xenstore (Getenv ''QUBES_EXPERIMENTAL_XENSTORE_UAPI''))) (\<lambda>u.
     bnd (if rv u \<ge> 0 then get_opened os (xs_key base OPENED_KEY) 0x30 else ret False) (\<lambda>autoclear.
     bnd (xs_get os (xs_key base ''params'')) (\<lambda>data.
     if 0 \<in> set data then errx os 1 ''NUL in parameters''
     else if (data @ [0]) ! 0 \<noteq> 0x2F then errx os 1 ''Parameters not an absolute path''
     else
       bnd (read_mode os base) (\<lambda>writable.
       bnd (sys os (Open data ((if writable then O_RDWR else O_RDONLY) OR O_NOCTTY OR O_CLOEXEC OR O_NONBLOCK))) (\<lambda>f.
       if rv f < 0 then errx os 1 ''open''
       else
         bnd (process_blk_dev os (rv f) data writable autoclear) (\<lambda>(dev, diskseq).
         let phys_dev = physdev_string dev; hex_diskseq = hex (unat diskseq) in
         if length phys_dev < 3 \<or> length phys_dev \<ge> 18 then errx os 1 ''snprintf''
         else if length hex_diskseq < 1 \<or> length hex_diskseq \<ge> 17 then errx os 1 ''snprintf''
         else
           seq (guarded autoclear
             (bnd (sys os (Xenstore (Xs_watch (xs_key base OPENED_KEY) (ascii OPENED_KEY)))) (\<lambda>r.
              guarded (rv r < 0) (errx os 1 ''Cannot setup XenStore watch''))))
           (let is_loop = ucast (dev_major dev) = LOOP_MAJOR;
                physdev_path = (if is_loop then loop_path (dev_minor dev) else data) in
            if is_loop \<and> length physdev_path \<ge> 20 then halt Abort
            else
              seq (publish os base phys_dev physdev_path hex_diskseq)
              (seq (guarded autoclear (wait_opened os base))
              (bnd (sys os (Xenstore Xs_close)) (\<lambda>_. ret ()))))))))))"

text \<open>\<open>main\<close>; the result is the exit status.\<close>

definition not_script :: "'w os \<Rightarrow> bytes list \<Rightarrow> ('w sys, int) prog" where
  "not_script os argv =
     seq (redirect_stderr os)
     (bnd (sys os (Xenstore (Getenv ''XENBUS_PATH''))) (\<lambda>p.
      if length argv \<noteq> 2 then errx os 1 ''Usage: [add|remove]''
      else if rv p < 0 then errx os 1 ''XENBUS_PATH not set''
      else if argv ! 1 \<noteq> ascii ''add'' \<and> argv ! 1 \<noteq> ascii ''remove'' then
        errx os 1 ''Bad command (expected add or remove)''
      else
        let base = c_str (rdata p @ [0]) in
        bnd (sys os (Xenstore Xs_open)) (\<lambda>h.
        if rv h < 0 then errx os 1 ''Cannot connect to XenStore''
        else
          bnd (malloc os (length base + 22)) (\<lambda>_.
          if argv ! 1 = ascii ''remove'' then seq (remove_device os base) (ret 0)
          else seq (add_device os base) (ret 0)))))"

end
