(* ===== verification/Not_Script_Safety.thy ===== *)
theory Not_Script_Safety
  imports Not_Script_Props
begin

text \<open>
  What the calls of the hotplug script that change something rest on: which answers it has seen
  when it clears a loop device, removes or writes a key, configures a loop device, or opens a
  file for writing.
\<close>

unbundle bit_operations_syntax

section \<open>What a call needs\<close>

text \<open>A key was read, with this value.\<close>

definition key_read :: "(syscall \<times> response) set \<Rightarrow> bytes \<Rightarrow> bytes \<Rightarrow> bool" where
  "key_read A key value \<longleftrightarrow> (\<exists>r. (Xenstore (Xs_read key), r) \<in> A \<and> 0 \<le> rv r \<and> rdata r = value)"

definition key_removed :: "(syscall \<times> response) set \<Rightarrow> bytes \<Rightarrow> bool" where
  "key_removed A key \<longleftrightarrow> (\<exists>r. (Xenstore (Xs_rm key), r) \<in> A \<and> 0 \<le> rv r)"

text \<open>An open descriptor is this device, with this sequence number.\<close>

definition is_device :: "(syscall \<times> response) set \<Rightarrow> fd \<Rightarrow> u64 \<Rightarrow> u64 \<Rightarrow> bool" where
  "is_device A fd dev q \<longleftrightarrow>
     (\<exists>r r'. (Fstat fd, r) \<in> A \<and> rv r = 0 \<and> st_rdev (rstat r) = dev \<and>
        (Device (Ioctl fd BLKGETDISKSEQ), r') \<in> A \<and> rv r' = 0 \<and> rval r' = q)"

text \<open>
  The values of the keys name a loop device that is not the one the configuration asked for, and
  both keys that announce it are gone.
\<close>

definition announced :: "(syscall \<times> response) set \<Rightarrow> bytes \<Rightarrow> u64 \<Rightarrow> u64 \<Rightarrow> bool" where
  "announced A base mi q \<longleftrightarrow>
     (\<exists>physdev seqstr path params.
        key_read A (xs_key base ''physical-device'') physdev \<and> parse_physdev physdev = Some (Some (LOOP_MAJOR, mi)) \<and>
        key_read A (xs_key base ''diskseq'') seqstr \<and> parse_diskseq seqstr = Some (Some q) \<and>
        key_removed A (xs_key base ''physical-device'') \<and> key_removed A (xs_key base ''diskseq'') \<and>
        key_read A (xs_key base ''physical-device-path'') path \<and> key_read A (xs_key base ''params'') params \<and>
        params \<noteq> path)"

text \<open>An open descriptor of the device node with this number; and one that is the announced device.\<close>

definition loop_opened :: "(syscall \<times> response) set \<Rightarrow> u64 \<Rightarrow> fd \<Rightarrow> bool" where
  "loop_opened A mi fd \<longleftrightarrow> (\<exists>flags r. (Open (loop_path (ucast mi)) flags, r) \<in> A \<and> 0 \<le> rv r \<and> rv r = fd)"

definition loop_identified :: "(syscall \<times> response) set \<Rightarrow> bytes \<Rightarrow> fd \<Rightarrow> bool" where
  "loop_identified A base fd \<longleftrightarrow>
     (\<exists>mi q. announced A base mi q \<and> loop_opened A mi fd \<and> is_device A fd (makedev (ucast LOOP_MAJOR) (ucast mi)) q)"

text \<open>What \<open>remove\<close> may call.\<close>

definition remove_ok :: "bytes \<Rightarrow> (syscall \<times> response) set \<Rightarrow> syscall \<Rightarrow> bool" where
  "remove_ok base A c = (case c of
     Xenstore (Xs_read key) \<Rightarrow>
       key = xs_key base ''physical-device'' \<or>
       key = xs_key base ''diskseq'' \<and> key_removed A (xs_key base ''physical-device'') \<or>
       (key = xs_key base ''physical-device-path'' \<or> key = xs_key base ''params'') \<and>
         key_removed A (xs_key base ''physical-device'') \<and> key_removed A (xs_key base ''diskseq'')
   | Xenstore (Xs_rm key) \<Rightarrow>
       key = xs_key base ''physical-device'' \<and> (\<exists>v. key_read A key v) \<or>
       key = xs_key base ''diskseq'' \<and> key_removed A (xs_key base ''physical-device'') \<and> (\<exists>v. key_read A key v)
   | Open path flags \<Rightarrow>
       flags AND (O_WRONLY OR O_RDWR) = 0 \<and> flags AND O_NOFOLLOW \<noteq> 0 \<and>
       (\<exists>mi q. announced A base mi q \<and> (path = ascii ''/dev/loop-control'' \<or> path = loop_path (ucast mi)))
   | Fstat fd \<Rightarrow> \<exists>mi q. announced A base mi q \<and> loop_opened A mi fd
   | Device (Ioctl fd k) \<Rightarrow>
       k = BLKGETDISKSEQ \<and> (\<exists>mi q. announced A base mi q \<and> loop_opened A mi fd) \<or> k = LOOP_CLR_FD \<and> loop_identified A base fd
   | Close fd \<Rightarrow> \<exists>path flags r. (Open path flags, r) \<in> A \<and> rv r = fd
   | Stderr msg \<Rightarrow> True
   | _ \<Rightarrow> False)"

text \<open>
  What \<open>remove\<close> has done when it returns: both keys are gone; and the device is no loop device,
  or the one the configuration named, or its file was taken off, or it is busy.
\<close>

definition removed :: "bytes \<Rightarrow> (syscall \<times> response) set \<Rightarrow> bool" where
  "removed base A \<longleftrightarrow>
     key_removed A (xs_key base ''physical-device'') \<and> key_removed A (xs_key base ''diskseq'') \<and>
     (\<exists>physdev ma mi seqstr q.
        key_read A (xs_key base ''physical-device'') physdev \<and> parse_physdev physdev = Some (Some (ma, mi)) \<and>
        key_read A (xs_key base ''diskseq'') seqstr \<and> parse_diskseq seqstr = Some (Some q) \<and>
        (ma \<noteq> LOOP_MAJOR \<or>
         (\<exists>path. key_read A (xs_key base ''physical-device-path'') path \<and> key_read A (xs_key base ''params'') path) \<or>
         (\<exists>fd r. loop_identified A base fd \<and> (Device (Ioctl fd LOOP_CLR_FD), r) \<in> A \<and> (rv r = 0 \<or> re r = EBUSY))))"

lemma key_readI: "(Xenstore (Xs_read key), r) \<in> A \<Longrightarrow> \<not> rv r < 0 \<Longrightarrow> key_read A key (rdata r)"
  by (auto simp add: key_read_def)

lemma facts_mono:
  "key_read A key v \<Longrightarrow> A \<subseteq> B \<Longrightarrow> key_read B key v"
  "key_removed A key \<Longrightarrow> A \<subseteq> B \<Longrightarrow> key_removed B key"
  "is_device A fd d q \<Longrightarrow> A \<subseteq> B \<Longrightarrow> is_device B fd d q"
  by (auto simp add: key_read_def key_removed_def is_device_def)

lemma rests_xs_get_bnd:
  assumes "\<And>A msg. ok A (Stderr msg)" and "\<And>A. evs \<subseteq> A \<Longrightarrow> ok A (Xenstore (Xs_read key))"
    and "\<And>r. 0 \<le> rv r \<Longrightarrow> rests ok tr (insert (Xenstore (Xs_read key), r) evs) (f (rdata r)) Q"
  shows "rests ok tr evs (bnd (xs_get os key) f) Q"
proof -
  have "bnd (xs_get os key) f = bnd (sys os (Xenstore (Xs_read key))) (\<lambda>r. if rv r < 0 then errx os 1 ''xs_read'' else f (rdata r))"
    by (simp add: xs_get_def bnd_assoc bnd_if bnd_errx bnd_ret cong: if_cong)
  then show ?thesis using assms by (auto intro!: rests_intros)
qed

lemma rests_xs_remove_seq:
  assumes "\<And>A msg. ok A (Stderr msg)" and "\<And>A. evs \<subseteq> A \<Longrightarrow> ok A (Xenstore (Xs_rm key))"
    and "\<And>r. 0 \<le> rv r \<Longrightarrow> rests ok tr (insert (Xenstore (Xs_rm key), r) evs) n Q"
  shows "rests ok tr evs (seq (xs_remove os key) n) Q"
proof -
  have "seq (xs_remove os key) n = bnd (sys os (Xenstore (Xs_rm key))) (\<lambda>r. seq (guarded (rv r < 0) (errx os 1 ''xs_rm'')) n)"
    by (simp add: xs_remove_def seq_def bnd_assoc)
  then show ?thesis using assms by (auto intro!: rests_intros)
qed

lemma announced_mono: "announced A base mi q \<Longrightarrow> A \<subseteq> B \<Longrightarrow> announced B base mi q"
  unfolding announced_def by (meson facts_mono)

lemma loop_identified_mono: "loop_identified A base fd \<Longrightarrow> A \<subseteq> B \<Longrightarrow> loop_identified B base fd"
proof -
  assume I: "loop_identified A base fd" and AB: "A \<subseteq> B"
  show "loop_identified B base fd"
    using I announced_mono [OF _ AB] facts_mono(3) [OF _ AB] AB unfolding loop_identified_def loop_opened_def by blast
qed

lemma remove_ok_simps [simp]: "remove_ok base A (Stderr msg)"
  by (simp add: remove_ok_def)

lemma remove_ok_open:
  assumes "announced A base mi q"
  shows "remove_ok base A (Open (ascii ''/dev/loop-control'') (O_RDONLY OR O_NOCTTY OR O_CLOEXEC OR O_NOFOLLOW))"
    "remove_ok base A (Open (loop_path (ucast mi)) (O_RDONLY OR O_EXCL OR O_CLOEXEC OR O_NOCTTY OR O_NOFOLLOW))"
  unfolding remove_ok_def using assms
  by (auto simp add: O_RDONLY_def O_NOCTTY_def O_CLOEXEC_def O_NOFOLLOW_def O_EXCL_def O_WRONLY_def O_RDWR_def)

lemma remove_ok_device:
  assumes "announced A base mi q" and "loop_opened A mi fd"
  shows "remove_ok base A (Fstat fd)" "remove_ok base A (Device (Ioctl fd BLKGETDISKSEQ))"
    "is_device A fd (makedev (ucast LOOP_MAJOR) (ucast mi)) q \<Longrightarrow> loop_identified A base fd"
  using assms by (auto simp add: remove_ok_def loop_identified_def)

lemma remove_ok_clear: "loop_identified A base fd \<Longrightarrow> remove_ok base A (Device (Ioctl fd LOOP_CLR_FD))"
  by (simp add: remove_ok_def)

lemma remove_ok_close: "(Open path flags, r) \<in> A \<Longrightarrow> remove_ok base A (Close (rv r))"
  by (auto simp add: remove_ok_def)

lemma loop_openedI: "(Open (loop_path (ucast mi)) flags, r) \<in> A \<Longrightarrow> \<not> rv r < 0 \<Longrightarrow> loop_opened A mi (rv r)"
  by (auto simp add: loop_opened_def not_less)

lemma remove_is_deviceI:
  "(Fstat fd, r) \<in> A \<Longrightarrow> \<not> rv r \<noteq> 0 \<Longrightarrow> \<not> st_rdev (rstat r) \<noteq> dev \<Longrightarrow>
   (Device (Ioctl fd BLKGETDISKSEQ), r') \<in> A \<Longrightarrow> \<not> rv r' \<noteq> 0 \<Longrightarrow> \<not> q \<noteq> rval r' \<Longrightarrow> is_device A fd dev q"
  unfolding is_device_def by auto

lemma rests_clear_loop:
  assumes ann: "announced evs base mi q"
  shows "rests (remove_ok base) tr evs (clear_loop os LOOP_MAJOR mi q)
     (\<lambda>_ E. \<exists>fd r. loop_identified E base fd \<and> (Device (Ioctl fd LOOP_CLR_FD), r) \<in> E \<and> (rv r = 0 \<or> re r = EBUSY))"
  unfolding clear_loop_def open_file_def open_loop_dev_def
  apply (simp only: if_False bnd_assoc bnd_if bnd_ret bnd_halt cong: if_cong)
  apply (intro rests_cases rests_halt rests_errx rests_sys_errno_bnd rests_sys_bnd rests_guard remove_ok_simps)
  subgoal by (rule remove_ok_open [OF announced_mono [OF ann]])
  subgoal by (rule remove_ok_open [OF announced_mono [OF ann]], simp)
  subgoal by (rule remove_ok_device(1) [OF announced_mono [OF ann] loop_openedI]) blast+
  subgoal by (rule remove_ok_device(2) [OF announced_mono [OF ann] loop_openedI]) blast+
  subgoal by (rule remove_ok_clear, rule remove_ok_device(3) [OF announced_mono [OF ann] loop_openedI remove_is_deviceI]) blast+
  subgoal by (rule remove_ok_close) blast
  subgoal by (rule remove_ok_close) blast
  subgoal for r ra rb rc c rd re
    by (rule exI [of _ "rv ra"], rule exI [of _ c], intro conjI,
        rule remove_ok_device(3) [OF announced_mono [OF ann] loop_openedI remove_is_deviceI]) blast+
  done

lemma key_factsI:
  "(Xenstore (Xs_read key), r) \<in> A \<Longrightarrow> 0 \<le> rv r \<Longrightarrow> key_read A key (rdata r)"
  "(Xenstore (Xs_rm key), r) \<in> A \<Longrightarrow> 0 \<le> rv r \<Longrightarrow> key_removed A key"
  by (auto simp add: key_read_def key_removed_def)

lemma remove_ok_keys:
  "key_read A (xs_key base ''physical-device'') v \<Longrightarrow> remove_ok base A (Xenstore (Xs_rm (xs_key base ''physical-device'')))"
  "key_read A (xs_key base ''diskseq'') v \<Longrightarrow> key_removed A (xs_key base ''physical-device'') \<Longrightarrow>
   remove_ok base A (Xenstore (Xs_rm (xs_key base ''diskseq'')))"
  "remove_ok base A (Xenstore (Xs_read (xs_key base ''physical-device'')))"
  "key_removed A (xs_key base ''physical-device'') \<Longrightarrow> remove_ok base A (Xenstore (Xs_read (xs_key base ''diskseq'')))"
  "key_removed A (xs_key base ''physical-device'') \<Longrightarrow> key_removed A (xs_key base ''diskseq'') \<Longrightarrow>
   remove_ok base A (Xenstore (Xs_read (xs_key base ''physical-device-path'')))"
  "key_removed A (xs_key base ''physical-device'') \<Longrightarrow> key_removed A (xs_key base ''diskseq'') \<Longrightarrow>
   remove_ok base A (Xenstore (Xs_read (xs_key base ''params'')))"
  unfolding remove_ok_def by auto

text \<open>Both keys were read, make sense, and are gone.\<close>

definition withdrawn :: "(syscall \<times> response) set \<Rightarrow> bytes \<Rightarrow> u64 \<Rightarrow> u64 \<Rightarrow> u64 \<Rightarrow> bool" where
  "withdrawn A base ma mi q \<longleftrightarrow>
     key_removed A (xs_key base ''physical-device'') \<and> key_removed A (xs_key base ''diskseq'') \<and>
     (\<exists>physdev seqstr. key_read A (xs_key base ''physical-device'') physdev \<and> parse_physdev physdev = Some (Some (ma, mi)) \<and>
        key_read A (xs_key base ''diskseq'') seqstr \<and> parse_diskseq seqstr = Some (Some q))"

lemma withdrawn_mono: "withdrawn A base ma mi q \<Longrightarrow> A \<subseteq> B \<Longrightarrow> withdrawn B base ma mi q"
  unfolding withdrawn_def by (meson facts_mono)

lemma removedI:
  "withdrawn A base ma mi q \<Longrightarrow> ma \<noteq> LOOP_MAJOR \<Longrightarrow> removed base A"
  "withdrawn A base ma mi q \<Longrightarrow> key_read A (xs_key base ''physical-device-path'') path \<Longrightarrow>
   key_read A (xs_key base ''params'') path \<Longrightarrow> removed base A"
  "withdrawn A base ma mi q \<Longrightarrow> loop_identified A base fd \<Longrightarrow> (Device (Ioctl fd LOOP_CLR_FD), r) \<in> A \<Longrightarrow>
   rv r = 0 \<or> re r = EBUSY \<Longrightarrow> removed base A"
  unfolding removed_def withdrawn_def by blast+

lemma removed_mono: "removed base A \<Longrightarrow> A \<subseteq> B \<Longrightarrow> removed base B"
proof -
  assume R: "removed base A" and AB: "A \<subseteq> B"
  show "removed base B"
    using R facts_mono(1) [OF _ AB] facts_mono(2) [OF _ AB] loop_identified_mono [OF _ AB] AB unfolding removed_def by blast
qed

lemma announcedI:
  "withdrawn A base LOOP_MAJOR mi q \<Longrightarrow> key_read A (xs_key base ''physical-device-path'') path \<Longrightarrow>
   key_read A (xs_key base ''params'') params \<Longrightarrow> params \<noteq> path \<Longrightarrow> announced A base mi q"
  unfolding announced_def withdrawn_def by blast

lemma rests_remove_loop:
  assumes w: "withdrawn evs base ma mi q"
  shows "rests (remove_ok base) tr evs
     (if ma \<noteq> LOOP_MAJOR then ret ()
      else
        bnd (xs_get os (xs_key base ''physical-device-path'')) (\<lambda>physical_device_path.
        bnd (xs_get os (xs_key base ''params'')) (\<lambda>params.
        if params = physical_device_path then ret ()
        else clear_loop os ma mi q))) (\<lambda>_. removed base)"
proof (intro rests_cases rests_xs_get_bnd rests_ret remove_ok_simps)
  have gone: "key_removed A (xs_key base ''physical-device'')" "key_removed A (xs_key base ''diskseq'')" if "evs \<subseteq> A" for A
    using withdrawn_mono [OF w that] by (simp_all add: withdrawn_def)
  show "remove_ok base A (Xenstore (Xs_read (xs_key base ''physical-device-path'')))" if "evs \<subseteq> A" for A
    by (intro remove_ok_keys gone that)
  fix r :: response assume r: "0 \<le> rv r" and ma: "\<not> ma \<noteq> LOOP_MAJOR"
  let ?evs = "insert (Xenstore (Xs_read (xs_key base ''physical-device-path'')), r) evs"
  show "remove_ok base A (Xenstore (Xs_read (xs_key base ''params'')))" if "?evs \<subseteq> A" for A
    using that by (intro remove_ok_keys gone) simp_all
  fix r' :: response assume r': "0 \<le> rv r'"
  let ?E = "insert (Xenstore (Xs_read (xs_key base ''params'')), r') ?evs"
  have E: "withdrawn ?E base ma mi q" by (rule withdrawn_mono [OF w]) blast
  have k: "key_read ?E (xs_key base ''physical-device-path'') (rdata r)" "key_read ?E (xs_key base ''params'') (rdata r')"
    using r r' by (auto intro: key_factsI)
  show "removed base ?E" if "rdata r' = rdata r" by (rule removedI(2) [OF E k(1)]) (use k(2) that in simp)
  assume ne: "rdata r' \<noteq> rdata r"
  have "announced ?E base mi q" using announcedI [OF _ k ne] E ma by simp
  note clear = rests_clear_loop [OF this, of tr os]
  have "rests (remove_ok base) tr ?E (clear_loop os LOOP_MAJOR mi q) (\<lambda>_. removed base)"
  proof (rule rests_post [OF clear])
    fix x F
    assume F: "?E \<subseteq> F" "\<exists>fd r. loop_identified F base fd \<and> (Device (Ioctl fd LOOP_CLR_FD), r) \<in> F \<and> (rv r = 0 \<or> re r = EBUSY)"
    from withdrawn_mono [OF E F(1)] F(2) show "removed base F" by (elim exE conjE) (rule removedI(3))
  qed
  with ma show "rests (remove_ok base) tr ?E (clear_loop os ma mi q) (\<lambda>_. removed base)" by simp
qed (use removedI(1) [OF w] in auto)

lemma rests_remove_device: "rests (remove_ok base) tr {} (remove_device os base) (\<lambda>_. removed base)"
  unfolding remove_device_def
proof (intro rests_remove_loop rests_cases rests_errx rests_plain_bnd rests_checked_bnd rests_xs_get_bnd rests_xs_remove_seq remove_ok_simps)
  let ?d = "xs_key base ''physical-device''" and ?q = "xs_key base ''diskseq''"
  show "remove_ok base A (Xenstore (Xs_read ?d))" for A by (rule remove_ok_keys)
  fix r :: response assume r: "0 \<le> rv r"
  show "remove_ok base A (Xenstore (Xs_rm ?d))" if "{(Xenstore (Xs_read ?d), r)} \<subseteq> A" for A
    using r that by (intro remove_ok_keys(1) [OF key_factsI(1)]) auto
  fix r1 :: response assume r1: "0 \<le> rv r1"
  show "remove_ok base A (Xenstore (Xs_read ?q))" if "{(Xenstore (Xs_rm ?d), r1), (Xenstore (Xs_read ?d), r)} \<subseteq> A" for A
    using r1 that by (intro remove_ok_keys(4) [OF key_factsI(2)]) auto
  fix r2 :: response assume r2: "0 \<le> rv r2"
  show "remove_ok base A (Xenstore (Xs_rm ?q))"
    if "{(Xenstore (Xs_read ?q), r2), (Xenstore (Xs_rm ?d), r1), (Xenstore (Xs_read ?d), r)} \<subseteq> A" for A
    using r1 r2 that by (intro remove_ok_keys(2) [OF key_factsI(1) [of _ r2] key_factsI(2) [of _ r1]]) auto
  fix r3 :: response and v y ma mi v' q
  assume r3: "0 \<le> rv r3" and v: "parse_physdev (rdata r) = Some v" "v = Some y" "y = (ma, mi)"
    "parse_diskseq (rdata r2) = Some v'" "v' = Some q"
  let ?E = "{(Xenstore (Xs_rm ?q), r3), (Xenstore (Xs_read ?q), r2), (Xenstore (Xs_rm ?d), r1), (Xenstore (Xs_read ?d), r)}"
  have "key_removed ?E ?d" "key_removed ?E ?q" using r1 r3 by (auto intro: key_factsI)
  moreover have "key_read ?E ?d (rdata r)" "key_read ?E ?q (rdata r2)" using r r2 by (auto intro: key_factsI)
  ultimately show "withdrawn ?E base ma mi q" using v by (auto simp add: withdrawn_def)
qed

text \<open>The program ends, and only by returning or with status 1.\<close>

lemma parse_total: "\<exists>v. parse_physdev s = Some v" "\<exists>v. parse_diskseq s = Some v"
  using parse_physdev_exact [of s] parse_diskseq_exact [of s] by blast+

lemma short_loop_path: "length (loop_path n) < 20"
proof -
  have "unat n < 2 ^ LENGTH(32)" by (rule unsigned_less)
  then have "length (digits (unat n)) \<le> 10" by (intro length_digits) simp_all
  then show ?thesis by (simp add: loop_path_def decimal_def ascii_def)
qed

definition exits_one :: "('w sys, 'a) prog \<Rightarrow> bool" where
  "exits_one m \<longleftrightarrow> hoare (\<lambda>e _. e = Exit 1) (\<lambda>_. True) m (\<lambda>_ _. True)"

lemma exits_one_basic:
  "exits_one (ret x)" "exits_one (gets f)" "exits_one (modify g)" "exits_one (sys os c)" "exits_one (errx os 1 w)"
  "m = Some v \<Longrightarrow> exits_one (checked m)"
  by (simp_all add: exits_one_def hoare_def wp_simps errx_def checked_def)

lemma exits_one_bnd: "exits_one m \<Longrightarrow> (\<And>x. exits_one (f x)) \<Longrightarrow> exits_one (bnd m f)"
  unfolding exits_one_def by (rule hoare_bnd)

lemma exits_one_cases:
  "(b \<Longrightarrow> exits_one m) \<Longrightarrow> (\<not> b \<Longrightarrow> exits_one n) \<Longrightarrow> exits_one (if b then m else n)"
  "exits_one m \<Longrightarrow> (\<And>y. exits_one (f y)) \<Longrightarrow> exits_one (case x of None \<Rightarrow> m | Some y \<Rightarrow> f y)"
  "(\<And>y z. exits_one (g y z)) \<Longrightarrow> exits_one (case v of (y, z) \<Rightarrow> g y z)"
  by (auto split: option.split prod.split)

lemma exits_one_guarded: "exits_one m \<Longrightarrow> exits_one (guarded b m)"
  by (simp add: guarded_def exits_one_basic(1))

lemma exits_one_seq: "exits_one m \<Longrightarrow> exits_one n \<Longrightarrow> exits_one (seq m n)"
  unfolding seq_def by (rule exits_one_bnd)

lemma exits_one_parse: "exits_one (checked (parse_physdev s))" "exits_one (checked (parse_diskseq s))"
  using parse_total [of s] by (auto intro: exits_one_basic(6))

lemmas exits_one_intros = exits_one_basic(1-5) exits_one_bnd exits_one_cases exits_one_guarded exits_one_seq exits_one_parse

lemma exits_one_remove_device: "exits_one (remove_device os base)"
proof -
  have "exits_one (open_loop_dev os n w)" for n w
    using short_loop_path [of n] unfolding open_loop_dev_def by (auto intro!: exits_one_intros)
  then show ?thesis
    unfolding remove_device_def clear_loop_def xs_get_def xs_remove_def open_file_def by (intro exits_one_intros)
qed

section \<open>Adding\<close>
















lemma rests_setup_loop:
  assumes ok: "\<And>A msg. ok A (Stderr msg)" "\<And>A flags mode. ok A (Device (Open_mode LOCK_FILE flags mode))"
      "\<And>A fd. ok A (Device (Flock fd))" "\<And>A k. ok A (Device (Loop_ctl ctrl_fd k))" "\<And>A fd. ok A (Close fd)"
    and op: "\<And>A path. evs \<subseteq> A \<Longrightarrow>
      ok A (Open path ((if w then O_RDWR else O_RDONLY) OR O_EXCL OR O_CLOEXEC OR O_NOCTTY OR O_NOFOLLOW))"
    and conf: "\<And>A d. evs \<subseteq> A \<Longrightarrow> ok A (Device (Loop_configure d fd 512 (loop_flags w a)))"
  shows "rests ok tr evs (setup_loop os ctrl_fd fd w a)
    (\<lambda>d E. \<exists>r. (Device (Loop_configure d fd 512 (loop_flags w a)), r) \<in> E \<and> rv r = 0)"
  unfolding setup_loop_def
proof (intro rests_intros rests_loop [where I = "\<lambda>_ _. True"])
  fix lock l x E
  assume "insert (Device (Flock (rv lock)), l) (insert (Device (Open_mode LOCK_FILE (O_RDWR OR O_CREAT OR O_NOFOLLOW) 0x180), lock) evs) \<subseteq> E"
  then have evs: "evs \<subseteq> E" by simp
  show "rests ok tr E (loop_attempt os (rv lock) ctrl_fd fd w a x)
     (\<lambda>r E'. case r of Inl y \<Rightarrow> True | Inr d \<Rightarrow> \<exists>r. (Device (Loop_configure d fd 512 (loop_flags w a)), r) \<in> E' \<and> rv r = 0)"
    unfolding loop_attempt_def open_loop_dev_def
    apply (simp only: bnd_assoc bnd_if bnd_ret bnd_halt cong: if_cong)
    apply (intro rests_intros rests_ret)
    apply (simp_all only: ok sum.case)
    apply (rule op, use evs in blast)
    apply (rule conf, use evs in blast)
    apply blast+
    done
qed (simp_all add: ok)
















section \<open>The retry loop\<close>

fun is_loop_ctl :: "syscall \<Rightarrow> bool" where
  "is_loop_ctl (Device (Loop_ctl fd k)) = True"
| "is_loop_ctl c = False"

definition attempts :: "(syscall \<times> response) list \<Rightarrow> nat" where
  "attempts tr = length (filter is_loop_ctl (calls tr))"

lemma attempts_simps [simp]: "attempts [] = 0" "attempts (x # tr) = (if is_loop_ctl (fst x) then 1 else 0) + attempts tr"
  "attempts (tr @ tr') = attempts tr + attempts tr'"
  by (simp_all add: attempts_def)

text \<open>An attempt after its first call.\<close>

definition attempt_rest ::
  "'w os \<Rightarrow> fd \<Rightarrow> fd \<Rightarrow> bool \<Rightarrow> bool \<Rightarrow> nat \<Rightarrow> response \<Rightarrow> ('w sys, nat + fd) prog" where
  "attempt_rest os lock fd w a x status =
     (if rv status < 0 then errx os 1 ''ioctl(LOOP_CTL_*)''
     else
       bnd (open_loop_dev os (word_of_int (rv status)) w) (\<lambda>dev_file.
       bnd (gets errno) (\<lambda>e.
       if dev_file < 0 then
         seq (assert_c (dev_file = -1))
         (if e \<noteq> EAGAIN \<and> e \<noteq> EBUSY \<and> e \<noteq> ENXIO \<and> e \<noteq> ENOENT \<or> x \<ge> 5
          then errx os 1 ''open(/dev/loop)''
          else seq (warnx os ''open(/dev/loop): retry'') (ret (Inl (x + 1))))
       else
         bnd (sys os (Device (Loop_configure dev_file fd 512 (loop_flags w a)))) (\<lambda>c.
         bnd (gets errno) (\<lambda>e.
         if rv c = 0 then bnd (sys os (Close lock)) (\<lambda>_. ret (Inr dev_file))
         else if rv c = -1 then
           if e \<noteq> EBUSY \<and> e \<noteq> ENXIO \<or> x \<ge> 5 then errx os 1 ''ioctl(LOOP_CONFIGURE)''
           else
             bnd (sys os (Close dev_file)) (\<lambda>k.
             if rv k \<noteq> 0 then halt Abort else ret (Inl (x + 1)))
         else halt Abort)))))"

lemma loop_attempt_split:
  "loop_attempt os lock ctrl_fd fd w a x =
     bnd (sys os (Device (Loop_ctl ctrl_fd (if x \<noteq> 0 then LOOP_CTL_ADD else LOOP_CTL_GET_FREE)))) (attempt_rest os lock fd w a x)"
  unfolding loop_attempt_def attempt_rest_def by (rule refl)

lemma ends_setup_parts [ends_intros]: "ends (open_loop_dev os n w)" "ends (attempt_rest os lock fd w a x st)"
  unfolding attempt_rest_def open_loop_dev_def by (intro ends_intros)+

lemma attempt_rest_makes: "makes (\<lambda>c. \<not> is_loop_ctl c) tr (attempt_rest os lock fd w a x st)"
  unfolding attempt_rest_def open_loop_dev_def errx_def warnx_def
  by (intro keep_intros makes_say makes_halt; simp)

lemma attempt_rest_next:
  "returning (attempt_rest os lock fd w a x st) (\<lambda>r. case r of Inl y \<Rightarrow> y = x + 1 \<and> x < 5 | Inr d \<Rightarrow> True)"
  unfolding attempt_rest_def
  by (intro hoare_if returning_never returning_bnd [OF returning_any] returning_seq returning_ret; simp)

lemma attempt_rest_twp:
  assumes x: "x \<le> 5" and t: "after tr0 (\<lambda>tr. attempts tr \<le> x + 1) t"
  shows "twp (attempt_rest os lock fd w a x st) (\<lambda>r u. case r of
        Inl y \<Rightarrow> (y \<le> 5 \<and> after tr0 (\<lambda>tr. attempts tr \<le> y) u) \<and> ((y, u), (x, t0)) \<in> measure (\<lambda>(x, _). 6 - x)
      | Inr a \<Rightarrow> after tr0 (\<lambda>tr. attempts tr \<le> 6) u) (\<lambda>_. after tr0 (\<lambda>tr. attempts tr \<le> 6)) t"
proof (rule twpI)
  show "attempt_rest os lock fd w a x st t \<noteq> None" using ends_setup_parts(2) unfolding ends_def by blast
  let ?M = "made (\<lambda>c. \<not> is_loop_ctl c) (trace t)"
  have none: "attempts tr = 0" if "list_all (\<lambda>c. \<not> is_loop_ctl c) (calls tr)" for tr
    using that by (simp add: attempts_def list_all_iff)
  have "?M t" by (simp add: made_def)
  from hoareD [OF makes_and [OF attempt_rest_makes attempt_rest_next] this]
  show "wp (attempt_rest os lock fd w a x st) (\<lambda>r u. case r of
        Inl y \<Rightarrow> (y \<le> 5 \<and> after tr0 (\<lambda>tr. attempts tr \<le> y) u) \<and> ((y, u), (x, t0)) \<in> measure (\<lambda>(x, _). 6 - x)
      | Inr a \<Rightarrow> after tr0 (\<lambda>tr. attempts tr \<le> 6) u) (\<lambda>_. after tr0 (\<lambda>tr. attempts tr \<le> 6)) t"
    by (rule wp_mono) (use x t none in \<open>auto simp add: after_def made_def split: sum.splits\<close>)
qed

text \<open>
  C26: \<open>setup_loop\<close> ends after at most six attempts, and a device it returns was configured for
  the file with the flags asked for.
\<close>

theorem setup_loop_attempts:
  "\<exists>r t tr. setup_loop os ctrl_fd fd writable autoclear s = Some (r, t) \<and> trace t = trace s @ tr \<and> attempts tr \<le> 6 \<and>
     (case r of Inl e \<Rightarrow> True
      | Inr d \<Rightarrow> \<exists>c. (Device (Loop_configure d fd 512 (loop_flags writable autoclear)), c) \<in> set tr \<and> rv c = 0)"
proof -
  let ?F = "\<lambda>n :: nat. after (trace s) (\<lambda>tr. attempts tr \<le> n)"
  let ?L = "\<lambda>lock. loop (loop_attempt os lock ctrl_fd fd writable autoclear) 0"
  have loop: "twp (?L lock) (\<lambda>_. ?F 6) (\<lambda>_. ?F 6) u" if "?F 0 u" for lock and u :: "'a sys"
  proof (rule loop_twp [where I = "\<lambda>x t. x \<le> 5 \<and> ?F x t" and R = "measure (\<lambda>(x, _). 6 - x)"])
    fix x and t :: "'a sys"
    assume t: "x \<le> 5 \<and> ?F x t"
    show "twp (loop_attempt os lock ctrl_fd fd writable autoclear x) (\<lambda>r u. case r of
        Inl y \<Rightarrow> (y \<le> 5 \<and> ?F y u) \<and> ((y, u), (x, t)) \<in> measure (\<lambda>(x, _). 6 - x) | Inr a \<Rightarrow> ?F 6 u) (\<lambda>_. ?F 6) t"
      unfolding loop_attempt_split wp_simps
    proof (rule attempt_rest_twp)
      from t show "?F (x + 1) (sys_upd w e [(c, r)] t)" for w e c r
        by (intro after_call [where F = "\<lambda>tr. attempts tr \<le> x"]) auto
    qed (use t in auto)
  qed (use that in auto)
  have "twp (setup_loop os ctrl_fd fd writable autoclear) (\<lambda>_. ?F 6) (\<lambda>_. ?F 6) s"
    unfolding setup_loop_def errx_def
    by (auto simp add: wp_simps after_def intro!: loop)
  then obtain r t where run: "setup_loop os ctrl_fd fd writable autoclear s = Some (r, t)" and t: "?F 6 t"
    unfolding twp_def by (auto split: option.splits sum.splits)
  have "rests (\<lambda>_ _. True) (trace s) {} (setup_loop os ctrl_fd fd writable autoclear)
    (\<lambda>d E. \<exists>c. (Device (Loop_configure d fd 512 (loop_flags writable autoclear)), c) \<in> E \<and> rv c = 0)"
    by (rule rests_setup_loop) simp_all
  from rests_start [OF this run] t obtain tr where tr: "trace t = trace s @ tr" "attempts tr \<le> 6"
    and "case r of Inl e \<Rightarrow> True | Inr d \<Rightarrow> \<exists>E \<subseteq> set tr. \<exists>c.
      (Device (Loop_configure d fd 512 (loop_flags writable autoclear)), c) \<in> E \<and> rv c = 0"
    unfolding after_def by auto
  then have "case r of Inl e \<Rightarrow> True
      | Inr d \<Rightarrow> \<exists>c. (Device (Loop_configure d fd 512 (loop_flags writable autoclear)), c) \<in> set tr \<and> rv c = 0"
    by (cases r) auto
  with run tr show ?thesis by (intro exI conjI)
qed

text \<open>
  C13: \<open>remove_device\<close> ends for every environment.  It reads only the four keys, removes only
  \<open>physical-device\<close> (which it has read) and after that \<open>diskseq\<close>, and opens only the loop control
  device and the node of the loop device these keys announce, read-only, when both are gone and
  the configuration did not name that device itself.  It clears a loop device only through a
  descriptor of that node whose device number and sequence number are the announced ones.
  When it returns, both keys were removed and had values that make sense, and the device is no
  loop device, or is the configured one, or was cleared or busy; otherwise the exit status is 1.
\<close>

theorem remove_device_justified:
  "\<exists>r t tr. remove_device os base s = Some (r, t) \<and> trace t = trace s @ tr \<and> justified (remove_ok base) tr \<and>
     (case r of Inl e \<Rightarrow> e = Exit 1 | Inr _ \<Rightarrow> removed base (set tr))"
proof -
  have "ends (remove_device os base)"
    unfolding remove_device_def clear_loop_def xs_get_def xs_remove_def open_file_def open_loop_dev_def
    by (intro ends_intros)
  from ends_runs [OF this, of s] obtain r t where run: "remove_device os base s = Some (r, t)" by (elim exE)
  from rests_start [OF rests_remove_device run]
  obtain tr where tr: "trace t = trace s @ tr" "justified (remove_ok base) tr"
    and fin: "case r of Inl e \<Rightarrow> True | Inr x \<Rightarrow> \<exists>E \<subseteq> set tr. removed base E" by blast
  have stop: "case r of Inl e \<Rightarrow> e = Exit 1 | Inr _ \<Rightarrow> True"
    using hoare_outcome [OF exits_one_remove_device [unfolded exits_one_def] TrueI run] .
  from fin stop have "case r of Inl e \<Rightarrow> e = Exit 1 | Inr _ \<Rightarrow> removed base (set tr)"
    by (cases r) (auto intro: removed_mono)
  with run tr show ?thesis by (intro exI conjI)
qed


section \<open>A run\<close>







end
