(* ===== verification/Meminfo.thy ===== *)
theory Meminfo
  imports Sys_Common "HOL-Library.Signed_Division"
begin

text \<open>
  The memory reporter, \<open>src/qmemman/meminfo-writer.c\<close>.  A buffer filled by \<open>pread0_string\<close> is
  the bytes it read and the NUL byte behind them; the rest of the C array is indeterminate, and an
  access to it, or to a variable that was never assigned, is undefined behaviour.  Values of type
  \<open>long long\<close> are integers, and an overflow is undefined behaviour.  The file-scope variables
  are a record passed along.
\<close>

unbundle bit_operations_syntax

section \<open>Numbers in text\<close>

definition isspace :: "u8 \<Rightarrow> bool" where
  "isspace c \<longleftrightarrow> c = 0x20 \<or> 9 \<le> c \<and> c \<le> 13"

definition isdigit :: "u8 \<Rightarrow> bool" where
  "isdigit c \<longleftrightarrow> 0x30 \<le> c \<and> c \<le> 0x39"

definition dec_num :: "bytes \<Rightarrow> int" where
  "dec_num ds = foldl (\<lambda>a c. a * 10 + (uint c - 0x30)) 0 ds"

text \<open>The range of \<open>long long\<close>; conversions saturate, arithmetic must stay inside.\<close>

definition saturate :: "int \<Rightarrow> int" where
  "saturate v = max (- (2 ^ 63)) (min v (2 ^ 63 - 1))"

definition ll :: "int \<Rightarrow> int option" where
  "ll v = (if - (2 ^ 63) \<le> v \<and> v < 2 ^ 63 then Some v else None)"

text \<open>An optional sign and digits: the number and the rest of the text.\<close>

definition scan_int :: "bytes \<Rightarrow> (int \<times> bytes) option" where
  "scan_int s =
     (let t = (if s \<noteq> [] \<and> (hd s = 0x2D \<or> hd s = 0x2B) then tl s else s);
          ds = takeWhile isdigit t in
      if ds = [] then None
      else Some (saturate (if s \<noteq> [] \<and> hd s = 0x2D then - dec_num ds else dec_num ds), dropWhile isdigit t))"

text \<open>\<open>strtoll(s, 0, 10)\<close> and \<open>atoi\<close>.\<close>

definition strtoll :: "bytes \<Rightarrow> int" where
  "strtoll s = (case scan_int (dropWhile isspace s) of None \<Rightarrow> 0 | Some (v, _) \<Rightarrow> v)"

definition atoi :: "bytes \<Rightarrow> int" where
  "atoi s = signed_take_bit 31 (strtoll s)"

section \<open>Parsing\<close>

text \<open>
  \<open>sscanf(s, "%*s %lld kB\n%n", &val, &len)\<close>: the value when it was assigned (the result is at
  least 1), and the length when it was assigned.
\<close>

definition scan_line :: "bytes \<Rightarrow> int option \<times> nat option" where
  "scan_line s =
     (let s1 = dropWhile isspace s in
      if s1 = [] then (None, None)
      else
        case scan_int (dropWhile isspace (dropWhile (\<lambda>c. \<not> isspace c) s1)) of
          None \<Rightarrow> (None, None)
        | Some (v, s2) \<Rightarrow>
            let s3 = dropWhile isspace s2 in
            if take 2 s3 = ascii ''kB'' then (Some v, Some (length s - length (dropWhile isspace (drop 2 s3))))
            else (Some v, None))"

definition sscanf_line :: "bytes \<Rightarrow> nat \<Rightarrow> (int option \<times> nat option) option" where
  "sscanf_line buf ptr = (if 0 \<in> set (drop ptr buf) then Some (scan_line (c_str (drop ptr buf))) else None)"

definition read8 :: "bytes \<Rightarrow> nat \<Rightarrow> bytes option" where
  "read8 buf ptr = (if ptr + 8 \<le> length buf then Some (take 8 (drop ptr buf)) else None)"

record meminfo =
  MemTotal :: int
  MemFree :: int
  Buffers :: int
  Cached :: int
  SwapTotal :: int
  SwapFree :: int
  nitems :: u32

definition no_meminfo :: meminfo where
  "no_meminfo = \<lparr>MemTotal = 0, MemFree = 0, Buffers = 0, Cached = 0, SwapTotal = 0, SwapFree = 0, nitems = 0\<rparr>"

text \<open>The first eight bytes of a line select the field.\<close>

definition store_item :: "bytes \<Rightarrow> int \<Rightarrow> meminfo \<Rightarrow> meminfo" where
  "store_item key val m =
     (if key = take 8 (ascii ''MemTotal:'') then m\<lparr>MemTotal := val, nitems := nitems m OR 1\<rparr>
      else if key = take 8 (ascii ''MemFree:'') then m\<lparr>MemFree := val, nitems := nitems m OR 2\<rparr>
      else if key = take 8 (ascii ''Buffers:'') then m\<lparr>Buffers := val, nitems := nitems m OR 4\<rparr>
      else if key = take 8 (ascii ''Cached:  '') then m\<lparr>Cached := val, nitems := nitems m OR 8\<rparr>
      else if key = take 8 (ascii ''SwapTotal:'') then m\<lparr>SwapTotal := val, nitems := nitems m OR 16\<rparr>
      else if key = take 8 (ascii ''SwapFree:'') then m\<lparr>SwapFree := val, nitems := nitems m OR 32\<rparr>
      else m)"

text \<open>One round of the loop; \<open>len\<close> is \<open>None\<close> until \<open>sscanf\<close> assigns it.\<close>

definition parse_line :: "bytes \<Rightarrow> nat \<times> nat option \<times> meminfo \<Rightarrow> ((nat \<times> nat option \<times> meminfo) + meminfo) option" where
  "parse_line buf = (\<lambda>(ptr, len, m).
     Option.bind (if nitems m \<noteq> push_bit 6 1 - 1 then Some True else map_option (\<lambda>c. c = 0) (rd buf ptr)) (\<lambda>go.
     if \<not> go then Some (Inr m)
     else
       Option.bind (sscanf_line buf ptr) (\<lambda>(val, n).
       let len = (if n = None then len else n) in
       Option.bind len (\<lambda>l.
       case val of
         None \<Rightarrow> Some (Inl (ptr + l, len, m))
       | Some v \<Rightarrow>
           if l < 8 then Some (Inl (ptr + l, len, m))
           else Option.bind (read8 buf ptr) (\<lambda>key. Some (Inl (ptr + l, len, store_item key v m)))))))"

definition parse_fields :: "bytes \<Rightarrow> ('s, meminfo) prog" where
  "parse_fields buf = loop (\<lambda>x. checked (parse_line buf x)) (0, None, no_meminfo)"

record globals =
  prev_used_mem :: int
  prev_used_swap :: int
  used_mem_change_threshold :: int
  used_swap_change_threshold :: int

record UsedMem =
  mem :: "bytes option"
  swap :: "bytes option"

text \<open>The domain's own total takes the place of the kernel's, unless it is zero.\<close>

definition with_dom_total :: "bytes \<Rightarrow> meminfo \<Rightarrow> meminfo" where
  "with_dom_total dom_current m = (if strtoll dom_current \<noteq> 0 then m\<lparr>MemTotal := strtoll dom_current\<rparr> else m)"

definition used_memory :: "meminfo \<Rightarrow> int option" where
  "used_memory m =
     Option.bind (ll (MemTotal m - Buffers m)) (\<lambda>a.
     Option.bind (ll (a - Cached m)) (\<lambda>a.
     Option.bind (ll (a - MemFree m)) (\<lambda>a.
     Option.bind (ll (a + SwapTotal m)) (\<lambda>a. ll (a - SwapFree m)))))"

definition used_swap :: "meminfo \<Rightarrow> int option" where
  "used_swap m = ll (SwapTotal m - SwapFree m)"

definition difference :: "int \<Rightarrow> int \<Rightarrow> int option" where
  "difference a b = Option.bind (ll (a - b)) (\<lambda>d. if d < 0 then ll (- d) else Some d)"

definition report_mem :: "globals \<Rightarrow> int \<Rightarrow> int \<Rightarrow> bool option" where
  "report_mem g mem_total used =
     Option.bind (difference used (prev_used_mem g)) (\<lambda>diff.
       if diff > used_mem_change_threshold g \<or> prev_used_mem g = 0 then Some True
       else if \<not> used > prev_used_mem g then Some False
       else
         Option.bind (ll (mem_total + 12)) (\<lambda>t.
           Some (used sdiv 10 > t sdiv 13 \<and> diff > used_mem_change_threshold g sdiv 2)))"

definition report_swap :: "globals \<Rightarrow> int \<Rightarrow> bool option" where
  "report_swap g used =
     Option.bind (difference used (prev_used_swap g)) (\<lambda>diff.
       Some (diff > used_swap_change_threshold g \<or> prev_used_swap g = 0))"

text \<open>What \<open>parse\<close> decides, and the variables behind it.\<close>

definition decide :: "globals \<Rightarrow> meminfo \<Rightarrow> (UsedMem \<times> globals) option" where
  "decide g m =
     Option.bind (used_memory m) (\<lambda>used.
     Option.bind (used_swap m) (\<lambda>swapped.
     Option.bind (if used \<ge> 0 then report_mem g (MemTotal m) used else Some False) (\<lambda>rm.
     Option.bind (if swapped \<ge> 0 then report_swap g swapped else Some False) (\<lambda>rs.
       Some (\<lparr>mem = (if rm then Some (decimal used) else None), swap = (if rs then Some (decimal swapped) else None)\<rparr>,
             if rm then g\<lparr>prev_used_mem := used\<rparr> else g)))))"

definition parse :: "globals \<Rightarrow> bytes \<Rightarrow> bytes \<Rightarrow> ('s, UsedMem \<times> globals) prog" where
  "parse g meminfo_buf dom_current_buf =
     bnd (parse_fields meminfo_buf) (\<lambda>m. checked (decide g (with_dom_total (c_str dom_current_buf) m)))"

section \<open>Reading and reporting\<close>

definition send_to_qmemman :: "'w os \<Rightarrow> UsedMem \<Rightarrow> ('w sys, unit) prog" where
  "send_to_qmemman os used =
     seq (case mem used of
            None \<Rightarrow> ret ()
          | Some v \<Rightarrow>
              bnd (sys os (Xenstore (Xs_write 0 (ascii ''memory/meminfo'') v))) (\<lambda>r.
              guarded (rv r < 0) (errx os 1 ''error writing meminfo to xenstore ?'')))
     (case swap used of
        None \<Rightarrow> ret ()
      | Some v \<Rightarrow>
          bnd (sys os (Xenstore (Xs_write 0 (ascii ''memory/swapinfo'') v))) (\<lambda>r.
          guarded (rv r < 0) (errx os 1 ''error writing swapinfo to xenstore ?'')))"

definition pread0_string :: "'w os \<Rightarrow> fd \<Rightarrow> nat \<Rightarrow> ('w sys, bytes) prog" where
  "pread0_string os fd buf_size =
     bnd (sys os (Device (Pread fd (buf_size - 1) 0))) (\<lambda>r.
     if rv r < 0 then errx os 1 ''pread'' else ret (rdata r @ [0]))"

text \<open>The values the loop leaves with: the memory information between two equal readings.\<close>

definition stable_reading :: "'w os \<Rightarrow> fd \<Rightarrow> fd \<Rightarrow> bytes \<Rightarrow> ('w sys, bytes + bytes \<times> bytes) prog" where
  "stable_reading os meminfo_fd dom_current_fd dom_current_buf =
     bnd (pread0_string os meminfo_fd 4096) (\<lambda>meminfo_buf.
     bnd (pread0_string os dom_current_fd 32) (\<lambda>dom_current_buf2.
     if c_str dom_current_buf = c_str dom_current_buf2 then ret (Inr (meminfo_buf, dom_current_buf))
     else
       bnd (pread0_string os meminfo_fd 4096) (\<lambda>meminfo_buf.
       bnd (pread0_string os dom_current_fd 32) (\<lambda>dom_current_buf.
       if c_str dom_current_buf = c_str dom_current_buf2 then ret (Inr (meminfo_buf, dom_current_buf))
       else ret (Inl dom_current_buf)))))"

definition update :: "'w os \<Rightarrow> fd \<Rightarrow> fd \<Rightarrow> globals \<Rightarrow> ('w sys, globals) prog" where
  "update os meminfo_fd dom_current_fd g =
     bnd (pread0_string os dom_current_fd 32) (\<lambda>dom_current_buf.
     bnd (loop (stable_reading os meminfo_fd dom_current_fd) dom_current_buf) (\<lambda>(meminfo_buf, dom_current_buf).
     bnd (parse g meminfo_buf dom_current_buf) (\<lambda>(meminfo_data, g).
     seq (send_to_qmemman os meminfo_data) (ret g))))"

section \<open>The process\<close>

definition usage :: "'w os \<Rightarrow> ('w sys, 'a) prog" where
  "usage os = errx os 1 ''usage: meminfo_writer threshold_in_kb delay_in_us [pidfile]''"

text \<open>The child waits for the signal; \<open>rval\<close> of \<open>sigsuspend\<close> tells whether the handler ran.\<close>

definition wait_usr1 :: "'w os \<Rightarrow> ('w sys, unit) prog" where
  "wait_usr1 os =
     bnd (sys os (Device (Sigprocmask True))) (\<lambda>_.
     bnd (sys os (Device Signal_usr1)) (\<lambda>_.
     seq (loop (\<lambda>usr1_received.
            if usr1_received then ret (Inr ())
            else bnd (sys os (Device Sigsuspend)) (\<lambda>r. ret (Inl (rval r \<noteq> 0)))) False)
     (bnd (sys os (Device (Sigprocmask False))) (\<lambda>_. ret ()))))"

definition write_pidfile :: "'w os \<Rightarrow> bytes \<Rightarrow> int \<Rightarrow> ('w sys, 'a) prog" where
  "write_pidfile os pidfile pid =
     bnd (sys os (Device (Open_mode pidfile (O_CREAT OR O_TRUNC OR O_WRONLY) 0x1B6))) (\<lambda>fd.
     if rv fd < 0 then
       seq (say os (Stderr ''open pidfile'')) (bnd (sys os (Device (Kill pid 9))) (\<lambda>_. halt (Exit 1)))
     else
       bnd (sys os (Write (rv fd) (decimal pid @ [0x0A]))) (\<lambda>w.
       if rv w \<noteq> int (length (decimal pid @ [0x0A])) then
         seq (say os (Stderr ''write pid'')) (bnd (sys os (Device (Kill pid 9))) (\<lambda>_. halt (Exit 1)))
       else bnd (sys os (Close (rv fd))) (\<lambda>_. halt (Exit 0))))"

definition fork_early :: "'w os \<Rightarrow> bytes \<Rightarrow> ('w sys, unit) prog" where
  "fork_early os pidfile =
     bnd (sys os (Device Fork)) (\<lambda>pid.
     if rv pid = -1 then errx os 1 ''fork''
     else if rv pid = 0 then wait_usr1 os
     else write_pidfile os pidfile (rv pid))"

definition fork_late :: "'w os \<Rightarrow> nat \<Rightarrow> ('w sys, unit) prog" where
  "fork_late os delay =
     bnd (sys os (Device Fork)) (\<lambda>n.
     if rv n < 0 then errx os 1 ''fork''
     else if rv n > 0 then halt (Exit 0)
     else bnd (sys os (Usleep delay)) (\<lambda>_. ret ()))"

text \<open>The last loop has no exit.\<close>

definition meminfo_writer :: "'w os \<Rightarrow> bytes list \<Rightarrow> ('w sys, int) prog" where
  "meminfo_writer os argv =
     (if length argv \<noteq> 3 \<and> length argv \<noteq> 4 then usage os
      else
        let threshold = atoi (argv ! 1); delay = atoi (argv ! 2) in
        if threshold \<le> 0 \<or> delay \<le> 0 then usage os
        else
          let g = \<lparr>prev_used_mem = 0, prev_used_swap = 0, used_mem_change_threshold = threshold,
                    used_swap_change_threshold = threshold\<rparr> in
          seq (guarded (length argv = 4) (fork_early os (argv ! 3)))
          (bnd (sys os (Open (ascii ''/proc/meminfo'') O_RDONLY)) (\<lambda>meminfo_fd.
           if rv meminfo_fd < 0 then errx os 1 ''open /proc/meminfo''
           else
             bnd (sys os (Open (ascii ''/sys/devices/system/xen_memory/xen_memory0/info/current_kb'') O_RDONLY)) (\<lambda>dom_fd.
             if rv dom_fd < 0 then errx os 1 ''open current_kb''
             else
               bnd (sys os (Xenstore Xs_open)) (\<lambda>h.
               if rv h < 0 then errx os 1 ''xs_domain_open''
               else
                 bnd (if length argv = 3 then
                        bnd (update os (rv meminfo_fd) (rv dom_fd) g) (\<lambda>g.
                        seq (fork_late os (nat delay)) (ret g))
                      else ret g) (\<lambda>g.
                 loop (\<lambda>g.
                   bnd (update os (rv meminfo_fd) (rv dom_fd) g) (\<lambda>g.
                   bnd (sys os (Usleep (nat delay))) (\<lambda>_. ret (Inl g)))) g))))))"

end
