(* ===== verification/Meminfo_Props.thy ===== *)
theory Meminfo_Props
  imports Meminfo Sys_Reason
begin

text \<open>
  Correctness of the memory reporter: what it parses from the kernel's text, how far the value
  it has published may be off, and that every update publishes what it read between two equal
  readings of the domain's size.
\<close>

unbundle bit_operations_syntax

section \<open>Lines of the kernel's text\<close>

text \<open>A name, blanks, digits, and the unit.\<close>

type_synonym line = "bytes \<times> bytes \<times> bytes"

definition line_bytes :: "line \<Rightarrow> bytes" where
  "line_bytes = (\<lambda>(name, blanks, ds). name @ blanks @ ds @ [0x20, 0x6B, 0x42, 0x0A])"

definition line_ok :: "line \<Rightarrow> bool" where
  "line_ok = (\<lambda>(name, blanks, ds).
     name \<noteq> [] \<and> list_all (\<lambda>c. \<not> isspace c \<and> c \<noteq> 0) name \<and>
     blanks \<noteq> [] \<and> list_all (\<lambda>c. c = 0x20) blanks \<and> ds \<noteq> [] \<and> list_all isdigit ds \<and>
     length (line_bytes (name, blanks, ds)) \<ge> 8)"

definition line_value :: "line \<Rightarrow> int" where
  "line_value = (\<lambda>(name, blanks, ds). saturate (dec_num ds))"

definition line_key :: "line \<Rightarrow> bytes" where
  "line_key l = take 8 (line_bytes l)"

definition store_line :: "meminfo \<Rightarrow> line \<Rightarrow> meminfo" where
  "store_line m l = store_item (line_key l) (line_value l) m"

lemma character_classes [simp]:
  "isspace 0x20" "isspace 0x0A" "\<not> isspace 0x6B" "\<not> isspace 0" "\<not> isdigit 0x20" "\<not> isspace 0x42"
  by (simp_all add: isspace_def isdigit_def)

lemma digit_not_space: "isdigit c \<Longrightarrow> \<not> isspace c \<and> c \<noteq> 0 \<and> c \<noteq> 0x2D \<and> c \<noteq> 0x2B"
  by (auto simp add: isdigit_def isspace_def word_le_nat_alt)

lemma while_split:
  "list_all P xs \<Longrightarrow> \<not> P y \<Longrightarrow> takeWhile P (xs @ y # zs) = xs \<and> dropWhile P (xs @ y # zs) = y # zs"
  by (induction xs) simp_all

lemma scan_line_ok:
  assumes l: "line_ok l" and c: "rest = [] \<or> \<not> isspace (hd rest)"
  shows "scan_line (line_bytes l @ rest) = (Some (line_value l), Some (length (line_bytes l)))"
proof -
  obtain name blanks ds where l_def: "l = (name, blanks, ds)" by (cases l)
  with l obtain n ns where n: "name = n # ns" "\<not> isspace n" and ns: "list_all (\<lambda>c. \<not> isspace c) ns"
    and b: "blanks \<noteq> []" "list_all (\<lambda>c. c = 0x20) blanks" and d: "ds \<noteq> []" "list_all isdigit ds"
    unfolding line_ok_def by (cases name) (auto simp add: list_all_iff)
  obtain b0 bs where b0: "blanks = b0 # bs" "b0 = 0x20" using b by (cases blanks) auto
  have sp: "list_all isspace bs" using b b0 by (auto simp add: list_all_iff)
  obtain d0 dt where d0: "ds = d0 # dt" using d by (cases ds) auto
  have d0p: "\<not> isspace d0" "d0 \<noteq> 0x2D" "d0 \<noteq> 0x2B" using d(2) d0 digit_not_space by auto
  let ?t = "0x20 # 0x6B # 0x42 # 0x0A # rest :: bytes"
  have name: "dropWhile (\<lambda>c. \<not> isspace c) (name @ blanks @ ds @ ?t) = blanks @ ds @ ?t"
    using while_split [of "\<lambda>c. \<not> isspace c" name b0 "bs @ ds @ ?t"] n ns b0 by simp
  have blanks: "dropWhile isspace (blanks @ ds @ ?t) = ds @ ?t"
    using while_split [OF sp d0p(1), of "dt @ ?t"] b0 d0 by simp
  have num: "scan_int (ds @ ?t) = Some (saturate (dec_num ds), ?t)"
    using while_split [OF d(2), of "0x20" "0x6B # 0x42 # 0x0A # rest"] d0 d0p by (simp add: scan_int_def Let_def)
  have start: "dropWhile isspace (name @ blanks @ ds @ ?t) = name @ blanks @ ds @ ?t" using n by simp
  have "scan_line (name @ blanks @ ds @ ?t) =
     (Some (saturate (dec_num ds)), Some (length (name @ blanks @ ds @ ?t) - length rest))"
    unfolding scan_line_def Let_def start name blanks num using c n by (cases rest) (simp_all add: ascii_def)
  then show ?thesis unfolding l_def line_bytes_def line_value_def by simp
qed

lemma line_no_nul: "line_ok l \<Longrightarrow> 0 \<notin> set (line_bytes l)"
  unfolding line_ok_def line_bytes_def by (auto simp add: list_all_iff dest: digit_not_space)

lemma c_str_line: "line_ok l \<Longrightarrow> c_str (line_bytes l @ rest) = line_bytes l @ c_str rest"
  using line_no_nul [of l] by (simp add: c_str_def takeWhile_append)

lemma parse_line_step:
  assumes "line_ok l" and "\<not> isspace (hd rest)" and "0 \<in> set rest" and "nitems m \<noteq> 63"
  shows "parse_line (pre @ line_bytes l @ rest) (length pre, len, m) =
     Some (Inl (length (pre @ line_bytes l), Some (length (line_bytes l)), store_line m l))"
proof -
  have "8 \<le> length (line_bytes l)" using assms(1) by (auto simp add: line_ok_def)
  then have "read8 (pre @ line_bytes l @ rest) (length pre) = Some (line_key l)"
    by (simp add: read8_def line_key_def)
  moreover have "c_str rest = [] \<or> \<not> isspace (hd (c_str rest))"
    using assms(2,3) by (cases rest) (auto simp add: c_str_def)
  then have "sscanf_line (pre @ line_bytes l @ rest) (length pre) = Some (Some (line_value l), Some (length (line_bytes l)))"
    using assms by (simp add: sscanf_line_def c_str_line scan_line_ok)
  ultimately show ?thesis using assms(4) \<open>8 \<le> length (line_bytes l)\<close>
    by (simp add: parse_line_def store_line_def Let_def)
qed

section \<open>The whole text\<close>

definition text_of :: "line list \<Rightarrow> bytes" where
  "text_of ls = concat (map line_bytes ls)"

definition has_key :: "string \<Rightarrow> line list \<Rightarrow> bool" where
  "has_key key ls \<longleftrightarrow> list_ex (\<lambda>l. line_key l = take 8 (ascii key)) ls"

definition complete :: "line list \<Rightarrow> bool" where
  "complete ls \<longleftrightarrow> list_all (\<lambda>key. has_key key ls)
     [''MemTotal:'', ''MemFree:'', ''Buffers:'', ''Cached:  '', ''SwapTotal:'', ''SwapFree:'']"

text \<open>All six fields are there with the last line, and not before.\<close>

definition completes :: "line list \<Rightarrow> bool" where
  "completes ls \<longleftrightarrow> list_all line_ok ls \<and> complete ls \<and> \<not> complete (butlast ls)"

text \<open>The value of the last line with a key.\<close>

definition field_of :: "string \<Rightarrow> line list \<Rightarrow> int" where
  "field_of key ls = (case filter (\<lambda>l. line_key l = take 8 (ascii key)) (rev ls) of [] \<Rightarrow> 0 | l # _ \<Rightarrow> line_value l)"

definition flags :: "bool \<Rightarrow> bool \<Rightarrow> bool \<Rightarrow> bool \<Rightarrow> bool \<Rightarrow> bool \<Rightarrow> u32" where
  "flags a b c d e f =
     (if a then 1 else 0) OR (if b then 2 else 0) OR (if c then 4 else 0) OR
     (if d then 8 else 0) OR (if e then 16 else 0) OR (if f then 32 else 0)"

definition bits :: "line list \<Rightarrow> u32" where
  "bits ls = flags (has_key ''MemTotal:'' ls) (has_key ''MemFree:'' ls) (has_key ''Buffers:'' ls)
     (has_key ''Cached:  '' ls) (has_key ''SwapTotal:'' ls) (has_key ''SwapFree:'' ls)"

lemma flags_or [simp]:
  "flags a b c d e f OR 1 = flags True b c d e f" "flags a b c d e f OR 2 = flags a True c d e f"
  "flags a b c d e f OR 4 = flags a b True d e f" "flags a b c d e f OR 8 = flags a b c True e f"
  "flags a b c d e f OR 16 = flags a b c d True f" "flags a b c d e f OR 32 = flags a b c d e True"
  by (cases a; cases b; cases c; cases d; cases e; cases f; simp add: flags_def)+

lemma flags_all: "flags a b c d e f = 63 \<longleftrightarrow> a \<and> b \<and> c \<and> d \<and> e \<and> f"
  by (cases a; cases b; cases c; cases d; cases e; cases f; simp add: flags_def)

lemma keys_distinct:
  "distinct [take 8 (ascii ''MemTotal:''), take 8 (ascii ''MemFree:''), take 8 (ascii ''Buffers:''),
     take 8 (ascii ''Cached:  ''), take 8 (ascii ''SwapTotal:''), take 8 (ascii ''SwapFree:'')]"
  by (simp add: ascii_def)

definition fields :: "line list \<Rightarrow> meminfo" where
  "fields ls =
     \<lparr>MemTotal = field_of ''MemTotal:'' ls, MemFree = field_of ''MemFree:'' ls, Buffers = field_of ''Buffers:'' ls,
      Cached = field_of ''Cached:  '' ls, SwapTotal = field_of ''SwapTotal:'' ls, SwapFree = field_of ''SwapFree:'' ls,
      nitems = bits ls\<rparr>"

lemma keyed_simps [simp]:
  "has_key key [] \<longleftrightarrow> False" "has_key key (ls @ [l]) \<longleftrightarrow> line_key l = take 8 (ascii key) \<or> has_key key ls"
  "field_of key [] = 0" "field_of key (ls @ [l]) = (if line_key l = take 8 (ascii key) then line_value l else field_of key ls)"
  by (auto simp add: has_key_def field_of_def)

lemma fold_fields: "foldl store_line no_meminfo ls = fields ls"
proof (induction ls rule: rev_induct)
  case Nil
  show ?case by (simp add: fields_def no_meminfo_def bits_def flags_def)
next
  case (snoc l ls)
  have "store_line (fields ls) l = fields (ls @ [l])"
    unfolding store_line_def store_item_def fields_def bits_def keyed_simps
    using keys_distinct by (auto simp del: take_Cons' take_Cons)
  with snoc.IH show ?case by simp
qed

lemma bits_complete: "bits ls = 63 \<longleftrightarrow> complete ls"
  by (simp add: bits_def complete_def flags_all)

lemma complete_mono: "complete ls \<Longrightarrow> set ls \<subseteq> set ls' \<Longrightarrow> complete ls'"
  by (auto simp add: complete_def has_key_def list_ex_iff)

lemma not_complete_take:
  assumes "\<not> complete (butlast ls)" and "n < length ls"
  shows "\<not> complete (take n ls)"
proof
  assume "complete (take n ls)"
  moreover have "take n ls = take n (butlast ls)" using assms(2) by (simp add: take_butlast)
  ultimately have "complete (butlast ls)" by (metis complete_mono set_take_subset)
  with assms(1) show False by simp
qed

lemma line_starts:
  assumes "line_ok l"
  obtains c rest where "line_bytes l = c # rest" "\<not> isspace c" "c \<noteq> 0"
  using assms unfolding line_ok_def line_bytes_def by (cases l; cases "fst l") auto

text \<open>The rounds of the loop over complete lines.\<close>

inductive rounds :: "bytes \<Rightarrow> nat \<times> nat option \<times> meminfo \<Rightarrow> nat \<times> nat option \<times> meminfo \<Rightarrow> bool" for buf where
  none: "rounds buf x x"
| more: "parse_line buf x = Some (Inl y) \<Longrightarrow> rounds buf y z \<Longrightarrow> rounds buf x z"

lemma rounds_snoc: "rounds buf x y \<Longrightarrow> parse_line buf y = Some (Inl z) \<Longrightarrow> rounds buf x z"
  by (induction rule: rounds.induct) (auto intro: rounds.intros)

lemma rounds_loop: "rounds buf x y \<Longrightarrow> loop (\<lambda>x. checked (parse_line buf x)) x s = loop (\<lambda>x. checked (parse_line buf x)) y s"
proof (induction rule: rounds.induct)
  case (more x y z)
  then show ?case by (simp add: loop.simps [of _ x] checked_def ret_def)
qed simp

lemma rounds_lines:
  assumes "list_all line_ok ls" and "\<forall>n < length ls. nitems (foldl store_line m (take n ls)) \<noteq> 63"
    and "\<not> isspace (hd rest)" and "0 \<in> set rest"
  shows "rounds (pre @ text_of ls @ rest) (length pre, len, m)
     (length (pre @ text_of ls), if ls = [] then len else Some (length (line_bytes (last ls))), foldl store_line m ls)"
  using assms(1,2)
proof (induction ls arbitrary: pre len m)
  case Nil
  show ?case by (simp add: text_of_def rounds.none)
next
  case (Cons l ls)
  let ?rest = "text_of ls @ rest"
  have "\<not> isspace (hd ?rest)"
  proof (cases ls)
    case (Cons k ks)
    with Cons.prems have "line_ok k" by simp
    then obtain c r where "line_bytes k = c # r" "\<not> isspace c" by (rule line_starts)
    with Cons show ?thesis by (simp add: text_of_def)
  qed (simp add: text_of_def assms(3))
  moreover have "nitems m \<noteq> 63" using Cons.prems(2) by (metis foldl.simps(1) length_greater_0_conv list.distinct(1) take0)
  ultimately have step: "parse_line (pre @ line_bytes l @ ?rest) (length pre, len, m) =
     Some (Inl (length (pre @ line_bytes l), Some (length (line_bytes l)), store_line m l))"
    using Cons.prems(1) assms(4) by (intro parse_line_step) simp_all
  have "\<forall>n < length ls. nitems (foldl store_line (store_line m l) (take n ls)) \<noteq> 63"
    using Cons.prems(2) by (metis Suc_less_eq foldl.simps(2) length_Cons take_Suc_Cons)
  with Cons.IH [of "store_line m l" "pre @ line_bytes l" "Some (length (line_bytes l))"] Cons.prems(1) step
  show ?case by (auto simp add: text_of_def intro: rounds.more)
qed

lemma rounds_text:
  assumes "completes ls" and "\<not> isspace (hd rest)" and "0 \<in> set rest"
  shows "rounds (text_of ls @ rest) (0, None, no_meminfo)
     (length (text_of ls), Some (length (line_bytes (last ls))), fields ls)"
proof -
  have "nitems (foldl store_line no_meminfo (take n ls)) \<noteq> 63" if "n < length ls" for n
    using not_complete_take [of ls n] that assms(1) bits_complete [of "take n ls"]
    by (simp add: completes_def fold_fields) (simp add: fields_def)
  moreover have "ls \<noteq> []" using assms(1) by (auto simp add: completes_def complete_def)
  ultimately show ?thesis
    using rounds_lines [of ls no_meminfo rest "[]" None] assms by (simp add: completes_def fold_fields)
qed

lemma fields_nitems: "completes ls \<Longrightarrow> nitems (fields ls) = 63"
  using bits_complete [of ls] by (simp add: fields_def completes_def)

lemma parse_fields_result:
  assumes "completes ls" and "\<not> isspace c" and "c \<noteq> 0" and "0 \<in> set rest"
  shows "parse_fields (text_of ls @ c # rest) s = Some (Inr (fields ls), s)"
proof -
  have "rounds (text_of ls @ c # rest) (0, None, no_meminfo)
     (length (text_of ls), Some (length (line_bytes (last ls))), fields ls)"
    using assms by (intro rounds_text) simp_all
  from rounds_loop [OF this, of s] show ?thesis
    using fields_nitems [OF assms(1)] assms(3)
    by (simp add: parse_fields_def loop.simps [of _ "(length _, _)"] parse_line_def checked_def ret_def)
qed

text \<open>
  C21: \<open>parse\<close> reads, from lines that complete the six fields followed by more text, the value of
  the last line with each name.
\<close>

theorem parse_fields_reads:
  assumes "completes ls" and "\<not> isspace c" and "c \<noteq> 0" and "0 \<in> set rest"
  shows "\<exists>m. parse_fields (text_of ls @ c # rest) s = Some (Inr m, s) \<and>
    MemTotal m = field_of ''MemTotal:'' ls \<and> MemFree m = field_of ''MemFree:'' ls \<and>
    Buffers m = field_of ''Buffers:'' ls \<and> Cached m = field_of ''Cached:  '' ls \<and>
    SwapTotal m = field_of ''SwapTotal:'' ls \<and> SwapFree m = field_of ''SwapFree:'' ls"
  by (intro exI [of _ "fields ls"] conjI parse_fields_result assms) (simp_all add: fields_def)

definition demo_lines :: "line list" where
  "demo_lines =
     [(ascii ''MemTotal:'', [0x20, 0x20], ascii ''900''), (ascii ''MemFree:'', [0x20], ascii ''100''),
      (ascii ''Buffers:'', [0x20], ascii ''100''), (ascii ''Cached:'', [0x20, 0x20], ascii ''100''),
      (ascii ''SwapCached:'', [0x20], ascii ''7''), (ascii ''SwapTotal:'', [0x20], ascii ''50''),
      (ascii ''SwapFree:'', [0x20], ascii ''30'')]"

lemma demo_completes: "completes demo_lines"
  by (simp add: completes_def demo_lines_def complete_def has_key_def line_ok_def line_key_def line_bytes_def ascii_def
      isspace_def isdigit_def)

lemma demo_fields:
  "fields demo_lines = \<lparr>MemTotal = 900, MemFree = 100, Buffers = 100, Cached = 100, SwapTotal = 50, SwapFree = 30, nitems = 63\<rparr>"
  using fields_nitems [OF demo_completes]
  by (simp add: fields_def demo_lines_def field_of_def line_key_def line_bytes_def line_value_def ascii_def dec_num_def saturate_def)

theorem parse_fields_reads_witness:
  "\<exists>m. parse_fields (text_of demo_lines @ [0x58, 0]) () = Some (Inr m, ()) \<and> MemTotal m = field_of ''MemTotal:'' demo_lines"
  using parse_fields_reads [OF demo_completes, of "0x58" "[0]" "()"] by (auto simp add: isspace_def)

text \<open>
  C22: When the text ends with the line that completes the fields, the loop does not stop at its
  end and reads behind the buffer.
\<close>

theorem parse_fields_overruns:
  assumes "completes ls"
  shows "parse_fields (text_of ls @ [0]) s = Some (Inl Abort, s)"
proof -
  let ?buf = "text_of ls @ [0]" and ?n = "length (line_bytes (last ls))"
  have "ls \<noteq> []" using assms by (auto simp add: completes_def complete_def)
  then have "line_ok (last ls)" using assms by (simp add: completes_def list_all_iff)
  then have n: "8 \<le> ?n" by (auto simp add: line_ok_def)
  have "rounds ?buf (0, None, no_meminfo) (length (text_of ls), Some ?n, fields ls)"
    using assms by (intro rounds_text) simp_all
  moreover have "parse_line ?buf (length (text_of ls), Some ?n, fields ls) =
      Some (Inl (length (text_of ls) + ?n, Some ?n, fields ls))"
    using fields_nitems [OF assms] by (simp add: parse_line_def sscanf_line_def scan_line_def c_str_def)
  ultimately have r: "rounds ?buf (0, None, no_meminfo) (length (text_of ls) + ?n, Some ?n, fields ls)" by (rule rounds_snoc)
  have none: "parse_line ?buf (length (text_of ls) + ?n, Some ?n, fields ls) = None"
    using fields_nitems [OF assms] n by (auto simp add: parse_line_def rd_def)
  show ?thesis unfolding parse_fields_def
    by (subst rounds_loop [OF r], subst loop.simps) (simp add: none checked_def halt_def)
qed

theorem parse_fields_overruns_witness: "parse_fields (text_of demo_lines @ [0]) () = Some (Inl Abort, ())"
  by (rule parse_fields_overruns [OF demo_completes])

section \<open>What is reported\<close>

lemma ll_Some: "ll v = Some w \<longleftrightarrow> w = v \<and> - (2 ^ 63) \<le> v \<and> v < 2 ^ 63"
  by (auto simp add: ll_def)

lemma difference_Some: "difference a b = Some d \<Longrightarrow> d = \<bar>a - b\<bar>"
  by (auto simp add: difference_def bind_eq_Some_conv ll_Some split: if_splits)

text \<open>
  C20: When \<open>parse\<close> decides and the used memory is not negative, the value that was last published
  is afterwards the current one up to the threshold: either nothing is published and nothing
  changes, or the current value is published and remembered.  For a negative value nothing is
  published and nothing changes, however far it is from the last one.
\<close>

theorem published_within_threshold:
  assumes "decide g m = Some (d, g')" and "used_memory m = Some u" and "0 < used_mem_change_threshold g"
  shows "if 0 \<le> u
    then \<bar>u - prev_used_mem g'\<bar> \<le> used_mem_change_threshold g' \<and>
      (mem d = None \<and> g' = g \<or> mem d = Some (decimal u) \<and> g' = g\<lparr>prev_used_mem := u\<rparr>)
    else mem d = None \<and> g' = g"
proof (cases "0 \<le> u")
  case False
  with assms(1,2) show ?thesis by (auto simp add: decide_def bind_eq_Some_conv)
next
  case u: True
  from assms(1,2) u obtain w rm rs where rm: "report_mem g (MemTotal m) u = Some rm" and
    d: "d = \<lparr>mem = (if rm then Some (decimal u) else None), swap = (if rs then Some (decimal w) else None)\<rparr>" and
    g: "g' = (if rm then g\<lparr>prev_used_mem := u\<rparr> else g)"
    by (auto simp add: decide_def bind_eq_Some_conv)
  show ?thesis
  proof (cases rm)
    case True
    with d g u assms(3) show ?thesis by simp
  next
    case False
    from rm False obtain k where k: "difference u (prev_used_mem g) = Some k" "\<not> used_mem_change_threshold g < k"
      by (auto simp add: report_mem_def bind_eq_Some_conv split: if_splits)
    from difference_Some [OF k(1)] k(2) False d g u show ?thesis by simp
  qed
qed

definition demo_globals :: "int \<Rightarrow> globals" where
  "demo_globals used = \<lparr>prev_used_mem = used, prev_used_swap = 0, used_mem_change_threshold = 20, used_swap_change_threshold = 20\<rparr>"

lemma demo_used: "used_memory (fields demo_lines) = Some 620" "used_swap (fields demo_lines) = Some 20"
  by (simp_all add: demo_fields used_memory_def used_swap_def ll_def)

lemma demo_decide:
  "decide (demo_globals 610) (fields demo_lines) = Some (\<lparr>mem = None, swap = Some (decimal 20)\<rparr>, demo_globals 610)"
  "decide (demo_globals 590) (fields demo_lines) = Some (\<lparr>mem = Some (decimal 620), swap = Some (decimal 20)\<rparr>, demo_globals 620)"
  unfolding decide_def demo_used
  by (simp_all add: report_mem_def report_swap_def difference_def ll_def demo_globals_def demo_fields signed_divide_int_def)

theorem published_within_threshold_witness:
  "decide (demo_globals 610) (fields demo_lines) = Some (\<lparr>mem = None, swap = Some (decimal 20)\<rparr>, demo_globals 610) \<and>
   \<bar>620 - prev_used_mem (demo_globals 610)\<bar> \<le> (20 :: int)"
  using published_within_threshold [OF demo_decide(1) demo_used(1)] demo_decide(1) by (simp add: demo_globals_def)

text \<open>
  The variable behind the swap value is never assigned, so a non-negative swap value is
  reported at every update, whatever the threshold.
\<close>

theorem swap_always_reported:
  assumes "decide g m = Some (d, g')" and "prev_used_swap g = 0" and "used_swap m = Some w" and "0 \<le> w"
  shows "swap d = Some (decimal w) \<and> prev_used_swap g' = 0"
  using assms by (auto simp add: decide_def report_swap_def bind_eq_Some_conv split: if_splits)

theorem swap_always_reported_witness:
  "decide (demo_globals 610) (fields demo_lines) = Some (\<lparr>mem = None, swap = Some (decimal 20)\<rparr>, demo_globals 610) \<and>
   prev_used_swap (demo_globals 610) = 0"
  using swap_always_reported [OF demo_decide(1) _ demo_used(2)] demo_decide(1) by (simp add: demo_globals_def)

section \<open>Updates\<close>

text \<open>What the loop of \<open>parse\<close> leaves with.\<close>

definition reads_fields :: "bytes \<Rightarrow> meminfo \<Rightarrow> bool" where
  "reads_fields buf m \<longleftrightarrow> (\<exists>x. rounds buf (0, None, no_meminfo) x \<and> parse_line buf x = Some (Inr m))"

definition writes_of :: "UsedMem \<Rightarrow> syscall list" where
  "writes_of d =
     (case mem d of None \<Rightarrow> [] | Some v \<Rightarrow> [Xenstore (Xs_write 0 (ascii ''memory/meminfo'') v)]) @
     (case swap d of None \<Rightarrow> [] | Some v \<Rightarrow> [Xenstore (Xs_write 0 (ascii ''memory/swapinfo'') v)])"

lemma hoare_parse_fields: "hoare (\<lambda>_ _. True) P (parse_fields buf) (\<lambda>m t. P t \<and> reads_fields buf m)"
  unfolding parse_fields_def
proof (rule hoare_pre [OF hoare_loop [where I = "\<lambda>x t. P t \<and> rounds buf (0, None, no_meminfo) x"]])
  fix x
  show "hoare (\<lambda>_ _. True) (\<lambda>t. P t \<and> rounds buf (0, None, no_meminfo) x) (checked (parse_line buf x))
     (\<lambda>r t. case r of Inl y \<Rightarrow> P t \<and> rounds buf (0, None, no_meminfo) y | Inr m \<Rightarrow> P t \<and> reads_fields buf m)"
    unfolding reads_fields_def
    by (cases "parse_line buf x") (auto simp add: hoare_def checked_def wp_simps simp del: split_paired_Ex
      split: sum.split intro: rounds_snoc)
qed (simp add: rounds.none)

text \<open>The three last readings, the first and the last of the domain's size and equal.\<close>

definition stable :: "(syscall \<times> response) list \<Rightarrow> fd \<Rightarrow> fd \<Rightarrow> bytes \<Rightarrow> bytes \<Rightarrow> bool" where
  "stable tr meminfo_fd dom_fd m d \<longleftrightarrow>
     (\<exists>tr' r1 r2 r3. tr = tr' @ [(Device (Pread dom_fd 31 0), r1), (Device (Pread meminfo_fd 4095 0), r2),
        (Device (Pread dom_fd 31 0), r3)] \<and>
        m = rdata r2 @ [0] \<and> c_str (rdata r1 @ [0]) = c_str (rdata r3 @ [0]) \<and> c_str d = c_str (rdata r3 @ [0]))"

definition sized :: "(syscall \<times> response) list \<Rightarrow> fd \<Rightarrow> bytes \<Rightarrow> bool" where
  "sized tr dom_fd d \<longleftrightarrow> (\<exists>tr' r. tr = tr' @ [(Device (Pread dom_fd 31 0), r)] \<and> d = rdata r @ [0])"

lemma hoare_stable_reading:
  "hoare (\<lambda>_ _. True) (after tr0 (\<lambda>tr. sized tr dom_fd d)) (stable_reading os meminfo_fd dom_fd d)
     (\<lambda>r. case r of Inl d' \<Rightarrow> after tr0 (\<lambda>tr. sized tr dom_fd d')
      | Inr (m, d') \<Rightarrow> after tr0 (\<lambda>tr. stable tr meminfo_fd dom_fd m d'))"
  unfolding stable_reading_def pread0_string_def errx_def
  by (auto simp add: hoare_def wp_simps sized_def stable_def after_def)

text \<open>The last calls are these, and \<open>F\<close> holds of the trace before them.\<close>

definition wrote :: "((syscall \<times> response) list \<Rightarrow> bool) \<Rightarrow> syscall list \<Rightarrow> (syscall \<times> response) list \<Rightarrow> bool" where
  "wrote F cs tr \<longleftrightarrow> (\<exists>tr1 tw. tr = tr1 @ tw \<and> F tr1 \<and> calls tw = cs)"

lemma wrote_snoc: "wrote F cs tr \<Longrightarrow> wrote F (cs @ [c]) (tr @ [(c, r)])"
  unfolding wrote_def by (elim exE conjE, rule_tac x = tr1 in exI, rule_tac x = "tw @ [(c, r)]" in exI) simp

lemma hoare_write_key:
  "hoare (\<lambda>_ _. True) (after tr0 (wrote F cs))
     (case v of None \<Rightarrow> ret ()
      | Some x \<Rightarrow> bnd (sys os (Xenstore (Xs_write 0 key x))) (\<lambda>r. guarded (rv r < 0) (errx os 1 msg)))
     (\<lambda>_. after tr0 (wrote F (cs @ (case v of None \<Rightarrow> [] | Some x \<Rightarrow> [Xenstore (Xs_write 0 key x)]))))"
  unfolding errx_def by (cases v) (auto simp add: hoare_def wp_simps elim!: after_call intro: wrote_snoc)

lemma hoare_send:
  "hoare (\<lambda>_ _. True) (after tr0 F) (send_to_qmemman os u) (\<lambda>_. after tr0 (wrote F (writes_of u)))"
  unfolding send_to_qmemman_def writes_of_def
  by (rule hoare_seq [OF hoare_pre [OF hoare_write_key [where cs = "[]", simplified]] hoare_write_key])
    (auto simp add: after_def wrote_def calls_def)

text \<open>
  C19: An update that returns publishes exactly what the decision says for the memory information
  it read between two equal readings of the domain's size.
\<close>

theorem update_publishes:
  assumes "update os meminfo_fd dom_fd g s = Some (Inr g', t)"
  shows "\<exists>tr tw m d f u. trace t = trace s @ tr @ tw \<and> stable tr meminfo_fd dom_fd m d \<and> reads_fields m f \<and>
    decide g (with_dom_total (c_str d) f) = Some (u, g') \<and> calls tw = writes_of u"
proof -
  have read: "hoare (\<lambda>_ _. True) (after (trace s) (\<lambda>tr. True)) (pread0_string os dom_fd 32)
     (\<lambda>d. after (trace s) (\<lambda>tr. sized tr dom_fd d))"
    unfolding pread0_string_def errx_def by (auto simp add: hoare_def wp_simps sized_def after_def)
  have loop: "hoare (\<lambda>_ _. True) (after (trace s) (\<lambda>tr. sized tr dom_fd d)) (loop (stable_reading os meminfo_fd dom_fd) d)
     (\<lambda>(m, d'). after (trace s) (\<lambda>tr. stable tr meminfo_fd dom_fd m d'))" for d
    by (rule hoare_loop [where I = "\<lambda>d. after (trace s) (\<lambda>tr. sized tr dom_fd d)"])
      (rule hoare_post [OF hoare_stable_reading], auto split: sum.splits)
  have "hoare (\<lambda>_ _. True) (after (trace s) (\<lambda>tr. True)) (update os meminfo_fd dom_fd g)
     (\<lambda>g' t. \<exists>m d f u. after (trace s) (wrote (\<lambda>tr. stable tr meminfo_fd dom_fd m d) (writes_of u)) t \<and>
       reads_fields m f \<and> decide g (with_dom_total (c_str d) f) = Some (u, g'))"
    unfolding update_def
  proof (rule hoare_bnd [OF read], rule hoare_bnd [OF loop], clarsimp)
    fix m d
    show "hoare (\<lambda>_ _. True) (after (trace s) (\<lambda>tr. stable tr meminfo_fd dom_fd m d))
       (bnd (parse g m d) (\<lambda>(meminfo_data, g). seq (send_to_qmemman os meminfo_data) (ret g)))
       (\<lambda>g' t. \<exists>m d f u. after (trace s) (wrote (\<lambda>tr. stable tr meminfo_fd dom_fd m d) (writes_of u)) t \<and>
         reads_fields m f \<and> decide g (with_dom_total (c_str d) f) = Some (u, g'))"
      unfolding parse_def bnd_assoc
    proof (rule hoare_bnd [OF hoare_parse_fields], rule hoare_pull)
      fix f
      assume f: "reads_fields m f"
      show "hoare (\<lambda>_ _. True) (after (trace s) (\<lambda>tr. stable tr meminfo_fd dom_fd m d))
        (bnd (checked (decide g (with_dom_total (c_str d) f))) (\<lambda>(meminfo_data, g). seq (send_to_qmemman os meminfo_data) (ret g)))
        (\<lambda>g' t. \<exists>m d f u. after (trace s) (wrote (\<lambda>tr. stable tr meminfo_fd dom_fd m d) (writes_of u)) t \<and>
          reads_fields m f \<and> decide g (with_dom_total (c_str d) f) = Some (u, g'))"
      proof (cases "decide g (with_dom_total (c_str d) f)")
        case None
        then show ?thesis by (simp add: checked_def hoare_def wp_simps)
      next
        case (Some r)
        obtain u g' where r: "r = (u, g')" by (cases r)
        show ?thesis unfolding Some r
          by (rule hoare_checked [OF refl], unfold prod.case, rule hoare_seq [OF hoare_send], rule hoare_ret)
            (use f Some r in blast)
      qed
    qed
  qed
  from hoare_outcome [OF this _ assms] obtain m d f u where
    "after (trace s) (wrote (\<lambda>tr. stable tr meminfo_fd dom_fd m d) (writes_of u)) t" "reads_fields m f"
    "decide g (with_dom_total (c_str d) f) = Some (u, g')" by (auto simp add: after_def)
  then show ?thesis unfolding after_def wrote_def by blast
qed

text \<open>The file with descriptor 3 holds the text, the other one says nothing about the domain's size.\<close>

definition demo_meminfo_os :: "unit os" where
  "demo_meminfo_os c w =
     (\<lparr>rv = 0, re = 0, rdata = (if c = Device (Pread 3 4095 0) then text_of demo_lines @ [0x58] else []),
       rstat = \<lparr>st_mode = 0, st_size = 0, st_atim_sec = 0, st_atim_nsec = 0, st_mtim_sec = 0, st_mtim_nsec = 0, st_rdev = 0\<rparr>,
       rvfs = (0, 0), rval = 0, rext = zero_ext2\<rparr>, w)"

lemma demo_text_length: "length (text_of demo_lines) = 116"
  by (simp add: text_of_def demo_lines_def line_bytes_def ascii_def)

lemma demo_parse:
  "parse (demo_globals 590) (text_of demo_lines @ [0x58, 0]) [0] s =
     Some (Inr (\<lparr>mem = Some (decimal 620), swap = Some (decimal 20)\<rparr>, demo_globals 620), s)"
  using parse_fields_result [OF demo_completes, of "0x58" "[0]" s]
  by (simp add: parse_def bnd_def isspace_def checked_def with_dom_total_def c_str_def strtoll_def scan_int_def demo_decide ret_def)

lemma demo_update:
  "\<exists>t. update demo_meminfo_os 3 4 (demo_globals 590) \<lparr>world = (), errno = 0, trace = []\<rparr> = Some (Inr (demo_globals 620), t)"
  by (simp add: update_def pread0_string_def stable_reading_def loop.simps bnd_def seq_def sys_def sys_res_def Let_def
      demo_meminfo_os_def demo_text_length ret_def c_str_def demo_parse send_to_qmemman_def guarded_def)

theorem update_publishes_witness:
  "\<exists>t tr tw m d f u. update demo_meminfo_os 3 4 (demo_globals 590) \<lparr>world = (), errno = 0, trace = []\<rparr> =
       Some (Inr (demo_globals 620), t) \<and>
     trace t = tr @ tw \<and> stable tr 3 4 m d \<and> reads_fields m f \<and> decide (demo_globals 590) (with_dom_total (c_str d) f) = Some (u, demo_globals 620) \<and>
     calls tw = writes_of u"
proof -
  from demo_update obtain t where
    run: "update demo_meminfo_os 3 4 (demo_globals 590) \<lparr>world = (), errno = 0, trace = []\<rparr> = Some (Inr (demo_globals 620), t)"
    by blast
  from update_publishes [OF run] obtain tr tw m d f u where "trace t = [] @ tr @ tw" "stable tr 3 4 m d" "reads_fields m f"
    "decide (demo_globals 590) (with_dom_total (c_str d) f) = Some (u, demo_globals 620)" "calls tw = writes_of u"
    by auto
  with run show ?thesis by (intro exI conjI) simp_all
qed

end
