(* ===== verification/Unicode_Generator.thy ===== *)
theory Unicode_Generator
  imports Sys_Common
begin

text \<open>
  The generator of the allowlist, \<open>src/qrexec-lib/unicode-generator.c\<close>.  The Unicode library is a
  parameter: the functions of ICU the generator asks, over enumerations whose constants are
  those of the source; a script is the name of its constant.  Text printed on standard output is
  a \<open>write\<close> to descriptor 1.
\<close>

datatype category =
    U_UNASSIGNED | U_UPPERCASE_LETTER | U_LOWERCASE_LETTER | U_TITLECASE_LETTER | U_MODIFIER_LETTER | U_OTHER_LETTER
  | U_NON_SPACING_MARK | U_ENCLOSING_MARK | U_COMBINING_SPACING_MARK
  | U_DECIMAL_DIGIT_NUMBER | U_LETTER_NUMBER | U_OTHER_NUMBER
  | U_SPACE_SEPARATOR | U_LINE_SEPARATOR | U_PARAGRAPH_SEPARATOR | U_CONTROL_CHAR | U_FORMAT_CHAR | U_PRIVATE_USE_CHAR
  | U_DASH_PUNCTUATION | U_START_PUNCTUATION | U_END_PUNCTUATION | U_CONNECTOR_PUNCTUATION | U_OTHER_PUNCTUATION
  | U_MATH_SYMBOL | U_CURRENCY_SYMBOL | U_MODIFIER_SYMBOL | U_OTHER_SYMBOL
  | U_INITIAL_PUNCTUATION | U_FINAL_PUNCTUATION | U_SURROGATE | Other_category int

datatype direction =
    U_WHITE_SPACE_NEUTRAL | U_OTHER_NEUTRAL | U_EUROPEAN_NUMBER_TERMINATOR | U_EUROPEAN_NUMBER_SEPARATOR
  | U_COMMON_NUMBER_SEPARATOR | U_EUROPEAN_NUMBER | U_LEFT_TO_RIGHT | Other_direction int

datatype script_usage =
    USCRIPT_USAGE_UNKNOWN | USCRIPT_USAGE_RECOMMENDED | USCRIPT_USAGE_NOT_ENCODED | USCRIPT_USAGE_EXCLUDED
  | USCRIPT_USAGE_ASPIRATIONAL | USCRIPT_USAGE_LIMITED_USE | Other_usage int

type_synonym script = string

record icu =
  U_IS_UNICODE_CHAR :: "u32 \<Rightarrow> bool"
  u_charType :: "u32 \<Rightarrow> category"
  u_charDirection :: "u32 \<Rightarrow> direction"
  uscript_getScript :: "u32 \<Rightarrow> int \<times> script"
  uscript_getUsage :: "script \<Rightarrow> script_usage"

section \<open>Permitted code points\<close>

text \<open>\<open>None\<close> is \<open>abort\<close>: the library returned something unexpected.\<close>

fun category_permitted :: "category \<Rightarrow> bool option" where
  "category_permitted U_UNASSIGNED = Some False"
| "category_permitted U_UPPERCASE_LETTER = Some True"
| "category_permitted U_LOWERCASE_LETTER = Some True"
| "category_permitted U_TITLECASE_LETTER = Some True"
| "category_permitted U_MODIFIER_LETTER = Some True"
| "category_permitted U_OTHER_LETTER = Some True"
| "category_permitted U_NON_SPACING_MARK = Some False"
| "category_permitted U_ENCLOSING_MARK = Some False"
| "category_permitted U_COMBINING_SPACING_MARK = Some False"
| "category_permitted U_DECIMAL_DIGIT_NUMBER = Some True"
| "category_permitted U_LETTER_NUMBER = Some True"
| "category_permitted U_OTHER_NUMBER = Some True"
| "category_permitted U_SPACE_SEPARATOR = Some False"
| "category_permitted U_LINE_SEPARATOR = Some False"
| "category_permitted U_PARAGRAPH_SEPARATOR = Some False"
| "category_permitted U_CONTROL_CHAR = Some False"
| "category_permitted U_FORMAT_CHAR = Some False"
| "category_permitted U_PRIVATE_USE_CHAR = Some False"
| "category_permitted U_DASH_PUNCTUATION = Some True"
| "category_permitted U_START_PUNCTUATION = Some True"
| "category_permitted U_END_PUNCTUATION = Some True"
| "category_permitted U_CONNECTOR_PUNCTUATION = Some True"
| "category_permitted U_OTHER_PUNCTUATION = Some True"
| "category_permitted U_MATH_SYMBOL = Some True"
| "category_permitted U_CURRENCY_SYMBOL = Some True"
| "category_permitted U_MODIFIER_SYMBOL = Some False"
| "category_permitted U_OTHER_SYMBOL = Some False"
| "category_permitted U_INITIAL_PUNCTUATION = Some True"
| "category_permitted U_FINAL_PUNCTUATION = Some True"
| "category_permitted U_SURROGATE = None"
| "category_permitted (Other_category n) = None"

fun direction_permitted :: "direction \<Rightarrow> bool" where
  "direction_permitted (Other_direction n) = False"
| "direction_permitted _ = True"

fun usage_permitted :: "script_usage \<Rightarrow> bool option" where
  "usage_permitted USCRIPT_USAGE_UNKNOWN = Some True"
| "usage_permitted USCRIPT_USAGE_RECOMMENDED = Some True"
| "usage_permitted USCRIPT_USAGE_NOT_ENCODED = Some False"
| "usage_permitted USCRIPT_USAGE_EXCLUDED = Some False"
| "usage_permitted USCRIPT_USAGE_ASPIRATIONAL = Some False"
| "usage_permitted USCRIPT_USAGE_LIMITED_USE = Some False"
| "usage_permitted (Other_usage n) = None"

text \<open>The scripts that are named, in the order of the source; all other scripts are rejected.\<close>

definition permitted_scripts :: "script list" where
  "permitted_scripts =
     [''USCRIPT_INHERITED'', ''USCRIPT_CYRILLIC'', ''USCRIPT_GREEK'', ''USCRIPT_LATIN'',
      ''USCRIPT_BRAILLE'', ''USCRIPT_SIMPLIFIED_HAN'', ''USCRIPT_TRADITIONAL_HAN'',
      ''USCRIPT_HAN'', ''USCRIPT_HAN_WITH_BOPOMOFO'', ''USCRIPT_JAMO'', ''USCRIPT_HANGUL'',
      ''USCRIPT_BOPOMOFO'', ''USCRIPT_KATAKANA_OR_HIRAGANA'', ''USCRIPT_HIRAGANA'',
      ''USCRIPT_KATAKANA'', ''USCRIPT_JAPANESE'', ''USCRIPT_KOREAN'', ''USCRIPT_COMMON'']"

definition dead_scripts :: "script list" where
  "dead_scripts =
     [''USCRIPT_DESERET'', ''USCRIPT_COPTIC'', ''USCRIPT_LINEAR_B'', ''USCRIPT_ETHIOPIC'',
      ''USCRIPT_GOTHIC'', ''USCRIPT_OGHAM'', ''USCRIPT_OLD_ITALIC'', ''USCRIPT_UGARITIC'',
      ''USCRIPT_GLAGOLITIC'', ''USCRIPT_KHAROSHTHI'', ''USCRIPT_OLD_PERSIAN'',
      ''USCRIPT_HIERATIC_EGYPTIAN'', ''USCRIPT_EGYPTIAN_HIEROGLYPHS'', ''USCRIPT_LINEAR_A'',
      ''USCRIPT_DEMOTIC_EGYPTIAN'', ''USCRIPT_BRAHMI'', ''USCRIPT_KHUTSURI'',
      ''USCRIPT_OLD_HUNGARIAN'', ''USCRIPT_HARAPPAN_INDUS'', ''USCRIPT_MAYAN_HIEROGLYPHS'',
      ''USCRIPT_MEROITIC_HIEROGLYPHS'', ''USCRIPT_OLD_PERMIC'', ''USCRIPT_PHOENICIAN'',
      ''USCRIPT_ORKHON'', ''USCRIPT_RONGORONGO'', ''USCRIPT_CUNEIFORM'', ''USCRIPT_CARIAN'',
      ''USCRIPT_LYCIAN'', ''USCRIPT_LYDIAN'', ''USCRIPT_REJANG'', ''USCRIPT_IMPERIAL_ARAMAIC'',
      ''USCRIPT_AVESTAN'', ''USCRIPT_KAITHI'', ''USCRIPT_INSCRIPTIONAL_PAHLAVI'',
      ''USCRIPT_PSALTER_PAHLAVI'', ''USCRIPT_BOOK_PAHLAVI'', ''USCRIPT_SAMARITAN'',
      ''USCRIPT_INSCRIPTIONAL_PARTHIAN'', ''USCRIPT_ELBASAN'', ''USCRIPT_CAUCASIAN_ALBANIAN'',
      ''USCRIPT_PALMYRENE'', ''USCRIPT_NABATAEAN'', ''USCRIPT_HATRAN'',
      ''USCRIPT_MEROITIC_CURSIVE'', ''USCRIPT_OLD_SOUTH_ARABIAN'', ''USCRIPT_OLD_NORTH_ARABIAN'',
      ''USCRIPT_OLD_CHURCH_SLAVONIC_CYRILLIC'', ''USCRIPT_OLD_SOGDIAN'', ''USCRIPT_SOGDIAN'',
      ''USCRIPT_CHORASMIAN'', ''USCRIPT_ELYMAIC'', ''USCRIPT_MAHAJANI'', ''USCRIPT_JURCHEN'',
      ''USCRIPT_TANGUT'', ''USCRIPT_WOLEAI'', ''USCRIPT_ANATOLIAN_HIEROGLYPHS'',
      ''USCRIPT_KHOJKI'', ''USCRIPT_MULTANI'', ''USCRIPT_MODI'', ''USCRIPT_AHOM'',
      ''USCRIPT_DOGRA'', ''USCRIPT_BHAIKSUKI'', ''USCRIPT_MARCHEN'', ''USCRIPT_ZANABAZAR_SQUARE'',
      ''USCRIPT_DIVES_AKURU'', ''USCRIPT_MAKASAR'', ''USCRIPT_NANDINAGARI'',
      ''USCRIPT_KHITAN_SMALL_SCRIPT'']"

definition right_to_left_scripts :: "script list" where
  "right_to_left_scripts =
     [''USCRIPT_MENDE'', ''USCRIPT_MANDAIC'', ''USCRIPT_ARABIC'', ''USCRIPT_HEBREW'',
      ''USCRIPT_NKO'', ''USCRIPT_HANIFI_ROHINGYA'', ''USCRIPT_NUSHU'', ''USCRIPT_ADLAM'']"

definition complex_scripts :: "script list" where
  "complex_scripts =
     [''USCRIPT_DEVANAGARI'', ''USCRIPT_SYRIAC'', ''USCRIPT_BENGALI'', ''USCRIPT_BALINESE'',
      ''USCRIPT_ESTRANGELO_SYRIAC'', ''USCRIPT_WESTERN_SYRIAC'', ''USCRIPT_EASTERN_SYRIAC'',
      ''USCRIPT_GUJARATI'', ''USCRIPT_GURMUKHI'', ''USCRIPT_KANNADA'', ''USCRIPT_KHMER'',
      ''USCRIPT_MALAYALAM'', ''USCRIPT_MONGOLIAN'', ''USCRIPT_MYANMAR'', ''USCRIPT_THAI'',
      ''USCRIPT_SINHALA'', ''USCRIPT_TAMIL'', ''USCRIPT_TELUGU'', ''USCRIPT_THAANA'',
      ''USCRIPT_TIBETAN'', ''USCRIPT_ORIYA'', ''USCRIPT_PHAGS_PA'', ''USCRIPT_LIMBU'',
      ''USCRIPT_LAO'', ''USCRIPT_TAGALOG'', ''USCRIPT_BUHID'', ''USCRIPT_TAI_LE'',
      ''USCRIPT_BUGINESE'', ''USCRIPT_BATAK'', ''USCRIPT_CHAM'', ''USCRIPT_JAVANESE'',
      ''USCRIPT_LEPCHA'', ''USCRIPT_MIAO'', ''USCRIPT_LANNA'', ''USCRIPT_SAURASHTRA'',
      ''USCRIPT_CHAKMA'', ''USCRIPT_TAI_VIET'', ''USCRIPT_KHUDAWADI'', ''USCRIPT_TAKRI'',
      ''USCRIPT_NEWA'', ''USCRIPT_SOYOMBO'', ''USCRIPT_SIGN_WRITING'']"

definition script_permitted :: "script \<Rightarrow> bool" where
  "script_permitted s =
     (if s \<in> set permitted_scripts then True
      else if s \<in> set dead_scripts then False
      else if s \<in> set right_to_left_scripts then False
      else if s \<in> set complex_scripts then False
      else False)"

definition is_permitted_code_point :: "icu \<Rightarrow> u32 \<Rightarrow> bool option" where
  "is_permitted_code_point icu code_point =
     (if \<not> U_IS_UNICODE_CHAR icu code_point then Some False
      else if code_point < 0x20 then Some False
      else if code_point < 0x7F then Some True
      else
        Option.bind (category_permitted (u_charType icu code_point)) (\<lambda>c.
        if \<not> c then Some False
        else if \<not> direction_permitted (u_charDirection icu code_point) then Some False
        else
          case uscript_getScript icu code_point of (errcode, script) \<Rightarrow>
            if errcode \<noteq> 0 then None
            else
              Option.bind (usage_permitted (uscript_getUsage icu script)) (\<lambda>u.
              if \<not> u then Some False else Some (script_permitted script))))"

section \<open>The table\<close>

text \<open>The conversion \<open>0x%06x\<close>, and the texts around it.\<close>

definition hex6 :: "u32 \<Rightarrow> bytes" where
  "hex6 v = ascii ''0x'' @ replicate (6 - length (hex (unat v))) 0x30 @ hex (unat v)"

definition case_text :: "u32 \<Rightarrow> bytes" where
  "case_text v = ascii ''    case '' @ hex6 v"

definition range_text :: "u32 \<Rightarrow> bytes" where
  "range_text v = ascii '' ... '' @ hex6 v @ ascii '':'' @ [0x0A]"

definition single_text :: bytes where
  "single_text = ascii '':'' @ [0x0A]"

text \<open>One code point: the end of the loop, or the next one, whether it was allowed, and the start of the range.\<close>

definition print_step :: "icu \<Rightarrow> 'w os \<Rightarrow> u32 \<times> bool \<times> u32 \<Rightarrow> ('w sys, (u32 \<times> bool \<times> u32) + bool) prog" where
  "print_step icu os = (\<lambda>(v, last_allowed, range_start).
     if \<not> v < 0x110000 then ret (Inr last_allowed)
     else
       bnd (checked (is_permitted_code_point icu v)) (\<lambda>this_allowed.
       seq (guarded (v < 0x7F) (assert_c this_allowed))
       (if this_allowed = last_allowed then ret (Inl (v + 1, last_allowed, range_start))
        else if this_allowed then
          bnd (sys os (Write 1 (case_text v))) (\<lambda>r.
          if rv r \<noteq> 17 then errx os 1 ''fprintf()'' else ret (Inl (v + 1, this_allowed, v)))
        else if v - range_start > 1 then
          bnd (sys os (Write 1 (range_text (v - 1)))) (\<lambda>r.
          if rv r \<noteq> 15 then errx os 1 ''fprintf()'' else ret (Inl (v + 1, this_allowed, range_start)))
        else
          bnd (sys os (Write 1 single_text)) (\<lambda>r.
          if rv r \<noteq> 2 then errx os 1 ''fprintf()'' else ret (Inl (v + 1, this_allowed, range_start))))))"

definition print_code_point_list :: "icu \<Rightarrow> 'w os \<Rightarrow> ('w sys, unit) prog" where
  "print_code_point_list icu os =
     bnd (loop (print_step icu os) (0x20, False, 0)) (\<lambda>last_allowed.
     seq (guarded last_allowed (errx os 1 ''BUG: should not allow 0x10FFFF''))
     (bnd (sys os (Device Fflush)) (\<lambda>r.
      if rv r \<noteq> 0 then errx os 1 ''fflush()''
      else
        bnd (sys os (Device (Fsync 1))) (\<lambda>r.
        bnd (gets errno) (\<lambda>e.
        if rv r = 0 then ret ()
        else if rv r = -1 then guarded (e \<noteq> EROFS \<and> e \<noteq> EINVAL) (errx os 1 ''fsync()'')
        else halt Abort)))))"

definition unicode_generator :: "icu \<Rightarrow> 'w os \<Rightarrow> bytes list \<Rightarrow> ('w sys, int) prog" where
  "unicode_generator icu os argv =
     (if length argv \<noteq> 1 then errx os 1 ''No arguments expected''
      else seq (print_code_point_list icu os) (ret 0))"

end
