(* ===== verification/Unicode_Generator_Props.thy ===== *)
theory Unicode_Generator_Props
  imports Unicode_Generator Unicode_Allowlist Sys_Reason
begin

text \<open>
  Correctness of the generator: what it prints is a list of separated ranges that hold exactly the
  permitted code points, and a switch over such a list decides what the generator decides.
\<close>

section \<open>Tables\<close>

type_synonym ranges = "(nat \<times> nat) list"

definition covered :: "ranges \<Rightarrow> nat \<Rightarrow> bool" where
  "covered rs n \<longleftrightarrow> list_ex (\<lambda>(lo, hi). lo \<le> n \<and> n \<le> hi) rs"

text \<open>Ranges from 0x20 on in ascending order, with a gap between two of them, below a bound.\<close>

definition separated :: "ranges \<Rightarrow> nat \<Rightarrow> bool" where
  "separated rs b \<longleftrightarrow> sorted_wrt (\<lambda>(lo, hi) (lo', hi'). hi + 1 < lo') rs \<and>
     list_all (\<lambda>(lo, hi). 0x20 \<le> lo \<and> lo \<le> hi \<and> hi + 1 < b) rs"

definition entry_text :: "nat \<times> nat \<Rightarrow> bytes" where
  "entry_text = (\<lambda>(lo, hi). case_text (word_of_nat lo) @
     (if lo < hi then range_text (word_of_nat hi) else single_text))"

definition table_text :: "ranges \<Rightarrow> bytes" where
  "table_text rs = concat (map entry_text rs)"

definition decides :: "icu \<Rightarrow> ranges \<Rightarrow> nat \<Rightarrow> bool" where
  "decides icu rs b \<longleftrightarrow> (\<forall>n. 0x20 \<le> n \<longrightarrow> n < b \<longrightarrow> is_permitted_code_point icu (word_of_nat n) = Some (covered rs n))"

section \<open>The loop\<close>

text \<open>Before the code point \<open>n\<close>; a range may be open.\<close>

definition printed :: "icu \<Rightarrow> nat \<Rightarrow> bool \<Rightarrow> nat \<Rightarrow> (syscall \<times> response) list \<Rightarrow> bool" where
  "printed icu n open_range start tr \<longleftrightarrow>
     (\<exists>rs. written_to 1 tr = table_text rs @ (if open_range then case_text (word_of_nat start) else []) \<and>
        (if open_range then separated rs start \<and> 0x20 \<le> start \<and> start < n \<and> decides icu (rs @ [(start, n - 1)]) n
         else separated rs n \<and> decides icu rs n))"

lemma covered_append [simp]: "covered (rs @ rs') n \<longleftrightarrow> covered rs n \<or> covered rs' n" "covered [] n \<longleftrightarrow> False"
  "covered ((lo, hi) # rs) n \<longleftrightarrow> lo \<le> n \<and> n \<le> hi \<or> covered rs n"
  by (simp_all add: covered_def)

lemma separated_covered: "separated rs b \<Longrightarrow> covered rs n \<Longrightarrow> n + 1 < b"
  by (auto simp add: separated_def covered_def list_ex_iff list_all_iff)

lemma separated_mono: "separated rs b \<Longrightarrow> b \<le> b' \<Longrightarrow> separated rs b'"
  by (auto simp add: separated_def list_all_iff)

lemma separated_snoc:
  "separated rs lo \<Longrightarrow> 0x20 \<le> lo \<Longrightarrow> lo \<le> hi \<Longrightarrow> hi + 1 < b \<Longrightarrow> separated (rs @ [(lo, hi)]) b"
  by (fastforce simp add: separated_def list_all_iff sorted_wrt_append)

lemma decides_Suc:
  "decides icu rs n \<Longrightarrow> (\<And>m. 0x20 \<le> m \<Longrightarrow> m < n \<Longrightarrow> covered rs' m = covered rs m) \<Longrightarrow>
   is_permitted_code_point icu (word_of_nat n) = Some (covered rs' n) \<Longrightarrow> decides icu rs' (n + 1)"
  by (auto simp add: decides_def less_Suc_eq)

lemma table_text_snoc [simp]: "table_text (rs @ [r]) = table_text rs @ entry_text r" "table_text [] = []"
  by (simp_all add: table_text_def)

lemma written_all: "int (length b) = rv r \<Longrightarrow> written_by 1 (Write 1 b, r) = b"
  by simp

lemma length_hex6: "unat v < 16 ^ 6 \<Longrightarrow> length (hex6 v) = 8"
  using length_hex [of "unat v" 6] by (simp add: hex6_def ascii_def)

lemma length_texts:
  "unat v < 16 ^ 6 \<Longrightarrow> length (case_text v) = 17" "unat v < 16 ^ 6 \<Longrightarrow> length (range_text v) = 15"
  "length single_text = 2"
  by (simp_all add: case_text_def range_text_def single_text_def length_hex6 ascii_def)

lemma word_unat: "n < 0x110000 \<Longrightarrow> unat (word_of_nat n :: u32) = n"
  by (simp add: unat_word_of_nat_small)

lemma printed_same:
  assumes "printed icu n b st tr" and "is_permitted_code_point icu (word_of_nat n) = Some b" and "0x20 \<le> n"
  shows "printed icu (n + 1) b st tr"
proof -
  from assms(1) obtain rs where w: "written_to 1 tr = table_text rs @ (if b then case_text (word_of_nat st) else [])"
    and r: "if b then separated rs st \<and> 0x20 \<le> st \<and> st < n \<and> decides icu (rs @ [(st, n - 1)]) n
       else separated rs n \<and> decides icu rs n" unfolding printed_def by blast
  show ?thesis
  proof (cases b)
    case True
    with r have "decides icu (rs @ [(st, n)]) (n + 1)"
      using assms(2) by (intro decides_Suc [of icu "rs @ [(st, n - 1)]"]) auto
    with True r w show ?thesis unfolding printed_def by (intro exI [of _ rs]) simp
  next
    case False
    with r assms(2) have "decides icu rs (n + 1)"
      by (intro decides_Suc [of icu rs]) (auto dest: separated_covered)
    with False r w show ?thesis unfolding printed_def by (intro exI [of _ rs]) (auto intro: separated_mono)
  qed
qed

lemma printed_open:
  assumes "printed icu n False st tr" and "is_permitted_code_point icu (word_of_nat n) = Some True" and "0x20 \<le> n"
    and "n < 0x110000" and "rv r = 17"
  shows "printed icu (n + 1) True n (tr @ [(Write 1 (case_text (word_of_nat n)), r)])"
proof -
  from assms(1) obtain rs where w: "written_to 1 tr = table_text rs" and r: "separated rs n" "decides icu rs n"
    unfolding printed_def by auto
  have "decides icu (rs @ [(n, n)]) (n + 1)" using r(2) assms(2) by (intro decides_Suc [of icu rs]) auto
  moreover have "length (case_text (word_of_nat n)) = 17" using assms(4) by (intro length_texts) (simp add: word_unat)
  ultimately show ?thesis using w r assms(3,5) unfolding printed_def by (intro exI [of _ rs]) simp
qed

lemma printed_close:
  assumes "printed icu n True st tr" and "is_permitted_code_point icu (word_of_nat n) = Some False"
    and "n < 0x110000" and "written_by 1 ev = (if n - st > 1 then range_text (word_of_nat (n - 1)) else single_text)"
  shows "printed icu (n + 1) False st' (tr @ [ev])"
proof -
  from assms(1) obtain rs where w: "written_to 1 tr = table_text rs @ case_text (word_of_nat st)"
    and r: "separated rs st" "0x20 \<le> st" "st < n" "decides icu (rs @ [(st, n - 1)]) n" unfolding printed_def by auto
  have "decides icu (rs @ [(st, n - 1)]) (n + 1)"
    using r assms(2) by (intro decides_Suc [OF r(4)]) (auto dest: separated_covered)
  moreover have "separated (rs @ [(st, n - 1)]) (n + 1)" using r by (intro separated_snoc) auto
  moreover have "written_to 1 (tr @ [ev]) = table_text (rs @ [(st, n - 1)])"
    using w assms(4) r(3) by (auto simp add: entry_text_def)
  ultimately show ?thesis unfolding printed_def by (intro exI [of _ "rs @ [(st, n - 1)]"]) simp
qed

definition at_point :: "icu \<Rightarrow> (syscall \<times> response) list \<Rightarrow> u32 \<times> bool \<times> u32 \<Rightarrow> 'w sys \<Rightarrow> bool" where
  "at_point icu tr0 = (\<lambda>(v, last_allowed, range_start) t.
     unat v \<le> 0x110000 \<and> 0x20 \<le> unat v \<and> after tr0 (printed icu (unat v) last_allowed (unat range_start)) t)"

lemma unat_next: "v < 0x110000 \<Longrightarrow> unat (v + 1 :: u32) = unat v + 1"
  by (simp add: word_less_nat_alt unat_word_ariths)

lemma print_step_point:
  "hoare (\<lambda>_ _. True) (at_point icu tr0 x) (print_step icu os x)
     (\<lambda>r t. case r of Inl y \<Rightarrow> at_point icu tr0 y t
      | Inr last_allowed \<Rightarrow> \<exists>st. after tr0 (printed icu 0x110000 last_allowed st) t)"
proof (rule hoareI)
  fix t :: "'a sys"
  obtain v l st where x: "x = (v, l, st)" by (cases x)
  assume "at_point icu tr0 x t"
  then have p: "unat v \<le> 0x110000" "0x20 \<le> unat v" and a: "after tr0 (printed icu (unat v) l (unat st)) t"
    by (simp_all add: x at_point_def)
  let ?Q = "\<lambda>r t. case r of Inl y \<Rightarrow> at_point icu tr0 y t
      | Inr last_allowed \<Rightarrow> \<exists>st. after tr0 (printed icu 0x110000 last_allowed st) t"
  show "wp (print_step icu os x) ?Q (\<lambda>_ _. True) t"
  proof (cases "v < 0x110000")
    case False
    with p(1) have "unat v = 0x110000" by (simp add: word_less_nat_alt)
    with False a show ?thesis by (auto simp add: x print_step_def wp_simps)
  next
    case v: True
    then have n: "unat v < 0x110000" by (simp add: word_less_nat_alt)
    note nxt = unat_next [OF v]
    show ?thesis
    proof (cases "is_permitted_code_point icu v")
      case None
      with v show ?thesis by (simp add: x print_step_def wp_simps checked_def)
    next
      case (Some b)
      have same: "after tr0 (printed icu (unat v + 1) l (unat st)) t" if "b = l"
        using a printed_same [of icu "unat v" l] Some that p(2) unfolding after_def by auto
      have opened: "after tr0 (printed icu (unat v + 1) True (unat v)) (sys_upd w e [(Write 1 (case_text v), r)] t)"
        if "b" "\<not> l" "rv r = 17" for w e r
        using a printed_open [of icu "unat v" "unat st" _ r] Some that p(2) n by (elim after_call) simp
      have closed: "after tr0 (printed icu (unat v + 1) False (unat st)) (sys_upd w e [ev] t)"
        if "\<not> b" "l" "written_by 1 ev = (if v - st > 1 then range_text (v - 1) else single_text)" for w e ev
      proof -
        from a \<open>l\<close> obtain tr where tr: "trace t = tr0 @ tr" "printed icu (unat v) True (unat st) tr" by (auto simp add: after_def)
        then have lt: "unat st < unat v" by (auto simp add: printed_def)
        then have "unat (v - st) = unat v - unat st" by (simp add: unat_sub word_le_nat_alt)
        then have "v - st > 1 \<longleftrightarrow> unat v - unat st > 1" by (simp add: word_less_nat_alt)
        moreover have "word_of_nat (unat v - 1) = v - 1" using p(2) by (simp add: of_nat_diff)
        ultimately have "printed icu (unat v + 1) False (unat st) (tr @ [ev])"
          using tr(2) Some that n by (intro printed_close) auto
        with tr(1) show ?thesis by (auto simp add: after_def)
      qed
      note same = same [unfolded Suc_eq_plus1 [symmetric]] and opened = opened [unfolded Suc_eq_plus1 [symmetric]]
        and closed = closed [unfolded Suc_eq_plus1 [symmetric]]
      note run = x print_step_def wp_simps checked_def assert_c_def errx_def at_point_def nxt v Some
      consider "b = l" | "b" "\<not> l" | "\<not> b" "l" by blast
      then show ?thesis
      proof cases
        case 1
        with same p n show ?thesis by (cases l) (simp_all add: run)
      next
        case 2
        with opened p n show ?thesis by (simp add: run)
      next
        case 3
        have "rv r = int (length b) \<Longrightarrow> written_by 1 (Write 1 b, r) = b" for r b by simp
        moreover have "unat (v - 1) < 16 ^ 6" using n p(2) by (simp add: unat_sub word_le_nat_alt)
        ultimately show ?thesis using 3 closed p n length_texts
          by (simp add: run)
      qed
    qed
  qed
qed

lemma ends_print_loop: "0x20 \<le> unat v \<Longrightarrow> loop (print_step icu os) (v, l, st) s \<noteq> None"
proof (rule twp_terminates [where Q = "\<lambda>_ _. True" and E = "\<lambda>_ _. True"],
    rule loop_twp [where I = "\<lambda>_ _. True" and R = "measure (\<lambda>((v, _), _). 0x110000 - unat v)"])
  fix x :: "u32 \<times> bool \<times> u32" and t :: "'a sys"
  obtain v l st where x: "x = (v, l, st)" by (cases x)
  show "twp (print_step icu os x) (\<lambda>r u. case r of
      Inl y \<Rightarrow> True \<and> ((y, u), (x, t)) \<in> measure (\<lambda>((v, _), _). 0x110000 - unat v) | Inr a \<Rightarrow> True) (\<lambda>_ _. True) t"
  proof (cases "v < 0x110000")
    case v: True
    then have "0x110000 - unat (v + 1) < 0x110000 - unat v" by (simp add: unat_next word_less_nat_alt)
    with v show ?thesis unfolding x
      by (auto simp add: print_step_def wp_simps checked_def assert_c_def errx_def split: option.split)
  qed (simp add: x print_step_def wp_simps)
qed simp_all

section \<open>Theorems\<close>

text \<open>
  C18: The generator ends; when it succeeds, what it printed is the table of separated ranges that
  hold exactly the code points it permits.
\<close>

theorem print_code_point_list_exact:
  "\<exists>r t tr. print_code_point_list icu os s = Some (r, t) \<and> trace t = trace s @ tr \<and>
     (case r of Inl e \<Rightarrow> True
      | Inr u \<Rightarrow> \<exists>rs. written_to 1 tr = table_text rs \<and> separated rs 0x110000 \<and> decides icu rs 0x110000)"
proof -
  let ?F = "\<lambda>tr. \<exists>rs. written_to 1 tr = table_text rs \<and> separated rs 0x110000 \<and> decides icu rs 0x110000"
  have keep: "hoare (\<lambda>_. made (\<lambda>_. True) (trace s)) (made (\<lambda>_. True) (trace s)) (print_code_point_list icu os) (\<lambda>_. made (\<lambda>_. True) (trace s))"
    unfolding print_code_point_list_def print_step_def errx_def
    by (intro keep_intros keep_loop makes_say makes_halt; simp)
  have "ends (print_code_point_list icu os)"
    unfolding print_code_point_list_def
    by (intro ends_intros) (simp add: ends_def ends_print_loop)
  then obtain r t where run: "print_code_point_list icu os s = Some (r, t)" by (blast dest: ends_runs)
  have "made (\<lambda>_. True) (trace s) s" by (simp add: made_def)
  from hoare_run [OF keep this run] obtain tr where tr: "trace t = trace s @ tr" by (auto simp add: made_def)
  have "hoare (\<lambda>_ _. True) (\<lambda>t. t = s) (print_code_point_list icu os) (\<lambda>_. after (trace s) ?F)"
    unfolding print_code_point_list_def
  proof (rule hoare_bnd [OF hoare_pre [OF hoare_loop [OF print_step_point]]])
    show "at_point icu (trace s) (0x20, False, 0) t" if "t = s" for t
    proof -
      have "printed icu 0x20 False 0 []"
        unfolding printed_def by (intro exI [of _ "[]"]) (simp add: table_text_def separated_def decides_def)
      with that show ?thesis by (simp add: at_point_def after_def)
    qed
    show "hoare (\<lambda>_ _. True) (\<lambda>t. \<exists>st. after (trace s) (printed icu 0x110000 l st) t)
      (seq (guarded l (errx os 1 ''BUG: should not allow 0x10FFFF''))
      (bnd (sys os (Device Fflush)) (\<lambda>r.
        if rv r \<noteq> 0 then errx os 1 ''fflush()''
        else
          bnd (sys os (Device (Fsync 1))) (\<lambda>r.
          bnd (gets errno) (\<lambda>e.
          if rv r = 0 then ret ()
          else if rv r = -1 then guarded (e \<noteq> EROFS \<and> e \<noteq> EINVAL) (errx os 1 ''fsync()'')
          else halt Abort))))) (\<lambda>_. after (trace s) ?F)" for l
      by (cases l) (auto simp add: hoare_def wp_simps errx_def after_def printed_def)
  qed
  from hoare_outcome [OF this refl run] tr have "case r of Inl e \<Rightarrow> True | Inr u \<Rightarrow> ?F tr"
    by (cases r) (auto simp add: after_def)
  with run tr show ?thesis by (intro exI conjI)
qed

text \<open>
  A switch over a table that decides what the generator decides accepts exactly the code points
  the generator permits.
\<close>

theorem generated_table_decides:
  assumes "decides icu rs 0x110000"
    and "unicode_allowlist_table = map (\<lambda>(lo, hi). (word_of_nat lo, word_of_nat hi)) rs"
    and "list_all (\<lambda>(lo, hi). hi < 0x110000 \<and> lo \<le> hi) rs" and "0x20 \<le> unat c" and "unat c < 0x110000"
  shows "is_permitted_code_point icu c = Some (qubes_pure_code_point_safe_for_display c)"
proof -
  have range: "(word_of_nat (fst r) \<le> c \<and> c \<le> word_of_nat (snd r)) = (fst r \<le> unat c \<and> unat c \<le> snd r)" if "r \<in> set rs" for r
    using assms(3) that by (auto simp add: list_all_iff word_le_nat_alt word_unat)
  have "qubes_pure_code_point_safe_for_display c \<longleftrightarrow> covered rs (unat c)"
    unfolding qubes_pure_code_point_safe_for_display_def covered_def assms(2) list_ex_iff
    by (simp add: split_def range cong: bex_cong)
  moreover have "is_permitted_code_point icu c = Some (covered rs (unat c))"
    using assms(1) [unfolded decides_def, rule_format, of "unat c"] assms(4,5) by simp
  ultimately show ?thesis by simp
qed

text \<open>A library under which exactly the code points of the table are assigned Latin letters.\<close>

definition demo_icu :: icu where
  "demo_icu = \<lparr>U_IS_UNICODE_CHAR = qubes_pure_code_point_safe_for_display, u_charType = (\<lambda>_. U_OTHER_LETTER),
     u_charDirection = (\<lambda>_. U_LEFT_TO_RIGHT), uscript_getScript = (\<lambda>_. (0, ''USCRIPT_LATIN'')),
     uscript_getUsage = (\<lambda>_. USCRIPT_USAGE_RECOMMENDED)\<rparr>"

lemma demo_permitted: "0x20 \<le> c \<Longrightarrow> is_permitted_code_point demo_icu c = Some (qubes_pure_code_point_safe_for_display c)"
  by (auto simp add: is_permitted_code_point_def demo_icu_def script_permitted_def permitted_scripts_def dest: leD)

lemma demo_table: "list_all (\<lambda>(lo, hi). hi < 0x110000 \<and> lo \<le> hi) (map (\<lambda>(lo, hi). (unat lo, unat hi)) unicode_allowlist_table)"
  using table_ranges_ok by (auto simp add: list_all_iff range_ok_def)

lemma demo_decides: "decides demo_icu (map (\<lambda>(lo, hi). (unat lo, unat hi)) unicode_allowlist_table) 0x110000"
  unfolding decides_def covered_def
  by (auto simp add: demo_permitted word_le_nat_alt word_unat qubes_pure_code_point_safe_for_display_def list_ex_iff split: prod.splits)

theorem generated_table_decides_witness:
  "is_permitted_code_point demo_icu 0x41 = Some (qubes_pure_code_point_safe_for_display 0x41)"
  by (rule generated_table_decides [OF demo_decides _ demo_table]) (simp_all add: o_def split_def)

end
