(* ===== verification/Genfs.thy ===== *)
theory Genfs
  imports Sys_Common
begin

text \<open>
  The tool that normalises and labels a file system of kernel modules,
  \<open>src/kernel-modules/genfs.c\<close>.  The library \<open>libext2fs\<close> answers as the environment: a call returns
  its error code in \<open>rv\<close> (0 is success), a pointer or a number it delivers in \<open>rval\<close>, and a
  structure in \<open>rext\<close>.  The superblock in memory is a value passed along and given to \<open>ext2fs_close\<close>
  at the end, together with \<open>fs->now\<close> when it was assigned.
\<close>

unbundle bit_operations_syntax

section \<open>Constants\<close>

definition EXT2_ROOT_INO :: u32 where "EXT2_ROOT_INO = 2"
definition EXT2_DYNAMIC_REV :: u32 where "EXT2_DYNAMIC_REV = 1"
definition EXT2_IMMUTABLE_FL :: u32 where "EXT2_IMMUTABLE_FL = 0x10"
definition EXT2_NAME_LEN :: nat where "EXT2_NAME_LEN = 255"
definition EXT2_FT_REG_FILE :: u8 where "EXT2_FT_REG_FILE = 1"
definition EXT2_FT_DIR :: u8 where "EXT2_FT_DIR = 2"

definition LINUX_S_ISREG :: "u16 \<Rightarrow> bool" where "LINUX_S_ISREG m \<longleftrightarrow> m AND 0xF000 = 0x8000"
definition LINUX_S_ISLNK :: "u16 \<Rightarrow> bool" where "LINUX_S_ISLNK m \<longleftrightarrow> m AND 0xF000 = 0xA000"
definition LINUX_S_ISDIR :: "u16 \<Rightarrow> bool" where "LINUX_S_ISDIR m \<longleftrightarrow> m AND 0xF000 = 0x4000"
definition group_or_world_writable :: u16 where "group_or_world_writable = 0x12"

definition label_modules_object :: bytes where "label_modules_object = ascii ''system_u:object_r:modules_object_t:s0''"
definition label_modules_dep :: bytes where "label_modules_dep = ascii ''system_u:object_r:modules_dep_t:s0''"
definition label_usr :: bytes where "label_usr = ascii ''system_u:object_r:usr_t:s0''"
definition label_lib :: bytes where "label_lib = ascii ''system_u:object_r:lib_t:s0''"

section \<open>Errors and inodes\<close>

definition genfs_err :: "'w os \<Rightarrow> string \<Rightarrow> ('w sys, 'a) prog" where
  "genfs_err os msg = errx os EXIT_FAILURE msg"

definition genfs_err_inode :: "'w os \<Rightarrow> string \<Rightarrow> ('w sys, 'a) prog" where
  "genfs_err_inode os msg = genfs_err os msg"

definition qubes_write_inode_full :: "'w os \<Rightarrow> u32 \<Rightarrow> ext2_inode \<Rightarrow> ('w sys, response) prog" where
  "qubes_write_inode_full os ino inode = sys os (Ext2 (Ext2_write_inode ino inode))"

definition qubes_read_inode_full :: "'w os \<Rightarrow> u32 \<Rightarrow> ('w sys, response) prog" where
  "qubes_read_inode_full os ino = sys os (Ext2 (Ext2_read_inode ino))"

definition security_selinux :: bytes where "security_selinux = ascii ''security.selinux''"

definition set_label :: "'w os \<Rightarrow> u32 \<Rightarrow> bytes \<Rightarrow> ('w sys, unit) prog" where
  "set_label os inode selinux_label =
     bnd (sys os (Ext2 (Xattrs_open inode))) (\<lambda>h.
     if rv h \<noteq> 0 \<or> rval h = 0 then genfs_err_inode os ''opening xattrs''
     else
       bnd (sys os (Ext2 (Xattrs_read (rval h)))) (\<lambda>e.
       if rv e \<noteq> 0 then genfs_err_inode os ''reading extended attributes''
       else
         bnd (sys os (Ext2 (Xattr_set (rval h) security_selinux selinux_label))) (\<lambda>e.
         if rv e \<noteq> 0 then genfs_err_inode os ''setting SELinux label''
         else
           bnd (sys os (Ext2 (Xattrs_count (rval h)))) (\<lambda>e.
           if rv e \<noteq> 0 then genfs_err_inode os ''obtaining xattr count''
           else if rval e \<noteq> 1 then errx os 1 ''wrong number of xattrs''
           else
             bnd (sys os (Ext2 (Xattrs_close (rval h)))) (\<lambda>e.
             if rv e \<noteq> 0 then genfs_err_inode os ''closing xattrs'' else ret ())))))"

definition process_dirent :: "'w os \<Rightarrow> u32 \<Rightarrow> bytes \<Rightarrow> bool \<Rightarrow> ('w sys, unit) prog" where
  "process_dirent os inode selinux_label force_mutable =
     seq (set_label os inode selinux_label)
     (bnd (qubes_read_inode_full os inode) (\<lambda>r.
      if rv r \<noteq> 0 then genfs_err_inode os ''reading inode''
      else
        let contents = ext2_ino (rext r);
            contents = (if force_mutable then contents\<lparr>i_flags := i_flags contents AND NOT EXT2_IMMUTABLE_FL\<rparr> else contents) in
        bnd (qubes_write_inode_full os inode contents) (\<lambda>e.
        if rv e \<noteq> 0 then genfs_err_inode os ''writing inode'' else ret ())))"

section \<open>Directories\<close>

text \<open>
  \<open>ext2fs_dir_iterate2\<close>: the library calls the callback for every entry and returns an error code;
  the callbacks here always return 0.
\<close>

definition ext2fs_dir_iterate2 :: "'w os \<Rightarrow> u32 \<Rightarrow> (ext2_dirent \<Rightarrow> ('w sys, unit) prog) \<Rightarrow> ('w sys, u64) prog" where
  "ext2fs_dir_iterate2 os ino callback =
     loop (\<lambda>_ :: unit.
       bnd (sys os (Ext2 (Ext2_dir_next ino))) (\<lambda>r.
       if rv r < 0 then ret (Inr (rval r)) else seq (callback (ext2_entry (rext r))) (ret (Inl ())))) ()"

lemma dir_iterate_mono [partial_function_mono]:
  "(\<And>d s. monotone R option_ord (\<lambda>f. callback f d s)) \<Longrightarrow>
   monotone R option_ord (\<lambda>f. ext2fs_dir_iterate2 os ino (callback f) s)"
  unfolding ext2fs_dir_iterate2_def
  by (intro loop_mono bnd_mono if_mono seq_mono) (simp_all add: monotone_def flat_ord_def)

text \<open>\<open>memcmp(name, "..", name_len)\<close> for a name of at most two bytes.\<close>

definition dots :: "bytes \<Rightarrow> bool" where
  "dots name \<longleftrightarrow> length name \<le> 2 \<and> name = take (length name) (ascii ''..'')"

text \<open>\<open>strncmp(s, t, n) == 0\<close>\<close>

definition strncmp_eq :: "bytes \<Rightarrow> bytes \<Rightarrow> nat \<Rightarrow> bool" where
  "strncmp_eq s t n \<longleftrightarrow> take n (c_str s @ [0]) = take n (c_str t @ [0])"

partial_function (option) recursive_relabel :: "'w os \<Rightarrow> bytes \<Rightarrow> ext2_dirent \<Rightarrow> ('w sys, unit) prog" where
  "recursive_relabel os label dirent s =
     seq (assert_c (length (d_name dirent) < EXT2_NAME_LEN))
     (if dots (d_name dirent) then ret ()
      else
        seq (process_dirent os (d_inode dirent) label False)
        (if d_file_type dirent = EXT2_FT_DIR then
           bnd (ext2fs_dir_iterate2 os (d_inode dirent) (recursive_relabel os label)) (\<lambda>err.
           if err \<noteq> 0 then genfs_err os ''during recursive relabel'' else ret ())
         else ret ())) s"

definition dir_iterate_callback :: "'w os \<Rightarrow> ext2_dirent \<Rightarrow> ('w sys, unit) prog" where
  "dir_iterate_callback os dirent =
     (let name = d_name dirent in
      seq (assert_c (length name < EXT2_NAME_LEN))
      (if length name = 5 \<and> name = ascii ''build'' then
         if d_file_type dirent \<noteq> EXT2_FT_DIR then errx os 1 ''File is not a directory''
         else
           seq (process_dirent os (d_inode dirent) label_usr True)
           (bnd (ext2fs_dir_iterate2 os (d_inode dirent) (recursive_relabel os label_usr)) (\<lambda>err.
            if err \<noteq> 0 then genfs_err os ''during recursive relabel'' else ret ()))
       else if length name \<ge> 8 \<and> take 8 name = ascii ''modules.'' then
         if d_file_type dirent \<noteq> EXT2_FT_REG_FILE then errx os 1 ''File is not a regular file''
         else process_dirent os (d_inode dirent) label_modules_dep True
       else ret ()))"

definition root_iterate_callback :: "'w os \<Rightarrow> bytes \<Rightarrow> ext2_dirent \<Rightarrow> ('w sys, unit) prog" where
  "root_iterate_callback os uname dirent =
     (let name = d_name dirent; name_len = length name in
      if dots name then ret ()
      else if 0 \<in> set name then errx os 1 ''Inode has a NUL in its name''
      else if strncmp_eq name (ascii ''firmware'') name_len then
        bnd (ext2fs_dir_iterate2 os (d_inode dirent) (recursive_relabel os label_lib)) (\<lambda>err.
        if err \<noteq> 0 then genfs_err os ''during recursive relabel''
        else process_dirent os (d_inode dirent) label_lib False)
      else if strncmp_eq name uname name_len then
        bnd (ext2fs_dir_iterate2 os (d_inode dirent) (dir_iterate_callback os)) (\<lambda>err.
        if err \<noteq> 0 then genfs_err os ''processing''
        else process_dirent os (d_inode dirent) label_modules_object False)
      else if \<not> strncmp_eq name (ascii ''vmlinuz'') name_len \<and> \<not> strncmp_eq name (ascii ''lost+found'') name_len \<and>
          \<not> strncmp_eq name (ascii ''initramfs'') name_len then
        errx os 1 ''Unexpected inode found in root of file system''
      else process_dirent os (d_inode dirent) label_modules_object False)"

section \<open>Normalising\<close>

text \<open>\<open>SOURCE_DATE_EPOCH\<close>: an error message, or the time stamp (0 when it is not set).\<close>

definition parse_epoch :: "bytes \<Rightarrow> string + u64" where
  "parse_epoch ptr =
     (let c = (ptr @ [0]) ! 0;
          ds = takeWhile (\<lambda>c. 0x30 \<le> c \<and> c \<le> 0x39) ptr;
          timestamp = min (foldl (\<lambda>a c. a * 10 + (unat c - 0x30)) 0 ds) (2 ^ 64 - 1) in
      if c < 0x31 \<or> c > 0x39 then Inl ''Invalid SOURCE_DATE_EPOCH''
      else if ds \<noteq> ptr then Inl ''Invalid SOURCE_DATE_EPOCH (trailing garbage)''
      else if timestamp \<ge> 2 ^ 34 then Inl ''SOURCE_DATE_EPOCH too large''
      else Inr (word_of_nat timestamp))"

definition epoch_of :: "u64 \<Rightarrow> u32" where "epoch_of timestamp = ucast (drop_bit 32 timestamp)"
definition global_timestamp :: "u64 \<Rightarrow> u32" where "global_timestamp timestamp = ucast (timestamp AND 0xFFFFFFFF)"

definition stamp_inode :: "u64 \<Rightarrow> ext2_inode \<Rightarrow> ext2_inode" where
  "stamp_inode timestamp x =
     (if timestamp = 0 then x
      else x\<lparr>i_ctime := global_timestamp timestamp, i_mtime := global_timestamp timestamp,
             i_atime := global_timestamp timestamp, i_crtime := global_timestamp timestamp,
             i_ctime_extra := epoch_of timestamp, i_mtime_extra := epoch_of timestamp,
             i_atime_extra := epoch_of timestamp, i_crtime_extra := epoch_of timestamp\<rparr>)"

text \<open>The inode before its label is set, or the error message.\<close>

definition normalise_inode :: "u64 \<Rightarrow> bool \<Rightarrow> bool \<Rightarrow> ext2_inode \<Rightarrow> string + ext2_inode" where
  "normalise_inode timestamp mark_immutable is_lpf_ino inode =
     (let x = (stamp_inode timestamp inode)\<lparr>i_uid := 0, i_uid_high := 0, i_gid := 0, i_gid_high := 0\<rparr>; m = i_mode x in
      if m AND 0xE00 \<noteq> 0 then Inl ''Inode is setuid, setgid, or sticky''
      else if \<not> LINUX_S_ISLNK m \<and> m AND group_or_world_writable \<noteq> 0 then
        Inl ''Inode is not a symlink and is group- or world- writable''
      else if \<not> LINUX_S_ISDIR m \<and> \<not> LINUX_S_ISREG m \<and> \<not> LINUX_S_ISLNK m then
        Inl ''Inode is neither a regular file, directory, or symbolic link''
      else
        let x = x\<lparr>i_mode := (if LINUX_S_ISDIR m then (if is_lpf_ino then 0x1C0 else 0x1ED) OR (m AND NOT 0x1FF) else m OR 0x1A4)\<rparr>;
            immutable = mark_immutable \<and> (LINUX_S_ISREG (i_mode x) \<or> is_lpf_ino \<and> LINUX_S_ISDIR (i_mode x)) in
        Inr (x\<lparr>i_flags := (if immutable then i_flags x OR EXT2_IMMUTABLE_FL else i_flags x AND NOT EXT2_IMMUTABLE_FL)\<rparr>))"

text \<open>What is written after the label.\<close>

definition clear_versions :: "ext2_inode \<Rightarrow> ext2_inode" where
  "clear_versions x = x\<lparr>l_i_version := 0, i_generation := 0, i_version_hi := 0, i_projid := 0\<rparr>"

definition scan_inode :: "'w os \<Rightarrow> u64 \<Rightarrow> bool \<Rightarrow> ext2_super \<Rightarrow> ('w sys, unit + unit) prog" where
  "scan_inode os timestamp mark_immutable sb =
     bnd (sys os (Ext2 Ext2_next_inode)) (\<lambda>r.
     if rv r \<noteq> 0 then genfs_err os ''obtaining next inode''
     else
       let ino = ucast (rval r); inode = ext2_ino (rext r) in
       if ino = 0 then ret (Inr ())
       else if ino \<noteq> EXT2_ROOT_INO \<and> ino < s_first_ino sb then ret (Inl ())
       else if i_links_count inode = 0 then ret (Inl ())
       else
         case normalise_inode timestamp mark_immutable (ino = s_lpf_ino sb) inode of
           Inl msg \<Rightarrow> errx os 1 msg
         | Inr x \<Rightarrow>
             seq (set_label os ino label_modules_object)
             (bnd (qubes_write_inode_full os ino (clear_versions x)) (\<lambda>e.
              if rv e \<noteq> 0 then genfs_err os ''writing inode'' else ret (Inl ()))))"

definition stamp_super :: "u64 \<Rightarrow> ext2_super \<Rightarrow> ext2_super" where
  "stamp_super timestamp sb =
     (if timestamp = 0 then sb
      else sb\<lparr>s_mtime := global_timestamp timestamp, s_wtime := global_timestamp timestamp,
              s_mkfs_time := global_timestamp timestamp, s_lastcheck := global_timestamp timestamp,
              s_mtime_hi := ucast (epoch_of timestamp), s_wtime_hi := ucast (epoch_of timestamp),
              s_mkfs_time_hi := ucast (epoch_of timestamp), s_lastcheck_hi := ucast (epoch_of timestamp)\<rparr>)"

section \<open>The program\<close>

definition read_epoch :: "'w os \<Rightarrow> ('w sys, u64) prog" where
  "read_epoch os =
     bnd (sys os (Xenstore (Getenv ''SOURCE_DATE_EPOCH''))) (\<lambda>r.
     if rv r < 0 then ret 0
     else case parse_epoch (c_str (rdata r @ [0])) of Inl msg \<Rightarrow> errx os 1 msg | Inr timestamp \<Rightarrow> ret timestamp)"

text \<open>The size of \<open>struct ext2_inode_large\<close> is the library's.\<close>

definition open_filesystem :: "'w os \<Rightarrow> u16 \<Rightarrow> bytes \<Rightarrow> ('w sys, ext2_super) prog" where
  "open_filesystem os sizeof_inode_large filesystem =
     bnd (sys os (Ext2 (Ext2_open filesystem))) (\<lambda>r.
     let sb = ext2_sb (rext r) in
     if rv r \<noteq> 0 \<or> rval r = 0 then genfs_err os ''opening filesystem''
     else if s_first_error_time sb \<noteq> 0 \<or> s_last_error_time sb \<noteq> 0 \<or> s_first_error_time_hi sb \<noteq> 0 \<or>
         s_last_error_time_hi sb \<noteq> 0 \<or> s_first_error_ino sb \<noteq> 0 then
       errx os 1 ''Filesystem has had an error in the past''
     else if s_rev_level sb \<noteq> EXT2_DYNAMIC_REV then errx os 1 ''Filesystem revision not supported''
     else if s_inode_size sb < sizeof_inode_large then errx os 1 ''Filesystem inode size not supported''
     else if s_lpf_ino sb = 0 then
       bnd (sys os (Ext2 (Ext2_namei EXT2_ROOT_INO EXT2_ROOT_INO (ascii ''lost+found'')))) (\<lambda>r.
       if rv r \<noteq> 0 then genfs_err os ''obtaining lost+found inode''
       else if ucast (rval r) = (0 :: u32) then errx os 1 ''no lost+found inode''
       else ret (sb\<lparr>s_lpf_ino := ucast (rval r)\<rparr>))
     else ret sb)"

definition normalise_filesystem :: "'w os \<Rightarrow> u64 \<Rightarrow> bool \<Rightarrow> ext2_super \<Rightarrow> bytes \<Rightarrow> ('w sys, unit) prog" where
  "normalise_filesystem os timestamp mark_immutable sb uname =
     bnd (sys os (Ext2 Ext2_open_scan)) (\<lambda>r.
     if rv r \<noteq> 0 \<or> rval r = 0 then genfs_err os ''scanning filesystem''
     else
       seq (loop (\<lambda>_ :: unit. scan_inode os timestamp mark_immutable sb) ())
       (bnd (sys os (Ext2 Ext2_close_scan)) (\<lambda>_.
        seq (process_dirent os EXT2_ROOT_INO label_modules_object True)
        (bnd (ext2fs_dir_iterate2 os EXT2_ROOT_INO (root_iterate_callback os uname)) (\<lambda>err.
         if err \<noteq> 0 then genfs_err os ''processing /'' else ret ())))))"

definition real_main :: "'w os \<Rightarrow> u16 \<Rightarrow> bytes \<Rightarrow> bytes option \<Rightarrow> bool \<Rightarrow> ('w sys, int) prog" where
  "real_main os sizeof_inode_large filesystem uname mark_immutable =
     bnd (read_epoch os) (\<lambda>timestamp.
     bnd (open_filesystem os sizeof_inode_large filesystem) (\<lambda>sb.
     seq (case uname of None \<Rightarrow> ret () | Some u \<Rightarrow> normalise_filesystem os timestamp mark_immutable sb u)
     (bnd (sys os (Ext2 Ext2_mark_super_dirty)) (\<lambda>_.
      bnd (sys os (Ext2 (Ext2_close (if timestamp = 0 then None else Some timestamp)
             ((stamp_super timestamp sb)\<lparr>s_checkinterval := 0\<rparr>)))) (\<lambda>e.
      if rv e \<noteq> 0 then genfs_err os ''closing filesystem'' else ret 0)))))"

definition genfs :: "'w os \<Rightarrow> u16 \<Rightarrow> bytes list \<Rightarrow> ('w sys, int) prog" where
  "genfs os sizeof_inode_large argv =
     (if length argv = 4 then
        if argv ! 3 = ascii ''immutable=yes'' then real_main os sizeof_inode_large (argv ! 1) (Some (argv ! 2)) True
        else if argv ! 3 \<noteq> ascii ''immutable=no'' then errx os 1 ''Invalid immutable= value''
        else real_main os sizeof_inode_large (argv ! 1) (Some (argv ! 2)) False
      else if length argv \<noteq> 2 then errx os 1 ''Usage: genfs FILESYSTEM [UNAME immutable=[yes|no]]''
      else real_main os sizeof_inode_large (argv ! 1) None False)"

end
