(* ===== verification/Genfs_Props.thy ===== *)
theory Genfs_Props
  imports Genfs Sys_Reason
begin

text \<open>
  Correctness of the file-system tool: the normal form of an inode, and what every call that
  changes the file system rests on.
\<close>

unbundle bit_operations_syntax

section \<open>Normal inodes\<close>

text \<open>The bits of a normal mode.\<close>

definition normal_mode :: "bool \<Rightarrow> u16 \<Rightarrow> bool" where
  "normal_mode is_lpf m \<longleftrightarrow>
     m AND 0xE00 = 0 \<and>
     (if LINUX_S_ISDIR m then m AND 0x1FF = (if is_lpf then 0x1C0 else 0x1ED)
      else (LINUX_S_ISREG m \<and> m AND 0x12 = 0 \<or> LINUX_S_ISLNK m) \<and> m AND 0x1A4 = 0x1A4)"

text \<open>The four times of a normal inode, each with its upper bits in the extra field, are the time stamp.\<close>

definition time_is :: "u64 \<Rightarrow> u32 \<Rightarrow> u32 \<Rightarrow> bool" where
  "time_is timestamp low high \<longleftrightarrow> uint low + 2 ^ 32 * uint high = uint timestamp"

definition normal_inode :: "u64 \<Rightarrow> bool \<Rightarrow> bool \<Rightarrow> ext2_inode \<Rightarrow> bool" where
  "normal_inode timestamp mark_immutable is_lpf x \<longleftrightarrow>
     (timestamp \<noteq> 0 \<longrightarrow>
        time_is timestamp (i_ctime x) (i_ctime_extra x) \<and> time_is timestamp (i_mtime x) (i_mtime_extra x) \<and>
        time_is timestamp (i_atime x) (i_atime_extra x) \<and> time_is timestamp (i_crtime x) (i_crtime_extra x)) \<and>
     normal_mode is_lpf (i_mode x) \<and>
     i_uid x = 0 \<and> i_uid_high x = 0 \<and> i_gid x = 0 \<and> i_gid_high x = 0 \<and>
     l_i_version x = 0 \<and> i_generation x = 0 \<and> i_version_hi x = 0 \<and> i_projid x = 0 \<and>
     i_flags x AND EXT2_IMMUTABLE_FL =
       (if mark_immutable \<and> (LINUX_S_ISREG (i_mode x) \<or> is_lpf \<and> LINUX_S_ISDIR (i_mode x)) then EXT2_IMMUTABLE_FL else 0)"

text \<open>The fields that stay.\<close>

definition same_file :: "ext2_inode \<Rightarrow> ext2_inode \<Rightarrow> bool" where
  "same_file x y \<longleftrightarrow> i_mode y AND 0xF000 = i_mode x AND 0xF000 \<and> i_links_count y = i_links_count x \<and> i_other y = i_other x \<and>
     i_flags y AND NOT EXT2_IMMUTABLE_FL = i_flags x AND NOT EXT2_IMMUTABLE_FL"

lemmas mode_defs = LINUX_S_ISDIR_def LINUX_S_ISREG_def LINUX_S_ISLNK_def group_or_world_writable_def EXT2_IMMUTABLE_FL_def

lemma directory_mode:
  fixes m :: u16 and p :: u16
  assumes "p \<in> {0x1C0, 0x1ED}" and "m AND 0xE00 = 0"
  shows "(p OR (m AND NOT 0x1FF)) AND 0xF000 = m AND 0xF000" "(p OR (m AND NOT 0x1FF)) AND 0x1FF = p"
    "(p OR (m AND NOT 0x1FF)) AND 0xE00 = 0"
  using assms by (auto simp add: bit.conj_disj_distrib2 and.assoc)

lemma file_mode:
  fixes m :: u16
  assumes "m AND 0xE00 = 0"
  shows "(m OR 0x1A4) AND 0xF000 = m AND 0xF000" "(m OR 0x1A4) AND 0x1A4 = 0x1A4"
    "(m OR 0x1A4) AND 0xE00 = 0" "(m OR 0x1A4) AND 0x12 = m AND 0x12"
  using assms by (auto simp add: bit.conj_disj_distrib2 and.assoc)

definition new_mode :: "bool \<Rightarrow> u16 \<Rightarrow> u16" where
  "new_mode is_lpf m = (if LINUX_S_ISDIR m then (if is_lpf then 0x1C0 else 0x1ED) OR (m AND NOT 0x1FF) else m OR 0x1A4)"

definition acceptable_mode :: "u16 \<Rightarrow> bool" where
  "acceptable_mode m \<longleftrightarrow> m AND 0xE00 = 0 \<and> (LINUX_S_ISLNK m \<or> m AND 0x12 = 0) \<and>
     (LINUX_S_ISDIR m \<or> LINUX_S_ISREG m \<or> LINUX_S_ISLNK m)"

definition new_flags :: "bool \<Rightarrow> bool \<Rightarrow> u16 \<Rightarrow> u32 \<Rightarrow> u32" where
  "new_flags imm is_lpf m f =
     (if imm \<and> (LINUX_S_ISREG m \<or> is_lpf \<and> LINUX_S_ISDIR m) then f OR EXT2_IMMUTABLE_FL else f AND NOT EXT2_IMMUTABLE_FL)"

definition new_inode :: "u64 \<Rightarrow> bool \<Rightarrow> bool \<Rightarrow> ext2_inode \<Rightarrow> ext2_inode" where
  "new_inode ts imm is_lpf x =
     (stamp_inode ts x)\<lparr>i_uid := 0, i_uid_high := 0, i_gid := 0, i_gid_high := 0, i_mode := new_mode is_lpf (i_mode x),
        i_flags := new_flags imm is_lpf (new_mode is_lpf (i_mode x)) (i_flags x)\<rparr>"

lemma stamp_inode_sel [simp]:
  "i_mode (stamp_inode ts x) = i_mode x" "i_flags (stamp_inode ts x) = i_flags x"
  "i_links_count (stamp_inode ts x) = i_links_count x" "i_other (stamp_inode ts x) = i_other x"
  by (simp_all add: stamp_inode_def)

lemma normalise_inode_accepts:
  assumes "acceptable_mode (i_mode x)"
  shows "normalise_inode ts imm is_lpf x = Inr (new_inode ts imm is_lpf x)"
proof -
  from assms have ok: "\<not> i_mode x AND 0xE00 \<noteq> 0" "\<not> (\<not> LINUX_S_ISLNK (i_mode x) \<and> i_mode x AND group_or_world_writable \<noteq> 0)"
    "\<not> (\<not> LINUX_S_ISDIR (i_mode x) \<and> \<not> LINUX_S_ISREG (i_mode x) \<and> \<not> LINUX_S_ISLNK (i_mode x))"
    by (auto simp add: acceptable_mode_def group_or_world_writable_def)
  show ?thesis
    unfolding normalise_inode_def Let_def
    by (simp add: ok new_inode_def new_mode_def new_flags_def cong: if_cong split del: if_split)
qed

lemma rejected: "a \<or> b \<or> c \<Longrightarrow> (if a then Inl p else if b then Inl q else if c then Inl r else z) \<noteq> Inr y"
  by auto

lemma normalise_inode_rejects: "\<not> acceptable_mode (i_mode x) \<Longrightarrow> normalise_inode ts imm is_lpf x \<noteq> Inr y"
  unfolding normalise_inode_def Let_def
  by (rule rejected) (auto simp add: acceptable_mode_def group_or_world_writable_def)

lemma normalise_inode_iff:
  "normalise_inode ts imm is_lpf x = Inr y \<longleftrightarrow> acceptable_mode (i_mode x) \<and> y = new_inode ts imm is_lpf x"
  using normalise_inode_accepts normalise_inode_rejects by (cases "acceptable_mode (i_mode x)") auto

lemma new_mode_type: "acceptable_mode m \<Longrightarrow> new_mode is_lpf m AND 0xF000 = m AND 0xF000"
  using directory_mode(1) [of _ m] file_mode(1) [of m] by (auto simp add: new_mode_def acceptable_mode_def)

lemma new_mode_kind:
  assumes "acceptable_mode m"
  shows "LINUX_S_ISDIR (new_mode is_lpf m) = LINUX_S_ISDIR m" "LINUX_S_ISREG (new_mode is_lpf m) = LINUX_S_ISREG m"
    "LINUX_S_ISLNK (new_mode is_lpf m) = LINUX_S_ISLNK m"
  using new_mode_type [OF assms] by (simp_all add: mode_defs)

lemma kinds: "LINUX_S_ISDIR m \<Longrightarrow> \<not> LINUX_S_ISLNK m" "LINUX_S_ISDIR m \<Longrightarrow> \<not> LINUX_S_ISREG m" "LINUX_S_ISLNK m \<Longrightarrow> \<not> LINUX_S_ISREG m"
  by (auto simp add: mode_defs)

lemma new_mode_normal:
  assumes "acceptable_mode m"
  shows "normal_mode is_lpf (new_mode is_lpf m)"
proof (cases "LINUX_S_ISDIR m")
  case True
  with assms show ?thesis unfolding normal_mode_def new_mode_kind [OF assms]
    using directory_mode(2,3) [of "if is_lpf then 0x1C0 else 0x1ED" m] by (simp add: new_mode_def acceptable_mode_def)
next
  case False
  with assms show ?thesis unfolding normal_mode_def new_mode_kind [OF assms]
    using file_mode(2-4) [of m] kinds [of m] by (auto simp add: new_mode_def acceptable_mode_def)
qed

lemma normal_mode_fixed:
  assumes "normal_mode is_lpf m"
  shows "acceptable_mode m \<and> new_mode is_lpf m = m"
proof (cases "LINUX_S_ISDIR m")
  case True
  let ?p = "if is_lpf then 0x1C0 else 0x1ED :: u16"
  from True assms have p: "m AND 0x1FF = ?p" "m AND 0xE00 = 0" by (simp_all add: normal_mode_def)
  have "m AND 0x12 = (m AND 0x1FF) AND 0x12" by (simp add: and.assoc)
  then have "m AND 0x12 = 0" unfolding p(1) by simp
  moreover have "?p OR (m AND NOT 0x1FF) = m" unfolding p(1) [symmetric]
    by (simp add: bit.conj_disj_distrib [symmetric])
  ultimately show ?thesis using True p(2) by (simp add: acceptable_mode_def new_mode_def)
next
  case False
  with assms have "m AND 0x1A4 = 0x1A4" by (simp add: normal_mode_def)
  then have "m OR 0x1A4 = m OR (m AND 0x1A4)" by simp
  also have "\<dots> = m" by (rule bit_word_eqI) (auto simp add: bit_or_iff bit_and_iff)
  finally have "m OR 0x1A4 = m" .
  with False assms show ?thesis by (auto simp add: acceptable_mode_def new_mode_def normal_mode_def)
qed

lemma new_flags_facts:
  "new_flags imm is_lpf m f AND NOT EXT2_IMMUTABLE_FL = f AND NOT EXT2_IMMUTABLE_FL"
  "new_flags imm is_lpf m f AND EXT2_IMMUTABLE_FL =
     (if imm \<and> (LINUX_S_ISREG m \<or> is_lpf \<and> LINUX_S_ISDIR m) then EXT2_IMMUTABLE_FL else 0)"
  "new_flags imm is_lpf m (new_flags imm is_lpf m f) = new_flags imm is_lpf m f"
  unfolding new_flags_def by (auto simp add: bit.conj_disj_distrib2 and.assoc or.assoc)

lemma time_split: "time_is ts (global_timestamp ts) (epoch_of ts)"
proof -
  have mask: "(0xFFFFFFFF :: u64) = mask 32" by (simp add: mask_eq_exp_minus_1)
  have "uint (global_timestamp ts) = uint ts mod 2 ^ 32"
    unfolding global_timestamp_def mask take_bit_eq_mask [symmetric] by (simp add: unsigned_ucast_eq unsigned_take_bit_eq) (simp add: take_bit_eq_mod)
  moreover have "uint (epoch_of ts) = uint ts div 2 ^ 32"
  proof -
    have "uint ts div 2 ^ 32 < 2 ^ 32" using uint_bounded [of ts] by (simp add: div_less_iff_less_mult)
    moreover have "0 \<le> uint ts div 2 ^ 32" by (intro pos_imp_zdiv_nonneg_iff [THEN iffD2]) simp_all
    ultimately have "take_bit 32 (uint ts div 2 ^ 32) = uint ts div 2 ^ 32" by (intro take_bit_int_eq_self)
    then show ?thesis by (simp add: epoch_of_def unsigned_ucast_eq drop_bit_eq_div uint_div)
  qed
  ultimately show ?thesis unfolding time_is_def by simp
qed

lemma normalise_inode_result:
  assumes "normalise_inode timestamp mark_immutable is_lpf x = Inr y"
  shows "normal_inode timestamp mark_immutable is_lpf (clear_versions y)" "same_file x (clear_versions y)"
    "acceptable_mode (i_mode (clear_versions y))"
    "clear_versions (new_inode timestamp mark_immutable is_lpf (clear_versions y)) = clear_versions y"
proof -
  from assms have ok: "acceptable_mode (i_mode x)" and y: "y = new_inode timestamp mark_immutable is_lpf x"
    by (simp_all add: normalise_inode_iff)
  let ?m = "new_mode is_lpf (i_mode x)"
  have normal: "normal_mode is_lpf ?m" using ok by (rule new_mode_normal)
  from normal_mode_fixed [OF normal] have fixed: "acceptable_mode ?m" "new_mode is_lpf ?m = ?m" by blast+
  have sel: "i_mode (clear_versions y) = ?m" "i_flags (clear_versions y) = new_flags mark_immutable is_lpf ?m (i_flags x)"
    by (simp_all add: y new_inode_def clear_versions_def)
  show "normal_inode timestamp mark_immutable is_lpf (clear_versions y)"
    using normal new_flags_facts(2) [of mark_immutable is_lpf ?m "i_flags x"]
    unfolding normal_inode_def sel by (simp add: y new_inode_def clear_versions_def stamp_inode_def time_split)
  show "same_file x (clear_versions y)"
    using new_mode_type [OF ok] new_flags_facts(1) unfolding same_file_def sel
    by (simp add: y new_inode_def clear_versions_def)
  show "acceptable_mode (i_mode (clear_versions y))" using fixed(1) sel(1) by simp
  show "clear_versions (new_inode timestamp mark_immutable is_lpf (clear_versions y)) = clear_versions y"
    using fixed(2) new_flags_facts(3) [of mark_immutable is_lpf ?m "i_flags x"]
    by (simp add: y new_inode_def clear_versions_def stamp_inode_def)
qed

text \<open>
  C17: An inode is rejected, or its normal form is written: it is the same file with a normal mode,
  owner, time stamp and flags, and normalising it again changes nothing.
\<close>

theorem normalise_inode_normal:
  assumes "normalise_inode timestamp mark_immutable is_lpf x = Inr y"
  shows "normal_inode timestamp mark_immutable is_lpf (clear_versions y) \<and> same_file x (clear_versions y) \<and>
    (\<exists>z. normalise_inode timestamp mark_immutable is_lpf (clear_versions y) = Inr z \<and> clear_versions z = clear_versions y)"
  using normalise_inode_result [OF assms] by (simp add: normalise_inode_iff)

theorem normalise_inode_normal_witness:
  "\<exists>y. normalise_inode 0x300000001 True False (ext2_ino zero_ext2 \<lparr>i_mode := 0x8100, i_uid := 7, i_flags := 0x20\<rparr>) = Inr y \<and>
     normal_inode 0x300000001 True False (clear_versions y) \<and> i_mode (clear_versions y) = 0x81A4 \<and> i_flags (clear_versions y) = 0x30"
proof -
  let ?x = "ext2_ino zero_ext2 \<lparr>i_mode := 0x8100, i_uid := 7, i_flags := 0x20\<rparr>"
  obtain y where y: "normalise_inode 0x300000001 True False ?x = Inr y" "i_mode y = 0x81A4" "i_flags y = 0x30"
    by (simp add: normalise_inode_def zero_ext2_def stamp_inode_def mode_defs)
  with normalise_inode_normal [OF y(1)] show ?thesis by (intro exI [of _ y]) (simp add: clear_versions_def)
qed

end
