(* ===== verification/Genfs_Safety.thy ===== *)
theory Genfs_Safety
  imports Genfs_Props
begin

text \<open>
  What every call of the file-system tool that changes the file system rests on.
\<close>

unbundle bit_operations_syntax

section \<open>What the tool knows\<close>

definition epoch_known :: "(syscall \<times> response) set \<Rightarrow> u64 \<Rightarrow> bool" where
  "epoch_known A timestamp \<longleftrightarrow>
     (\<exists>r. (Xenstore (Getenv ''SOURCE_DATE_EPOCH''), r) \<in> A \<and>
        (if rv r < 0 then timestamp = 0 else parse_epoch (c_str (rdata r @ [0])) = Inr timestamp))"

text \<open>The superblock of a file system without errors, with the inode of lost+found.\<close>

definition supported :: "u16 \<Rightarrow> ext2_super \<Rightarrow> bool" where
  "supported sizeof_inode_large sb \<longleftrightarrow>
     s_first_error_time sb = 0 \<and> s_last_error_time sb = 0 \<and> s_first_error_time_hi sb = 0 \<and> s_last_error_time_hi sb = 0 \<and>
     s_first_error_ino sb = 0 \<and> s_rev_level sb = EXT2_DYNAMIC_REV \<and> sizeof_inode_large \<le> s_inode_size sb"

definition super_known :: "u16 \<Rightarrow> bytes \<Rightarrow> (syscall \<times> response) set \<Rightarrow> ext2_super \<Rightarrow> bool" where
  "super_known siz filesystem A sb \<longleftrightarrow> s_lpf_ino sb \<noteq> 0 \<and>
     (\<exists>r. (Ext2 (Ext2_open filesystem), r) \<in> A \<and> rv r = 0 \<and> supported siz (ext2_sb (rext r)) \<and>
        (sb = ext2_sb (rext r) \<or>
         s_lpf_ino (ext2_sb (rext r)) = 0 \<and>
         (\<exists>q. (Ext2 (Ext2_namei EXT2_ROOT_INO EXT2_ROOT_INO (ascii ''lost+found'')), q) \<in> A \<and> rv q = 0 \<and>
            sb = ext2_sb (rext r) \<lparr>s_lpf_ino := ucast (rval q)\<rparr>)))"

definition labels :: "bytes set" where
  "labels = {label_modules_object, label_modules_dep, label_usr, label_lib}"

text \<open>The inode has the label as its only extended attribute.\<close>

definition labelled :: "(syscall \<times> response) set \<Rightarrow> u32 \<Rightarrow> bytes \<Rightarrow> bool" where
  "labelled A inode label \<longleftrightarrow>
     (\<exists>h e n q. (Ext2 (Xattrs_open inode), h) \<in> A \<and> rv h = 0 \<and> rval h \<noteq> 0 \<and>
        (Ext2 (Xattr_set (rval h) security_selinux label), e) \<in> A \<and> rv e = 0 \<and>
        (Ext2 (Xattrs_count (rval h)), n) \<in> A \<and> rv n = 0 \<and> rval n = 1 \<and>
        (Ext2 (Xattrs_close (rval h)), q) \<in> A \<and> rv q = 0)"

text \<open>A live inode the scan delivered, which the tool may change.\<close>

definition delivered :: "(syscall \<times> response) set \<Rightarrow> ext2_super \<Rightarrow> u32 \<Rightarrow> ext2_inode \<Rightarrow> bool" where
  "delivered A sb ino inode \<longleftrightarrow> ino \<noteq> 0 \<and> (ino = EXT2_ROOT_INO \<or> s_first_ino sb \<le> ino) \<and> i_links_count inode \<noteq> 0 \<and>
     (\<exists>r. (Ext2 Ext2_next_inode, r) \<in> A \<and> rv r = 0 \<and> ucast (rval r) = ino \<and> ext2_ino (rext r) = inode)"

definition reread :: "(syscall \<times> response) set \<Rightarrow> u32 \<Rightarrow> ext2_inode \<Rightarrow> bool" where
  "reread A ino inode \<longleftrightarrow> (\<exists>r. (Ext2 (Ext2_read_inode ino), r) \<in> A \<and> rv r = 0 \<and> ext2_ino (rext r) = inode)"

definition write_ok :: "u16 \<Rightarrow> bytes \<Rightarrow> bool \<Rightarrow> (syscall \<times> response) set \<Rightarrow> u32 \<Rightarrow> ext2_inode \<Rightarrow> bool" where
  "write_ok siz filesystem imm A ino x \<longleftrightarrow>
     (\<exists>timestamp sb inode y. epoch_known A timestamp \<and> super_known siz filesystem A sb \<and> delivered A sb ino inode \<and>
        labelled A ino label_modules_object \<and>
        normalise_inode timestamp imm (ino = s_lpf_ino sb) inode = Inr y \<and> x = clear_versions y) \<or>
     (\<exists>label inode. label \<in> labels \<and> labelled A ino label \<and> reread A ino inode \<and>
        (x = inode \<or> x = inode\<lparr>i_flags := i_flags inode AND NOT EXT2_IMMUTABLE_FL\<rparr>))"

definition close_ok :: "u16 \<Rightarrow> bytes \<Rightarrow> (syscall \<times> response) set \<Rightarrow> u64 option \<Rightarrow> ext2_super \<Rightarrow> bool" where
  "close_ok siz filesystem A now sb' \<longleftrightarrow>
     (\<exists>timestamp sb r. epoch_known A timestamp \<and> super_known siz filesystem A sb \<and> (Ext2 Ext2_mark_super_dirty, r) \<in> A \<and>
        now = (if timestamp = 0 then None else Some timestamp) \<and>
        sb' = (stamp_super timestamp sb)\<lparr>s_checkinterval := 0\<rparr>)"

text \<open>What the tool may call; \<open>full\<close> when it was given a kernel version.\<close>

definition genfs_ok :: "u16 \<Rightarrow> bytes \<Rightarrow> bool \<Rightarrow> bool \<Rightarrow> (syscall \<times> response) set \<Rightarrow> syscall \<Rightarrow> bool" where
  "genfs_ok siz filesystem full imm A c = (case c of
     Ext2 (Ext2_open path) \<Rightarrow> path = filesystem
   | Ext2 (Ext2_write_inode ino x) \<Rightarrow> full \<and> write_ok siz filesystem imm A ino x
   | Ext2 (Xattr_set h name label) \<Rightarrow>
       full \<and> name = security_selinux \<and> label \<in> labels \<and> (\<exists>ino r. (Ext2 (Xattrs_open ino), r) \<in> A \<and> rv r = 0 \<and> rval r = h)
   | Ext2 (Ext2_close now sb) \<Rightarrow> close_ok siz filesystem A now sb
   | Ext2 x \<Rightarrow> True
   | Xenstore (Getenv name) \<Rightarrow> True
   | Stderr msg \<Rightarrow> True
   | _ \<Rightarrow> False)"

lemma genfs_ok_simps [simp]:
  "genfs_ok siz path full imm A (Stderr msg)" "genfs_ok siz path full imm A (Xenstore (Getenv v))"
  "genfs_ok siz path full imm A (Ext2 (Ext2_open path))" "genfs_ok siz path full imm A (Ext2 (Ext2_namei i j name))"
  "genfs_ok siz path full imm A (Ext2 Ext2_open_scan)" "genfs_ok siz path full imm A (Ext2 Ext2_next_inode)"
  "genfs_ok siz path full imm A (Ext2 Ext2_close_scan)" "genfs_ok siz path full imm A (Ext2 (Ext2_read_inode i))"
  "genfs_ok siz path full imm A (Ext2 (Ext2_dir_next i))" "genfs_ok siz path full imm A (Ext2 Ext2_mark_super_dirty)"
  "genfs_ok siz path full imm A (Ext2 (Xattrs_open i))" "genfs_ok siz path full imm A (Ext2 (Xattrs_read h))"
  "genfs_ok siz path full imm A (Ext2 (Xattrs_count h))" "genfs_ok siz path full imm A (Ext2 (Xattrs_close h))"
  by (simp_all add: genfs_ok_def)

lemma known_more:
  assumes "A \<subseteq> B"
  shows "epoch_known A ts \<Longrightarrow> epoch_known B ts" "super_known siz path A sb \<Longrightarrow> super_known siz path B sb"
    "labelled A ino label \<Longrightarrow> labelled B ino label" "delivered A sb ino inode \<Longrightarrow> delivered B sb ino inode"
    "reread A ino inode \<Longrightarrow> reread B ino inode"
proof -
  note sub = subsetD [OF assms]
  show "epoch_known A ts \<Longrightarrow> epoch_known B ts" unfolding epoch_known_def using sub by blast
  show "super_known siz path A sb \<Longrightarrow> super_known siz path B sb" unfolding super_known_def using sub by blast
  show "labelled A ino label \<Longrightarrow> labelled B ino label" unfolding labelled_def using sub by blast
  show "delivered A sb ino inode \<Longrightarrow> delivered B sb ino inode" unfolding delivered_def using sub by blast
  show "reread A ino inode \<Longrightarrow> reread B ino inode" unfolding reread_def using sub by blast
qed

lemma rests_sum [rests_intros]:
  "(\<And>y. x = Inl y \<Longrightarrow> rests ok tr evs (f y) P) \<Longrightarrow> (\<And>y. x = Inr y \<Longrightarrow> rests ok tr evs (g y) P) \<Longrightarrow>
   rests ok tr evs (case x of Inl y \<Rightarrow> f y | Inr y \<Rightarrow> g y) P"
  by (cases x) auto

section \<open>Labels and directory entries\<close>

lemma rests_set_label:
  assumes "label \<in> labels"
  shows "rests (genfs_ok siz path True imm) tr evs (set_label os inode label) (\<lambda>_ E. labelled E inode label)"
  unfolding set_label_def genfs_err_inode_def genfs_err_def
  apply (intro rests_intros rests_ret)
  apply (simp_all only: genfs_ok_simps)
  using assms apply (simp add: genfs_ok_def) apply blast
  apply (simp add: labelled_def) apply blast
  done

lemma rests_process_dirent:
  assumes label: "label \<in> labels"
  shows "rests (genfs_ok siz path True imm) tr evs (process_dirent os inode label force_mutable) (\<lambda>_ _. True)"
  unfolding process_dirent_def
proof (rule rests_seq [OF rests_set_label [OF label]])
  fix E
  assume E: "labelled E inode label"
  have w: "genfs_ok siz path True imm A (Ext2 (Ext2_write_inode inode x))"
    if "insert (Ext2 (Ext2_read_inode inode), r) E \<subseteq> A" "rv r = 0"
      "x = ext2_ino (rext r) \<or> x = ext2_ino (rext r)\<lparr>i_flags := i_flags (ext2_ino (rext r)) AND NOT EXT2_IMMUTABLE_FL\<rparr>" for A r x
  proof -
    from that(1) have "labelled A inode label" by (intro known_more(3) [OF _ E]) simp
    moreover have "reread A inode (ext2_ino (rext r))" using that(1,2) by (auto simp add: reread_def)
    ultimately have "write_ok siz path imm A inode x" using that(3) label unfolding write_ok_def by blast
    then show ?thesis by (simp add: genfs_ok_def)
  qed
  show "rests (genfs_ok siz path True imm) tr E
    (bnd (qubes_read_inode_full os inode) (\<lambda>r.
      if rv r \<noteq> 0 then genfs_err_inode os ''reading inode''
      else
        let contents = ext2_ino (rext r);
            contents = (if force_mutable then contents\<lparr>i_flags := i_flags contents AND NOT EXT2_IMMUTABLE_FL\<rparr> else contents) in
        bnd (qubes_write_inode_full os inode contents) (\<lambda>e.
        if rv e \<noteq> 0 then genfs_err_inode os ''writing inode'' else ret ()))) (\<lambda>_ _. True)"
    unfolding qubes_read_inode_full_def qubes_write_inode_full_def genfs_err_inode_def genfs_err_def Let_def
    apply (intro rests_intros rests_ret)
    apply (simp_all only: genfs_ok_simps)
    apply (erule w) apply auto
    done
qed

section \<open>Directories\<close>

lemma rests_iterate:
  assumes "\<And>d E. rests (genfs_ok siz path full imm) tr E (callback d) (\<lambda>_ _. True)"
  shows "rests (genfs_ok siz path full imm) tr evs (ext2fs_dir_iterate2 os ino callback) (\<lambda>_ _. True)"
  unfolding ext2fs_dir_iterate2_def
  by (rule rests_loop [where I = "\<lambda>_ _. True"]) (auto intro!: rests_intros rests_ret rests_seq [OF assms])

lemma rests_iff:
  "rests ok tr evs m P \<longleftrightarrow>
     (\<forall>s y. m s = Some y \<longrightarrow> knows ok tr evs s \<longrightarrow>
        (case fst y of Inl e \<Rightarrow> knows ok tr {} (snd y) | Inr x \<Rightarrow> \<exists>E. knows ok tr E (snd y) \<and> evs \<subseteq> E \<and> P x E))"
  unfolding rests_def hoare_def wp_def by (force split: option.splits sum.splits)

text \<open>What \<open>rests\<close> says of one outcome, for the induction over the recursive calls.\<close>

definition outcome_ok ::
  "((syscall \<times> response) set \<Rightarrow> syscall \<Rightarrow> bool) \<Rightarrow> 'w sys \<Rightarrow> (stop + unit) \<times> 'w sys \<Rightarrow> bool" where
  "outcome_ok ok s y \<longleftrightarrow> (\<forall>tr evs. knows ok tr evs s \<longrightarrow>
     (case fst y of Inl e \<Rightarrow> knows ok tr {} (snd y) | Inr x \<Rightarrow> \<exists>E. knows ok tr E (snd y) \<and> evs \<subseteq> E))"

lemma rests_outcome: "(\<forall>tr evs. rests ok tr evs m (\<lambda>_ _. True)) \<longleftrightarrow> (\<forall>s y. m s = Some y \<longrightarrow> outcome_ok ok s y)"
  unfolding rests_iff outcome_ok_def simp_thms by blast

lemma outcome_rests: "(\<And>s y. m s = Some y \<Longrightarrow> outcome_ok ok s y) \<Longrightarrow> rests ok tr evs m (\<lambda>_ _. True)"
  using rests_outcome [of ok m] by blast

lemma rests_outcomeD: "(\<And>tr evs. rests ok tr evs m (\<lambda>_ _. True)) \<Longrightarrow> m s = Some y \<Longrightarrow> outcome_ok ok s y"
  using rests_outcome [of ok m] by blast

text \<open>Induction over the recursive calls: what one level keeps, the walk keeps.\<close>

definition relabel_step ::
  "'w os \<Rightarrow> bytes \<Rightarrow> (ext2_dirent \<Rightarrow> ('w sys, unit) prog) \<Rightarrow> ext2_dirent \<Rightarrow> ('w sys, unit) prog" where
  "relabel_step os label rec d =
     seq (assert_c (length (d_name d) < EXT2_NAME_LEN))
     (if dots (d_name d) then ret ()
      else seq (process_dirent os (d_inode d) label False)
            (if d_file_type d = EXT2_FT_DIR then
               bnd (ext2fs_dir_iterate2 os (d_inode d) rec) (\<lambda>err.
               if err \<noteq> 0 then genfs_err os ''during recursive relabel'' else ret ())
             else ret ()))"

lemma relabel_rule:
  fixes os :: "'w os"
  assumes run: "recursive_relabel os label d s = Some y"
    and step: "\<And>rec d s y. (\<And>d s y. rec d s = Some y \<Longrightarrow> K s y) \<Longrightarrow> relabel_step os label rec d s = Some y \<Longrightarrow> K s y"
  shows "K s y"
proof -
  let ?P = "\<lambda>os' label' d s y. os' = os \<and> label' = label \<longrightarrow> K s y"
  have "?P os label d s y"
  proof (rule recursive_relabel.raw_induct [where P = ?P, OF _ run], intro impI, elim conjE, hypsubst)
    fix rec :: "'w os \<Rightarrow> bytes \<Rightarrow> ext2_dirent \<Rightarrow> ('w sys, unit) prog" and d :: ext2_dirent and s y
    assume IH: "\<And>os' label' d s y. rec os' label' d s = Some y \<Longrightarrow> ?P os' label' d s y"
      and "seq (assert_c (length (d_name d) < EXT2_NAME_LEN))
        (if dots (d_name d) then ret ()
         else seq (process_dirent os (d_inode d) label False)
               (if d_file_type d = EXT2_FT_DIR then
                  bnd (ext2fs_dir_iterate2 os (d_inode d) (rec os label)) (\<lambda>err.
                  if err \<noteq> 0 then genfs_err os ''during recursive relabel'' else ret ())
                else ret ())) s = Some y"
    then have "relabel_step os label (rec os label) d s = Some y" by (simp only: relabel_step_def)
    then show "K s y" by (rule step [rotated]) (use IH in blast)
  qed
  then show ?thesis by simp
qed

lemma rests_recursive_relabel:
  fixes os :: "'w os"
  assumes label: "label \<in> labels"
  shows "rests (genfs_ok siz path True imm) tr evs (recursive_relabel os label d) (\<lambda>_ _. True)"
proof (rule outcome_rests, erule relabel_rule [where os = os and label = label])
  fix rec :: "ext2_dirent \<Rightarrow> ('w sys, unit) prog" and d s y
  assume IH: "\<And>d s y. rec d s = Some y \<Longrightarrow> outcome_ok (genfs_ok siz path True imm) s y"
    and run: "relabel_step os label rec d s = Some y"
  have rec: "rests (genfs_ok siz path True imm) tr evs (rec d) (\<lambda>_ _. True)" for d tr evs
    by (rule outcome_rests) (rule IH)
  have "rests (genfs_ok siz path True imm) tr evs (relabel_step os label rec d) (\<lambda>_ _. True)" for tr evs
    unfolding relabel_step_def genfs_err_def
    by (intro rests_intros rests_ret rests_seq [OF rests_process_dirent [OF label]] rests_bnd [OF rests_iterate [OF rec]]) simp_all
  from rests_outcomeD [OF this run] show "outcome_ok (genfs_ok siz path True imm) s y" .
qed

lemma in_labels [simp]:
  "label_modules_object \<in> labels" "label_modules_dep \<in> labels" "label_usr \<in> labels" "label_lib \<in> labels"
  by (simp_all add: labels_def)

lemmas rests_walks = rests_seq [OF rests_process_dirent] rests_bnd [OF rests_iterate [OF rests_recursive_relabel]]

lemma rests_dir_iterate_callback:
  "rests (genfs_ok siz path True imm) tr evs (dir_iterate_callback os d) (\<lambda>_ _. True)"
  unfolding dir_iterate_callback_def Let_def genfs_err_def
  by (intro rests_intros rests_ret rests_walks rests_process_dirent) simp_all

lemma rests_root_iterate_callback:
  "rests (genfs_ok siz path True imm) tr evs (root_iterate_callback os uname d) (\<lambda>_ _. True)"
  unfolding root_iterate_callback_def Let_def genfs_err_def
  by (intro rests_intros rests_ret rests_walks rests_process_dirent rests_bnd [OF rests_iterate [OF rests_dir_iterate_callback]]) simp_all

section \<open>The program\<close>

lemma rests_read_epoch:
  "rests (genfs_ok siz path full imm) tr evs (read_epoch os) (\<lambda>ts E. epoch_known E ts)"
  unfolding read_epoch_def
  apply (intro rests_intros rests_ret)
  apply (simp_all only: genfs_ok_simps)
  apply (auto simp add: epoch_known_def)
  done

lemma rests_open_filesystem:
  "rests (genfs_ok siz path full imm) tr evs (open_filesystem os siz path) (\<lambda>sb E. super_known siz path E sb)"
  unfolding open_filesystem_def genfs_err_def Let_def
  apply (intro rests_intros rests_ret)
  apply (simp_all only: genfs_ok_simps)
  apply (auto simp add: super_known_def supported_def not_less)
  done

lemma rests_scan_inode:
  assumes ts: "epoch_known evs timestamp" and sb: "super_known siz path evs sb"
  shows "rests (genfs_ok siz path True imm) tr evs (scan_inode os timestamp imm sb) (\<lambda>_ _. True)"
proof -
  have w: "genfs_ok siz path True imm A (Ext2 (Ext2_write_inode ino (clear_versions x)))"
    if "labelled E ino label_modules_object" "insert (Ext2 Ext2_next_inode, r) evs \<subseteq> E" "E \<subseteq> A" "rv r = 0"
      "ucast (rval r) = ino" "ino \<noteq> 0" "\<not> (ino \<noteq> EXT2_ROOT_INO \<and> ino < s_first_ino sb)"
      "i_links_count (ext2_ino (rext r)) \<noteq> 0"
      "normalise_inode timestamp imm (ino = s_lpf_ino sb) (ext2_ino (rext r)) = Inr x" for A E r ino x
  proof -
    from that(2,3) have evs: "evs \<subseteq> A" and r: "(Ext2 Ext2_next_inode, r) \<in> A" by auto
    have "delivered A sb ino (ext2_ino (rext r))"
      unfolding delivered_def using that(4-8) r by (auto simp add: not_less)
    with known_more(1) [OF evs ts] known_more(2) [OF evs sb] known_more(3) [OF that(3,1)] that(9)
    have "write_ok siz path imm A ino (clear_versions x)" unfolding write_ok_def by blast
    then show ?thesis by (simp add: genfs_ok_def)
  qed
  show ?thesis
    unfolding scan_inode_def qubes_write_inode_full_def genfs_err_def Let_def
    apply (intro rests_intros rests_ret rests_seq [OF rests_set_label])
    apply (simp_all only: genfs_ok_simps in_labels)
    apply (erule w, assumption+)
    apply (simp_all only: refl not_not simp_thms)
    done
qed

lemma rests_normalise_filesystem:
  assumes ts: "epoch_known evs timestamp" and sb: "super_known siz path evs sb"
  shows "rests (genfs_ok siz path True imm) tr evs (normalise_filesystem os timestamp imm sb uname) (\<lambda>_ _. True)"
proof -
  have scan: "rests (genfs_ok siz path True imm) tr E (loop (\<lambda>_. scan_inode os timestamp imm sb) ()) (\<lambda>_ _. True)"
    if "evs \<subseteq> E" for E
  proof (rule rests_loop [where I = "\<lambda>_ _. True"])
    fix x E' assume "E \<subseteq> E'"
    with that have "evs \<subseteq> E'" by blast
    from rests_scan_inode [OF known_more(1) [OF this ts] known_more(2) [OF this sb]]
    show "rests (genfs_ok siz path True imm) tr E' (scan_inode os timestamp imm sb) (\<lambda>r E'. case r of Inl y \<Rightarrow> True | Inr a \<Rightarrow> True)"
      by (rule rests_post) (simp split: sum.split)
  qed simp
  show ?thesis
    unfolding normalise_filesystem_def genfs_err_def
    by (intro rests_intros rests_ret rests_walks rests_bnd [OF rests_iterate [OF rests_root_iterate_callback]]
        rests_seq [OF scan]) auto
qed

end
