(* ===== verification/Genfs_Complete.thy ===== *)
theory Genfs_Complete
  imports Genfs_Safety
begin

text \<open>
  A run of the file-system tool that succeeds has written every live inode in its normal form.
\<close>

unbundle bit_operations_syntax

section \<open>Facts that calls other than the scan keep\<close>

definition scan_stable :: "((syscall \<times> response) list \<Rightarrow> bool) \<Rightarrow> bool" where
  "scan_stable F \<longleftrightarrow> (\<forall>tr c r. F tr \<longrightarrow> c \<noteq> Ext2 Ext2_next_inode \<longrightarrow> F (tr @ [(c, r)]))"

abbreviation keeps :: "(syscall \<times> response) list \<Rightarrow> ((syscall \<times> response) list \<Rightarrow> bool) \<Rightarrow> ('w sys, 'a) prog \<Rightarrow> bool" where
  "keeps tr0 F m \<equiv> hoare (\<lambda>_ _. True) (after tr0 F) m (\<lambda>_. after tr0 F)"

lemma keeps_sys: "scan_stable F \<Longrightarrow> c \<noteq> Ext2 Ext2_next_inode \<Longrightarrow> keeps tr0 F (sys os c)"
  unfolding hoare_def wp_simps scan_stable_def by (auto elim!: after_call)

lemma keeps_set_label: "scan_stable F \<Longrightarrow> keeps tr0 F (set_label os inode label)"
  unfolding set_label_def genfs_err_inode_def genfs_err_def
  by (intro keep_intros hoare_never_True; rule keeps_sys; simp)

lemma keeps_process_dirent: "scan_stable F \<Longrightarrow> keeps tr0 F (process_dirent os inode label force_mutable)"
  unfolding process_dirent_def qubes_read_inode_full_def qubes_write_inode_full_def genfs_err_inode_def genfs_err_def Let_def
  by (intro keep_intros hoare_never_True keeps_set_label keeps_sys) simp_all

lemma keeps_iterate:
  "scan_stable F \<Longrightarrow> (\<And>d. keeps tr0 F (callback d)) \<Longrightarrow> keeps tr0 F (ext2fs_dir_iterate2 os ino callback)"
  unfolding ext2fs_dir_iterate2_def
  by (intro keep_loop keep_intros hoare_never_True keeps_sys) simp_all

lemma keeps_iff:
  "keeps tr0 F m \<longleftrightarrow> (\<forall>s y. m s = Some y \<longrightarrow> after tr0 F s \<longrightarrow> (case fst y of Inl e \<Rightarrow> True | Inr x \<Rightarrow> after tr0 F (snd y)))"
  unfolding hoare_def wp_def by (force split: option.splits sum.splits)

lemma keeps_assert: "keeps tr0 F (assert_c b)"
  by (simp add: assert_c_def hoare_def wp_simps)

lemma keeps_recursive_relabel:
  fixes os :: "'w os"
  assumes F: "scan_stable F"
  shows "keeps tr0 F (recursive_relabel os label d)"
  unfolding keeps_iff
proof (intro allI impI, rule mp, erule relabel_rule [where os = os and label = label and
      K = "\<lambda>s y. after tr0 F s \<longrightarrow> (case fst y of Inl e \<Rightarrow> True | Inr x \<Rightarrow> after tr0 F (snd y))"])
  fix rec :: "ext2_dirent \<Rightarrow> ('w sys, unit) prog" and d s y
  assume IH: "\<And>d s y. rec d s = Some y \<Longrightarrow> after tr0 F s \<longrightarrow> (case fst y of Inl e \<Rightarrow> True | Inr x \<Rightarrow> after tr0 F (snd y))"
    and run: "relabel_step os label rec d s = Some y"
  have rec: "keeps tr0 F (rec d)" for d unfolding keeps_iff using IH by blast
  have "keeps tr0 F (relabel_step os label rec d)"
    unfolding relabel_step_def genfs_err_def
    by (intro keep_intros hoare_never_True keeps_assert keeps_process_dirent keeps_iterate F rec)
  with run show "after tr0 F s \<longrightarrow> (case fst y of Inl e \<Rightarrow> True | Inr x \<Rightarrow> after tr0 F (snd y))" unfolding keeps_iff by blast
qed

lemma keeps_callbacks:
  assumes "scan_stable F"
  shows "keeps tr0 F (dir_iterate_callback os d)" "keeps tr0 F (root_iterate_callback os uname d)"
  unfolding root_iterate_callback_def dir_iterate_callback_def Let_def genfs_err_def
  by (intro keep_intros hoare_never_True keeps_assert keeps_process_dirent keeps_iterate keeps_recursive_relabel assms)+

section \<open>The scan\<close>

definition live :: "ext2_super \<Rightarrow> response \<Rightarrow> bool" where
  "live sb r \<longleftrightarrow> rv r = 0 \<and> ucast (rval r) \<noteq> (0 :: u32) \<and>
     (ucast (rval r) = EXT2_ROOT_INO \<or> s_first_ino sb \<le> ucast (rval r)) \<and> i_links_count (ext2_ino (rext r)) \<noteq> 0"

text \<open>The normal form of the inode was written.\<close>

definition normalised :: "u64 \<Rightarrow> bool \<Rightarrow> ext2_super \<Rightarrow> (syscall \<times> response) list \<Rightarrow> response \<Rightarrow> bool" where
  "normalised ts imm sb tr r \<longleftrightarrow>
     (\<exists>x e. (Ext2 (Ext2_write_inode (ucast (rval r)) x), e) \<in> set tr \<and> rv e = 0 \<and> same_file (ext2_ino (rext r)) x \<and>
        normal_inode ts imm (ucast (rval r) = s_lpf_ino sb) x)"

definition all_normalised :: "u64 \<Rightarrow> bool \<Rightarrow> ext2_super \<Rightarrow> response set \<Rightarrow> (syscall \<times> response) list \<Rightarrow> bool" where
  "all_normalised ts imm sb X tr \<longleftrightarrow>
     (\<forall>r. (Ext2 Ext2_next_inode, r) \<in> set tr \<and> live sb r \<and> r \<notin> X \<longrightarrow> normalised ts imm sb tr r)"

definition scan_ended :: "(syscall \<times> response) list \<Rightarrow> bool" where
  "scan_ended tr \<longleftrightarrow> (\<exists>r. (Ext2 Ext2_next_inode, r) \<in> set tr \<and> rv r = 0 \<and> ucast (rval r) = (0 :: u32))"

lemma stable_all_normalised: "scan_stable (all_normalised ts imm sb X)"
  unfolding scan_stable_def all_normalised_def normalised_def by fastforce

lemma all_normalised_dead: "all_normalised ts imm sb {r} tr \<Longrightarrow> \<not> live sb r \<Longrightarrow> all_normalised ts imm sb {} tr"
  unfolding all_normalised_def by blast

lemma all_normalised_written:
  assumes "all_normalised ts imm sb {r} tr" and "normalise_inode ts imm (ucast (rval r) = s_lpf_ino sb) (ext2_ino (rext r)) = Inr x"
    and "rv e = 0"
  shows "all_normalised ts imm sb {} (tr @ [(Ext2 (Ext2_write_inode (ucast (rval r)) (clear_versions x)), e)])"
proof -
  let ?w = "(Ext2 (Ext2_write_inode (ucast (rval r)) (clear_versions x)), e)"
  have "all_normalised ts imm sb {r} (tr @ [?w])"
    using assms(1) stable_all_normalised unfolding scan_stable_def by blast
  moreover have "normalised ts imm sb (tr @ [?w]) r"
    using normalise_inode_result(1,2) [OF assms(2)] assms(3) unfolding normalised_def by auto
  ultimately show ?thesis unfolding all_normalised_def by blast
qed

lemma scan_inode_normalises:
  "hoare (\<lambda>_ _. True) (after tr0 (all_normalised ts imm sb {})) (scan_inode os ts imm sb)
     (\<lambda>r t. case r of Inl u \<Rightarrow> after tr0 (all_normalised ts imm sb {}) t
        | Inr u \<Rightarrow> after tr0 (\<lambda>tr. all_normalised ts imm sb {} tr \<and> scan_ended tr) t)"
  (is "hoare _ ?P _ ?Q")
proof -
  let ?J = "\<lambda>r tr. all_normalised ts imm sb {r} tr \<and> (Ext2 Ext2_next_inode, r) \<in> set tr"
  have stable: "scan_stable (?J r)" for r
    using stable_all_normalised [of ts imm sb "{r}"] unfolding scan_stable_def by auto
  have next_inode: "hoare (\<lambda>_ _. True) ?P (sys os (Ext2 Ext2_next_inode)) (\<lambda>r. after tr0 (?J r))"
    unfolding hoare_def wp_simps
    by (auto elim!: after_call simp add: all_normalised_def normalised_def)
  have dead: "hoare (\<lambda>_ _. True) (after tr0 (?J r)) (ret (Inl ())) ?Q" if "\<not> live sb r" for r
    using all_normalised_dead [OF _ that] by (auto simp add: hoare_def wp_simps after_def)
  have finished: "hoare (\<lambda>_ _. True) (after tr0 (?J r)) (ret (Inr ())) ?Q" if "rv r = 0" "ucast (rval r) = (0 :: u32)" for r
  proof -
    from that have "\<not> live sb r" by (simp add: live_def)
    from all_normalised_dead [OF _ this] that show ?thesis
      by (auto simp add: hoare_def wp_simps after_def scan_ended_def)
  qed
  have written: "hoare (\<lambda>_ _. True) (after tr0 (?J r))
      (bnd (qubes_write_inode_full os (ucast (rval r)) (clear_versions x)) (\<lambda>e.
       if rv e \<noteq> 0 then genfs_err os ''writing inode'' else ret (Inl ()))) ?Q"
    if "normalise_inode ts imm (ucast (rval r) = s_lpf_ino sb) (ext2_ino (rext r)) = Inr x" for r x
    unfolding hoare_def qubes_write_inode_full_def genfs_err_def errx_def wp_simps
    by (auto elim!: after_call simp add: all_normalised_written [OF _ that])
  show ?thesis
    unfolding scan_inode_def Let_def
  proof (rule hoare_bnd [OF next_inode], intro hoare_if)
    show "hoare (\<lambda>_ _. True) (after tr0 (?J r)) (genfs_err os ''obtaining next inode'') ?Q" for r
      unfolding genfs_err_def by (rule hoare_never_True)
    show "hoare (\<lambda>_ _. True) (after tr0 (?J r))
      (case normalise_inode ts imm (ucast (rval r) = s_lpf_ino sb) (ext2_ino (rext r)) of
         Inl msg \<Rightarrow> errx os 1 msg
       | Inr x \<Rightarrow> seq (set_label os (ucast (rval r)) label_modules_object)
           (bnd (qubes_write_inode_full os (ucast (rval r)) (clear_versions x)) (\<lambda>e.
            if rv e \<noteq> 0 then genfs_err os ''writing inode'' else ret (Inl ())))) ?Q" for r
      by (cases "normalise_inode ts imm (ucast (rval r) = s_lpf_ino sb) (ext2_ino (rext r))")
        (simp_all add: hoare_never_True hoare_seq [OF keeps_set_label [OF stable]] written)
  qed (auto intro!: dead finished simp add: live_def)
qed

lemma normalise_filesystem_complete:
  "hoare (\<lambda>_ _. True) (after tr0 (all_normalised ts imm sb {})) (normalise_filesystem os ts imm sb uname)
     (\<lambda>_. after tr0 (\<lambda>tr. all_normalised ts imm sb {} tr \<and> scan_ended tr))"
proof -
  let ?F = "\<lambda>tr. all_normalised ts imm sb {} tr \<and> scan_ended tr"
  have stable: "scan_stable ?F" "scan_stable (all_normalised ts imm sb {})"
    using stable_all_normalised [of ts imm sb "{}"] unfolding scan_stable_def scan_ended_def by auto
  have scan: "hoare (\<lambda>_ _. True) (after tr0 (all_normalised ts imm sb {})) (loop (\<lambda>_. scan_inode os ts imm sb) ()) (\<lambda>_. after tr0 ?F)"
    by (rule hoare_loop [where I = "\<lambda>_. after tr0 (all_normalised ts imm sb {})"]) (rule hoare_post [OF scan_inode_normalises], simp)
  show ?thesis
    unfolding normalise_filesystem_def genfs_err_def
    by (intro hoare_bnd [OF keeps_sys [OF stable(2)]] hoare_if hoare_never_True hoare_seq [OF scan]
        keep_intros keeps_sys keeps_process_dirent keeps_iterate keeps_callbacks stable) simp_all
qed

section \<open>The program\<close>

text \<open>Before the scan no inode was asked for.\<close>

definition started :: "u64 \<Rightarrow> (syscall \<times> response) list \<Rightarrow> bool" where
  "started ts tr \<longleftrightarrow> epoch_known (set tr) ts \<and> Ext2 Ext2_next_inode \<notin> fst ` set tr"

lemma read_epoch_started: "hoare (\<lambda>_ _. True) (\<lambda>t. trace t = tr0) (read_epoch os) (\<lambda>ts. after tr0 (started ts))"
  unfolding read_epoch_def hoare_def errx_def wp_simps
  by (auto simp add: after_def started_def epoch_known_def wp_simps split: sum.split)

lemma stable_started: "scan_stable (started ts)"
  unfolding scan_stable_def started_def by (auto intro: known_more(1) [rotated])

lemma known_sys:
  "scan_stable F \<Longrightarrow> c \<noteq> Ext2 Ext2_next_inode \<Longrightarrow>
   hoare (\<lambda>_ _. True) (after tr0 F) (sys os c) (\<lambda>r. after tr0 (\<lambda>tr. F tr \<and> (c, r) \<in> set tr))"
  unfolding hoare_def wp_simps scan_stable_def by (auto elim!: after_call)

lemma stable_seen: "scan_stable F \<Longrightarrow> scan_stable (\<lambda>tr. F tr \<and> ev \<in> set tr)"
  by (simp add: scan_stable_def)

lemma super_known_intros:
  "(Ext2 (Ext2_open path), r) \<in> A \<Longrightarrow> rv r = 0 \<Longrightarrow> supported siz (ext2_sb (rext r)) \<Longrightarrow>
   s_lpf_ino (ext2_sb (rext r)) \<noteq> 0 \<Longrightarrow> super_known siz path A (ext2_sb (rext r))"
  "(Ext2 (Ext2_open path), r) \<in> A \<Longrightarrow> rv r = 0 \<Longrightarrow> supported siz (ext2_sb (rext r)) \<Longrightarrow>
   s_lpf_ino (ext2_sb (rext r)) = 0 \<Longrightarrow>
   (Ext2 (Ext2_namei EXT2_ROOT_INO EXT2_ROOT_INO (ascii ''lost+found'')), q) \<in> A \<Longrightarrow> rv q = 0 \<Longrightarrow>
   ucast (rval q) \<noteq> (0 :: u32) \<Longrightarrow> super_known siz path A (ext2_sb (rext r) \<lparr>s_lpf_ino := ucast (rval q)\<rparr>)"
  unfolding super_known_def by (blast, simp, blast)

lemma open_filesystem_started:
  "hoare (\<lambda>_ _. True) (after tr0 (started ts)) (open_filesystem os siz path)
     (\<lambda>sb. after tr0 (\<lambda>tr. started ts tr \<and> super_known siz path (set tr) sb))"
  unfolding open_filesystem_def genfs_err_def Let_def
proof (rule hoare_bnd [OF known_sys [OF stable_started]], simp, intro hoare_if hoare_never_True)
  fix r :: response
  let ?sb = "ext2_sb (rext r)"
  let ?F = "\<lambda>tr. started ts tr \<and> (Ext2 (Ext2_open path), r) \<in> set tr"
  assume opened: "\<not> (rv r \<noteq> 0 \<or> rval r = 0)" "\<not> s_inode_size ?sb < siz" "\<not> s_rev_level ?sb \<noteq> EXT2_DYNAMIC_REV"
    "\<not> (s_first_error_time ?sb \<noteq> 0 \<or> s_last_error_time ?sb \<noteq> 0 \<or> s_first_error_time_hi ?sb \<noteq> 0 \<or>
        s_last_error_time_hi ?sb \<noteq> 0 \<or> s_first_error_ino ?sb \<noteq> 0)"
  then have supported: "rv r = 0" "supported siz ?sb" by (auto simp add: supported_def not_less)
  show "hoare (\<lambda>_ _. True) (after tr0 ?F) (ret ?sb) (\<lambda>sb. after tr0 (\<lambda>tr. started ts tr \<and> super_known siz path (set tr) sb))"
    if "s_lpf_ino ?sb \<noteq> 0"
    using supported that by (auto intro!: hoare_ret simp add: after_def super_known_intros(1))
  show "hoare (\<lambda>_ _. True) (after tr0 ?F) (bnd (sys os (Ext2 (Ext2_namei EXT2_ROOT_INO EXT2_ROOT_INO (ascii ''lost+found'')))) (\<lambda>r.
       if rv r \<noteq> 0 then errx os EXIT_FAILURE ''obtaining lost+found inode''
       else if ucast (rval r) = (0 :: u32) then errx os 1 ''no lost+found inode''
       else ret (?sb\<lparr>s_lpf_ino := ucast (rval r)\<rparr>)))
     (\<lambda>sb. after tr0 (\<lambda>tr. started ts tr \<and> super_known siz path (set tr) sb))"
    if "s_lpf_ino ?sb = 0"
    by (rule hoare_bnd [OF known_sys [OF stable_seen [OF stable_started]]], simp, intro hoare_if hoare_never_True hoare_ret)
      (use supported that in \<open>auto simp add: after_def intro: super_known_intros(2)\<close>)
qed

lemma all_normalised_append:
  assumes "Ext2 Ext2_next_inode \<notin> fst ` set tr" and "all_normalised ts imm sb X tr'"
  shows "all_normalised ts imm sb X (tr @ tr')"
proof -
  have "normalised ts imm sb tr' r \<Longrightarrow> normalised ts imm sb (tr @ tr') r" for r
    unfolding normalised_def by auto
  moreover have "(Ext2 Ext2_next_inode, r) \<notin> set tr" for r
    using assms(1) image_eqI [of _ fst "(Ext2 Ext2_next_inode, r)" "set tr"] by auto
  ultimately show ?thesis using assms(2) unfolding all_normalised_def by auto
qed

lemma normalise_filesystem_knows:
  fixes os :: "'w os" and uname :: bytes
  shows "hoare (\<lambda>_ _. True) (after tr0 (\<lambda>tr. started ts tr \<and> super_known siz path (set tr) sb))
     (normalise_filesystem os ts imm sb uname)
     (\<lambda>_. after tr0 (\<lambda>tr. (epoch_known (set tr) ts \<and> super_known siz path (set tr) sb) \<and>
        all_normalised ts imm sb {} tr \<and> scan_ended tr))"
proof (rule hoareI)
  fix t :: "'w sys"
  assume "after tr0 (\<lambda>tr. started ts tr \<and> super_known siz path (set tr) sb) t"
  then obtain tr where tr: "trace t = tr0 @ tr" "epoch_known (set tr) ts" "super_known siz path (set tr) sb"
      "Ext2 Ext2_next_inode \<notin> fst ` set tr"
    by (auto simp add: after_def started_def)
  have "after (trace t) (all_normalised ts imm sb {}) t" by (simp add: after_def all_normalised_def)
  from hoareD [OF normalise_filesystem_complete this]
  show "wp (normalise_filesystem os ts imm sb uname)
     (\<lambda>_. after tr0 (\<lambda>tr. (epoch_known (set tr) ts \<and> super_known siz path (set tr) sb) \<and>
        all_normalised ts imm sb {} tr \<and> scan_ended tr)) (\<lambda>_ _. True) t"
  proof (rule wp_mono)
    fix u :: "'w sys"
    assume "after (trace t) (\<lambda>tr. all_normalised ts imm sb {} tr \<and> scan_ended tr) u"
    then obtain tr' where tr': "trace u = tr0 @ (tr @ tr')" "all_normalised ts imm sb {} tr'" "scan_ended tr'"
      using tr(1) by (auto simp add: after_def)
    have "all_normalised ts imm sb {} (tr @ tr')"
      by (rule all_normalised_append [OF tr(4) tr'(2)])
    moreover have "scan_ended (tr @ tr')" using tr'(3) unfolding scan_ended_def by auto
    ultimately show "after tr0 (\<lambda>tr. (epoch_known (set tr) ts \<and> super_known siz path (set tr) sb) \<and>
        all_normalised ts imm sb {} tr \<and> scan_ended tr) u"
      unfolding after_def using tr'(1) known_more(1) [OF _ tr(2)] known_more(2) [OF _ tr(3)]
      by (intro exI [of _ "tr @ tr'"]) simp
  qed simp
qed

end
