(* ===== verification/Genfs_Theorems.thy ===== *)
theory Genfs_Theorems
  imports Genfs_Complete
begin

text \<open>
  The theorems on whole runs of the file-system tool, and a run at which they are applied.
\<close>

section \<open>A file system with one file, whose root directory is empty\<close>

definition genfs_blank :: response where
  "genfs_blank = \<lparr>rv = 0, re = 0, rdata = [], rstat = \<lparr>st_mode = 0, st_size = 0, st_atim_sec = 0, st_atim_nsec = 0,
     st_mtim_sec = 0, st_mtim_nsec = 0, st_rdev = 0\<rparr>, rvfs = (0, 0), rval = 1, rext = zero_ext2\<rparr>"

definition demo_inode :: ext2_inode where
  "demo_inode = ext2_ino zero_ext2 \<lparr>i_mode := 0x8100, i_uid := 7, i_links_count := 1\<rparr>"

fun demo_fs :: "syscall \<Rightarrow> nat \<Rightarrow> response \<times> nat" where
  "demo_fs (Xenstore (Getenv name)) n = (genfs_blank\<lparr>rdata := [0x31]\<rparr>, n)"
| "demo_fs (Ext2 Ext2_next_inode) n =
     (if n = 0 then (genfs_blank\<lparr>rval := 12, rext := zero_ext2\<lparr>ext2_ino := demo_inode\<rparr>\<rparr>, 1)
      else (genfs_blank\<lparr>rval := 0\<rparr>, n))"
| "demo_fs (Ext2 (Ext2_dir_next ino)) n = (genfs_blank\<lparr>rv := -1, rval := 0\<rparr>, n)"
| "demo_fs c n = (genfs_blank, n)"

lemma blank_sel [simp]: "rv genfs_blank = 0" "rval genfs_blank = 1" "re genfs_blank = 0" "rext genfs_blank = zero_ext2"
  by (simp_all add: genfs_blank_def)

lemma twp_loop_step: "twp (loop body x) Q E s =
    twp (body x) (\<lambda>r t. case r of Inl y \<Rightarrow> twp (loop body y) Q E t | Inr a \<Rightarrow> Q a t) E s"
  unfolding twp_def loop.simps [of body x s] by (auto split: option.split sum.split)

lemma demo_set_label:
  "(\<And>tr. Q () (sys_upd (world s) 0 tr s)) \<Longrightarrow> twp (set_label demo_fs ino l) Q E s"
  by (simp add: set_label_def wp_simps sys_res_def)

lemma demo_process_dirent:
  "(\<And>tr. Q () (sys_upd (world s) 0 tr s)) \<Longrightarrow> twp (process_dirent demo_fs ino l m) Q E s"
  unfolding process_dirent_def qubes_read_inode_full_def qubes_write_inode_full_def Let_def wp_simps
  by (rule demo_set_label) (simp add: wp_simps sys_res_def)

lemma demo_iterate:
  "(\<And>tr. Q 0 (sys_upd (world s) 0 tr s)) \<Longrightarrow> twp (ext2fs_dir_iterate2 demo_fs ino cb) Q E s"
  unfolding ext2fs_dir_iterate2_def by (subst twp_loop_step) (simp add: wp_simps sys_res_def)

lemma demo_scan_inode:
  "world s = 0 \<Longrightarrow> s_first_ino sb = 11 \<Longrightarrow> (\<And>tr. Q (Inl ()) (sys_upd 1 0 tr s)) \<Longrightarrow> twp (scan_inode demo_fs 1 True sb) Q E s"
  "world s = 1 \<Longrightarrow> (\<And>tr. Q (Inr ()) (sys_upd 1 0 tr s)) \<Longrightarrow> twp (scan_inode demo_fs 1 True sb) Q E s"
proof -
  obtain y where y: "normalise_inode 1 True (s_lpf_ino sb = 12) demo_inode = Inr y"
    by (simp add: normalise_inode_def demo_inode_def zero_ext2_def stamp_inode_def mode_defs)
  have links: "i_links_count demo_inode = 1" by (simp add: demo_inode_def)
  show "world s = 0 \<Longrightarrow> s_first_ino sb = 11 \<Longrightarrow> (\<And>tr. Q (Inl ()) (sys_upd 1 0 tr s)) \<Longrightarrow> twp (scan_inode demo_fs 1 True sb) Q E s"
    unfolding scan_inode_def qubes_write_inode_full_def Let_def
    by (simp add: wp_simps sys_res_def links y) (rule demo_set_label, simp)
  show "world s = 1 \<Longrightarrow> (\<And>tr. Q (Inr ()) (sys_upd 1 0 tr s)) \<Longrightarrow> twp (scan_inode demo_fs 1 True sb) Q E s"
    unfolding scan_inode_def Let_def by (simp add: wp_simps sys_res_def)
qed

lemma demo_scan_loop:
  assumes "world s = 0" and "s_first_ino sb = 11" and "\<And>tr. Q () (sys_upd 1 0 tr s)"
  shows "twp (loop (\<lambda>_. scan_inode demo_fs 1 True sb) ()) Q E s"
  by (subst twp_loop_step, rule demo_scan_inode(1) [OF assms(1,2)], simp only: sum.case,
      subst twp_loop_step, rule demo_scan_inode(2), simp, simp only: sum.case sys_upd_upd, rule assms(3))

lemma blank_super: "ext2_sb zero_ext2 = \<lparr>s_first_error_time = 0, s_last_error_time = 0, s_first_error_time_hi = 0,
    s_last_error_time_hi = 0, s_first_error_ino = 0, s_rev_level = 1, s_inode_size = 256, s_lpf_ino = 11, s_first_ino = 11,
    s_mtime = 0, s_wtime = 0, s_mkfs_time = 0, s_lastcheck = 0, s_mtime_hi = 0, s_wtime_hi = 0, s_mkfs_time_hi = 0,
    s_lastcheck_hi = 0, s_checkinterval = 0\<rparr>"
  by (simp add: zero_ext2_def)

lemma demo_runs:
  "\<exists>t. real_main demo_fs 160 [0x2F] (Some [0x36]) True \<lparr>world = 0, errno = 0, trace = []\<rparr> = Some (Inr 0, t) \<and> world t = 1"
proof -
  have epoch: "parse_epoch (c_str [0x31, 0]) = Inr 1" by (simp add: parse_epoch_def c_str_def)
  have "twp (real_main demo_fs 160 [0x2F] (Some [0x36]) True) (\<lambda>r t. r = 0 \<and> world t = 1) (\<lambda>_ _. False)
      \<lparr>world = 0, errno = 0, trace = []\<rparr>"
    unfolding real_main_def read_epoch_def open_filesystem_def normalise_filesystem_def
    by (simp add: wp_simps sys_res_def epoch Let_def blank_super EXT2_DYNAMIC_REV_def demo_scan_loop demo_process_dirent demo_iterate)
  from twp_returned [OF this] show ?thesis by auto
qed

section \<open>Theorems\<close>

text \<open>
  C15: Whatever the file-system library answers, a run of the tool writes an inode only after it set
  its label as the only attribute, and writes the normal form of a live inode the scan delivered or
  an inode it read again; it closes only the file system it opened and found free of errors.
\<close>

theorem real_main_justified:
  assumes "real_main os sizeof_inode_large filesystem uname mark_immutable s = Some (r, t)"
  shows "\<exists>tr. trace t = trace s @ tr \<and>
    justified (genfs_ok sizeof_inode_large filesystem (uname \<noteq> None) mark_immutable) tr"
proof -
  let ?ok = "genfs_ok sizeof_inode_large filesystem (uname \<noteq> None) mark_immutable"
  have walk: "rests ?ok (trace s) E (case uname of None \<Rightarrow> ret () | Some u \<Rightarrow>
      normalise_filesystem os timestamp mark_immutable sb u) (\<lambda>_ _. True)"
    if "epoch_known E timestamp" "super_known sizeof_inode_large filesystem E sb" for E timestamp sb
    using rests_normalise_filesystem [OF that, of mark_immutable "trace s" os] by (auto intro: rests_ret split: option.split)
  have close: "?ok A (Ext2 (Ext2_close (if timestamp = 0 then None else Some timestamp) ((stamp_super timestamp sb)\<lparr>s_checkinterval := 0\<rparr>)))"
    if "insert (Ext2 Ext2_mark_super_dirty, q) E' \<subseteq> A" "E \<subseteq> E'" "epoch_known E timestamp"
      "super_known sizeof_inode_large filesystem E sb" for A E E' timestamp sb q
  proof -
    from that(1,2) have "E \<subseteq> A" and "(Ext2 Ext2_mark_super_dirty, q) \<in> A" by auto
    with known_more(1,2) [OF \<open>E \<subseteq> A\<close>] that(3,4)
    have "close_ok sizeof_inode_large filesystem A (if timestamp = 0 then None else Some timestamp)
        ((stamp_super timestamp sb)\<lparr>s_checkinterval := 0\<rparr>)" unfolding close_ok_def by blast
    then show ?thesis by (simp add: genfs_ok_def)
  qed
  have "rests ?ok (trace s) {} (real_main os sizeof_inode_large filesystem uname mark_immutable) (\<lambda>_ _. True)"
    unfolding real_main_def genfs_err_def
  proof (rule rests_bnd [OF rests_read_epoch], rule rests_bnd [OF rests_open_filesystem], rule rests_seq [OF walk])
    fix timestamp E sb E'
    assume E: "epoch_known E timestamp" "E \<subseteq> E'" "super_known sizeof_inode_large filesystem E' sb"
    from known_more(1) [OF E(2,1)] show ts: "epoch_known E' timestamp" .
    from E(3) show "super_known sizeof_inode_large filesystem E' sb" .
    fix E'' assume "E' \<subseteq> E''"
    note close = close [OF _ this ts E(3)]
    show "rests ?ok (trace s) E'' (bnd (sys os (Ext2 Ext2_mark_super_dirty)) (\<lambda>_.
       bnd (sys os (Ext2 (Ext2_close (if timestamp = 0 then None else Some timestamp)
             ((stamp_super timestamp sb)\<lparr>s_checkinterval := 0\<rparr>)))) (\<lambda>e.
       if rv e \<noteq> 0 then errx os EXIT_FAILURE ''closing filesystem'' else ret 0))) (\<lambda>_ _. True)"
      by (intro rests_sys_bnd rests_cases(1) rests_errx rests_ret close) auto
  qed
  from rests_start [OF this assms] show ?thesis by blast
qed

theorem real_main_justified_witness:
  "\<exists>t. real_main demo_fs 160 [0x2F] (Some [0x36]) True \<lparr>world = 0, errno = 0, trace = []\<rparr> = Some (Inr 0, t) \<and>
     world t = 1 \<and> justified (genfs_ok 160 [0x2F] True True) (trace t)"
proof -
  obtain t where run: "real_main demo_fs 160 [0x2F] (Some [0x36]) True \<lparr>world = 0, errno = 0, trace = []\<rparr> = Some (Inr 0, t)"
    and "world t = 1" using demo_runs by blast
  with real_main_justified [OF run] show ?thesis by (intro exI [of _ t]) simp
qed

text \<open>
  C16: When the tool succeeds for a kernel version, its scan ran to the end and every live inode it
  delivered was written in its normal form, with the time stamp and the superblock it read.
\<close>

theorem real_main_complete:
  assumes "real_main os sizeof_inode_large filesystem (Some uname) mark_immutable s = Some (Inr r, t)"
  shows "\<exists>tr timestamp sb. trace t = trace s @ tr \<and> epoch_known (set tr) timestamp \<and>
    super_known sizeof_inode_large filesystem (set tr) sb \<and> all_normalised timestamp mark_immutable sb {} tr \<and> scan_ended tr"
proof -
  let ?K = "\<lambda>ts sb tr. epoch_known (set tr) ts \<and> super_known sizeof_inode_large filesystem (set tr) sb"
  let ?G = "\<lambda>ts sb tr. ?K ts sb tr \<and> all_normalised ts mark_immutable sb {} tr \<and> scan_ended tr"
  let ?Q = "\<lambda>t. \<exists>ts sb. after (trace s) (?G ts sb) t"
  have stable: "scan_stable (?G ts sb)" for ts sb
    using stable_all_normalised [of ts mark_immutable sb "{}"]
    unfolding scan_stable_def scan_ended_def by (auto intro: known_more(1,2) [rotated])
  have walk: "hoare (\<lambda>_ _. True) (after (trace s) (\<lambda>tr. started ts tr \<and> super_known sizeof_inode_large filesystem (set tr) sb))
      (normalise_filesystem os ts mark_immutable sb uname) (\<lambda>_. after (trace s) (?G ts sb))" for ts sb
    by (rule normalise_filesystem_knows)
  have "hoare (\<lambda>_ _. True) (\<lambda>t. trace t = trace s) (real_main os sizeof_inode_large filesystem (Some uname) mark_immutable) (\<lambda>_. ?Q)"
    unfolding real_main_def option.case genfs_err_def
  proof (rule hoare_bnd [OF read_epoch_started], rule hoare_bnd [OF open_filesystem_started], rule hoare_seq [OF walk])
    fix ts sb
    show "hoare (\<lambda>_ _. True) (after (trace s) (?G ts sb))
      (bnd (sys os (Ext2 Ext2_mark_super_dirty)) (\<lambda>_.
       bnd (sys os (Ext2 (Ext2_close (if ts = 0 then None else Some ts) ((stamp_super ts sb)\<lparr>s_checkinterval := 0\<rparr>)))) (\<lambda>e.
       if rv e \<noteq> 0 then errx os EXIT_FAILURE ''closing filesystem'' else ret 0))) (\<lambda>_. ?Q)"
      by (intro hoare_bnd [OF keeps_sys [OF stable]] hoare_if hoare_never_True hoare_ret) auto
  qed
  from hoare_outcome [OF this refl assms] show ?thesis by (auto simp add: after_def)
qed

theorem real_main_complete_witness:
  "\<exists>t timestamp sb. real_main demo_fs 160 [0x2F] (Some [0x36]) True \<lparr>world = 0, errno = 0, trace = []\<rparr> = Some (Inr 0, t) \<and>
     epoch_known (set (trace t)) timestamp \<and> all_normalised timestamp True sb {} (trace t) \<and> scan_ended (trace t)"
proof -
  obtain t where run: "real_main demo_fs 160 [0x2F] (Some [0x36]) True \<lparr>world = 0, errno = 0, trace = []\<rparr> = Some (Inr 0, t)"
    using demo_runs by blast
  from real_main_complete [OF run] obtain timestamp sb where "epoch_known (set (trace t)) timestamp"
    "all_normalised timestamp True sb {} (trace t)" "scan_ended (trace t)" by auto
  with run show ?thesis by blast
qed

end
