(* ===== verification/Gpt_Main.thy ===== *)
theory Gpt_Main
  imports Gpt
begin

text \<open>
  The command line of the partition-table tool: \<open>main\<close> of \<open>src/gptfixer/gpt.c\<close> up to the opening of the
  device, over \<open>getopt_long\<close> of the C library for long options without arguments and a first \<open>+\<close> in
  the short options, which stops at the first word that is no option.
\<close>

section \<open>getopt_long\<close>

datatype getopt = Getopt_error | Getopt_option char | Getopt_end

definition long_options :: "(bytes \<times> char) list" where
  "long_options = [(ascii ''unsafe-skip-bpb-check'', CHR ''b''), (ascii ''verbose'', CHR ''v'')]"

text \<open>An exact name, or an abbreviation of only one name.\<close>

definition match_long :: "bytes \<Rightarrow> char option" where
  "match_long name =
     (case map_of long_options name of
        Some c \<Rightarrow> Some c
      | None \<Rightarrow> (case filter (\<lambda>(n, c). take (length name) n = name) long_options of [(n, c)] \<Rightarrow> Some c | _ \<Rightarrow> None))"

text \<open>One call: its result and the next \<open>optind\<close>.\<close>

definition getopt_long :: "bytes list \<Rightarrow> nat \<Rightarrow> getopt \<times> nat" where
  "getopt_long argv optind =
     (if length argv \<le> optind then (Getopt_end, optind)
      else
        let arg = argv ! optind in
        if arg = ascii ''--'' then (Getopt_end, Suc optind)
        else if length arg < 2 \<or> hd arg \<noteq> 0x2D then (Getopt_end, optind)
        else if take 2 arg = ascii ''--'' then
          let word = drop 2 arg; name = takeWhile (\<lambda>c. c \<noteq> 0x3D) word in
          (case match_long name of
             None \<Rightarrow> (Getopt_error, Suc optind)
           | Some c \<Rightarrow> if name = word then (Getopt_option c, Suc optind) else (Getopt_error, Suc optind))
        else (Getopt_error, optind))"

section \<open>main\<close>

datatype command = Usage bool | Dash_error | Unexpected_option | Command gpt_mode bool bool bytes

definition operands :: "bytes list \<Rightarrow> nat \<Rightarrow> nat \<Rightarrow> bool \<Rightarrow> bool \<Rightarrow> command" where
  "operands argv lastind optind skip_bpb_check verbose =
     (if length argv \<noteq> optind + 2 then Usage False
      else if (optind \<noteq> lastind + 1 \<or> lastind < 1 \<or> argv ! lastind \<noteq> ascii ''--'') \<and>
          list_ex (\<lambda>arg. (arg @ [0]) ! 0 = 0x2D) (drop optind argv) then Dash_error
      else if argv ! optind = ascii ''check'' then Command MODE_CHECK skip_bpb_check verbose (argv ! (optind + 1))
      else if argv ! optind = ascii ''fix'' then Command MODE_FIX skip_bpb_check verbose (argv ! (optind + 1))
      else Usage False)"

lemma getopt_long_optind: "getopt_long argv optind = (Getopt_option c, i) \<Longrightarrow> optind < length argv \<and> i = Suc optind"
  by (auto simp add: getopt_long_def Let_def split: if_splits option.splits)

function (sequential) parse_options :: "bytes list \<Rightarrow> nat \<Rightarrow> bool \<Rightarrow> bool \<Rightarrow> command" where
  "parse_options argv lastind skip_bpb_check verbose =
     (case getopt_long argv lastind of
        (Getopt_error, optind) \<Rightarrow> Usage False
      | (Getopt_option c, optind) \<Rightarrow>
          if c = CHR ''b'' then parse_options argv optind True verbose
          else if c = CHR ''v'' then parse_options argv optind skip_bpb_check True
          else if c = CHR ''h'' then Usage True
          else Unexpected_option
      | (Getopt_end, optind) \<Rightarrow> operands argv lastind optind skip_bpb_check verbose)"
  by pat_completeness auto
termination
  by (relation "measure (\<lambda>(argv, lastind, _, _). length argv - lastind)") (auto dest!: getopt_long_optind [OF sym])

declare parse_options.simps [simp del]

definition usage_text :: "string list" where
  "usage_text =
     [''Usage:'', '' gptfix [OPTIONS] [--] [check|fix] block-device-path'' @ [CHR 0x0A] @ ''%s:'', ''Options:'',
      ''--unsafe-skip-bpb-check              Do not check for a BIOS Parameter Block (BPB) before making changes.'',
      ''                                     WARNING: in some (EXTREMELY rare) cases, this can corrupt a'',
      ''                                     FAT or NTFS file system that happens to have a valid GPT.'',
      ''--verbose                            Log a bunch of messages to stderr.'',
      ''--help                               Print this message.'']"

definition print_usage :: "'w os \<Rightarrow> bool \<Rightarrow> ('w sys, int) prog" where
  "print_usage os on_stdout =
     foldr (\<lambda>line. seq (vlog os line [])) usage_text (ret (if on_stdout then 0 else EXIT_FAILURE))"

definition gptfix_main :: "'w os \<Rightarrow> (bytes \<Rightarrow> u64) \<Rightarrow> bytes list \<Rightarrow> ('w sys, int) prog" where
  "gptfix_main os zcrc argv =
     (case parse_options argv 1 False False of
        Usage on_stdout \<Rightarrow> print_usage os on_stdout
      | Dash_error \<Rightarrow> errx os 1 ''Use -- to end options if a non-option argument starts with -''
      | Unexpected_option \<Rightarrow> halt Abort
      | Command m skip_bpb_check verbose dev \<Rightarrow> gptfix os zcrc m skip_bpb_check verbose dev)"

section \<open>The accepted command lines\<close>

definition option_word :: "bytes \<Rightarrow> char \<Rightarrow> bool" where
  "option_word arg c \<longleftrightarrow> (\<exists>name. arg = ascii ''--'' @ name \<and> name \<noteq> [] \<and> 0x3D \<notin> set name \<and> match_long name = Some c)"

lemma getopt_long_at:
  assumes "length pre = k"
  shows "getopt_long (pre @ []) k = (Getopt_end, k)"
    "getopt_long (pre @ ascii ''--'' # rest) k = (Getopt_end, Suc k)"
    "option_word a c \<Longrightarrow> getopt_long (pre @ a # rest) k = (Getopt_option c, Suc k)"
    "length a < 2 \<or> hd a \<noteq> 0x2D \<Longrightarrow> getopt_long (pre @ a # rest) k = (Getopt_end, k)"
proof -
  show "getopt_long (pre @ []) k = (Getopt_end, k)" using assms by (simp add: getopt_long_def)
  show "getopt_long (pre @ ascii ''--'' # rest) k = (Getopt_end, Suc k)" using assms by (simp add: getopt_long_def nth_append)
  show "length a < 2 \<or> hd a \<noteq> 0x2D \<Longrightarrow> getopt_long (pre @ a # rest) k = (Getopt_end, k)"
    using assms by (auto simp add: getopt_long_def nth_append ascii_def)
  assume "option_word a c"
  then obtain name where a: "a = ascii ''--'' @ name" "name \<noteq> []" "0x3D \<notin> set name" "match_long name = Some c"
    by (auto simp add: option_word_def)
  from a(3) have t: "takeWhile (\<lambda>c. c \<noteq> 0x3D) name = name" by (auto simp add: takeWhile_eq_all_conv)
  from t a(1,2,4) assms show "getopt_long (pre @ a # rest) k = (Getopt_option c, Suc k)"
    by (simp add: getopt_long_def nth_append ascii_def Let_def del: takeWhile_eq_all_conv)
qed

lemma getopt_long_rejects:
  assumes "length pre = k" and "2 \<le> length a" and "hd a = 0x2D" and "a \<noteq> ascii ''--''" and "\<And>c. \<not> option_word a c"
  shows "fst (getopt_long (pre @ a # rest) k) = Getopt_error"
proof (cases "take 2 a = ascii ''--''")
  case True
  let ?name = "takeWhile (\<lambda>c. c \<noteq> 0x3D) (drop 2 a)"
  have a: "a = ascii ''--'' @ drop 2 a" using True by (metis append_take_drop_id)
  have "\<not> (match_long ?name = Some c \<and> ?name = drop 2 a)" for c
  proof
    assume m: "match_long ?name = Some c \<and> ?name = drop 2 a"
    then have name: "?name = drop 2 a" by (rule conjunct2)
    from m have c: "match_long (drop 2 a) = Some c" unfolding name by (rule conjunct1)
    have "drop 2 a \<noteq> []" using a assms(4) by fastforce
    moreover have "0x3D \<notin> set ?name" by (auto dest: set_takeWhileD)
    then have "0x3D \<notin> set (drop 2 a)" unfolding name .
    ultimately have "option_word a c" unfolding option_word_def using a c by (intro exI [of _ "drop 2 a"] conjI)
    with assms(5) show False by blast
  qed
  with assms True show ?thesis
    by (auto simp add: getopt_long_def nth_append Let_def simp del: takeWhile_eq_all_conv split: option.split)
qed (use assms in \<open>simp add: getopt_long_def nth_append Let_def\<close>)

fun mode_word :: "gpt_mode \<Rightarrow> bytes" where
  "mode_word MODE_CHECK = ascii ''check''"
| "mode_word MODE_FIX = ascii ''fix''"
| "mode_word MODE_UNKNOWN = []"

definition dashed :: "bytes \<Rightarrow> bool" where
  "dashed arg \<longleftrightarrow> (arg @ [0]) ! 0 = 0x2D"

text \<open>The words after the program: options, a separator, the mode and the device.\<close>

definition command_words :: "bytes list \<Rightarrow> bytes list \<Rightarrow> gpt_mode \<Rightarrow> bytes \<Rightarrow> bytes list \<Rightarrow> bool" where
  "command_words opts sep m dev ws \<longleftrightarrow>
     ws = opts @ sep @ [mode_word m, dev] \<and> m \<noteq> MODE_UNKNOWN \<and> list_all (\<lambda>a. \<exists>c. option_word a c) opts \<and>
     (sep = [ascii ''--''] \<or> sep = [] \<and> \<not> dashed dev)"

definition given :: "char \<Rightarrow> bytes list \<Rightarrow> bool" where
  "given c opts \<longleftrightarrow> (\<exists>a \<in> set opts. option_word a c)"

lemma option_word_shape: "option_word a c \<Longrightarrow> 2 < length a \<and> hd a = 0x2D"
  by (auto simp add: option_word_def ascii_def)

lemma option_word_char: "option_word a c \<Longrightarrow> c = CHR ''b'' \<or> c = CHR ''v''"
  by (auto simp add: option_word_def match_long_def long_options_def split: if_splits option.splits list.splits)

lemma option_word_unique: "option_word a c \<Longrightarrow> option_word a d \<Longrightarrow> c = d"
  by (auto simp add: option_word_def)

lemma mode_word_plain: "m \<noteq> MODE_UNKNOWN \<Longrightarrow> hd (mode_word m) \<noteq> 0x2D \<and> 2 < length (mode_word m)"
  by (cases m) (simp_all add: ascii_def)

lemma mode_words_distinct: "ascii ''--'' \<noteq> mode_word m" "length (mode_word m) < 2 \<Longrightarrow> m = MODE_UNKNOWN"
  by (cases m; simp add: ascii_def)+

lemma option_word_plain: "option_word a c \<Longrightarrow> a \<noteq> ascii ''--'' \<and> (\<forall>m. m \<noteq> MODE_UNKNOWN \<longrightarrow> a \<noteq> mode_word m)"
  using option_word_shape [of a c] mode_word_plain by (auto simp add: ascii_def)

lemma operands_two:
  assumes "length p = i"
  shows "operands (p @ [w, d]) l i sk vb =
    (if (i \<noteq> l + 1 \<or> l < 1 \<or> (p @ [w, d]) ! l \<noteq> ascii ''--'') \<and> (dashed w \<or> dashed d) then Dash_error
     else if w = ascii ''check'' then Command MODE_CHECK sk vb d
     else if w = ascii ''fix'' then Command MODE_FIX sk vb d else Usage False)"
proof -
  have idx: "(p @ [w, d]) ! i = w" "(p @ [w, d]) ! (i + 1) = d" "drop i (p @ [w, d]) = [w, d]"
    "length (p @ [w, d]) = i + 2" using assms by (simp_all add: nth_append)
  show ?thesis unfolding operands_def idx by (simp add: dashed_def)
qed

lemma operands_length: "length ws \<noteq> 2 \<Longrightarrow> length p = i \<Longrightarrow> operands (p @ ws) l i sk vb = Usage False"
  by (simp add: operands_def)

lemma two_words: "length xs = 2 \<Longrightarrow> \<exists>x y. xs = [x, y]"
  by (auto simp add: length_Suc_conv numeral_2_eq_2)

lemma mode_words:
  "(if w = ascii ''check'' then Command MODE_CHECK sk vb d else if w = ascii ''fix'' then Command MODE_FIX sk vb d else Usage False) =
     Command m s v dev \<longleftrightarrow> w = mode_word m \<and> m \<noteq> MODE_UNKNOWN \<and> d = dev \<and> s = sk \<and> v = vb"
  by (cases m) (auto simp add: ascii_def)

lemma mode_word_undashed: "m \<noteq> MODE_UNKNOWN \<Longrightarrow> \<not> dashed (mode_word m)"
  by (cases m) (simp_all add: dashed_def ascii_def)

lemma operands_at:
  assumes k: "length pre = k" "1 \<le> k"
  shows "operands (pre @ ascii ''--'' # ws) k (Suc k) sk vb = Command m s v dev \<longleftrightarrow>
      (ws = [mode_word m, dev] \<and> m \<noteq> MODE_UNKNOWN \<and> s = sk \<and> v = vb)"
    "operands (pre @ ws) k k sk vb = Command m s v dev \<longleftrightarrow>
      (ws = [mode_word m, dev] \<and> m \<noteq> MODE_UNKNOWN \<and> \<not> dashed dev \<and> s = sk \<and> v = vb)"
proof -
  show "operands (pre @ ascii ''--'' # ws) k (Suc k) sk vb = Command m s v dev \<longleftrightarrow>
      (ws = [mode_word m, dev] \<and> m \<noteq> MODE_UNKNOWN \<and> s = sk \<and> v = vb)"
  proof (cases "length ws = 2")
    case True
    then obtain w d where ws: "ws = [w, d]" using two_words by blast
    have "operands ((pre @ [ascii ''--'']) @ [w, d]) k (Suc k) sk vb =
        (if w = ascii ''check'' then Command MODE_CHECK sk vb d else if w = ascii ''fix'' then Command MODE_FIX sk vb d else Usage False)"
      using k by (subst operands_two) (simp_all add: nth_append)
    then show ?thesis unfolding ws by (auto simp add: mode_words)
  qed (use k operands_length [of ws "pre @ [ascii ''--'']"] in auto)
  show "operands (pre @ ws) k k sk vb = Command m s v dev \<longleftrightarrow>
      (ws = [mode_word m, dev] \<and> m \<noteq> MODE_UNKNOWN \<and> \<not> dashed dev \<and> s = sk \<and> v = vb)"
  proof (cases "length ws = 2")
    case True
    then obtain w d where ws: "ws = [w, d]" using two_words by blast
    have "operands (pre @ [w, d]) k k sk vb = (if dashed w \<or> dashed d then Dash_error
        else if w = ascii ''check'' then Command MODE_CHECK sk vb d else if w = ascii ''fix'' then Command MODE_FIX sk vb d else Usage False)"
      using k by (subst operands_two) simp_all
    then show ?thesis unfolding ws using mode_word_undashed [of m] mode_words [of w sk vb d m s v dev] by auto
  qed (use k operands_length [of ws pre] in auto)
qed

lemma command_words_Cons:
  "command_words opts sep m dev (a # ws) \<longleftrightarrow>
     (\<exists>c opts'. opts = a # opts' \<and> option_word a c \<and> command_words opts' sep m dev ws) \<or>
     opts = [] \<and> sep = [ascii ''--''] \<and> a = ascii ''--'' \<and> ws = [mode_word m, dev] \<and> m \<noteq> MODE_UNKNOWN \<or>
     opts = [] \<and> sep = [] \<and> a # ws = [mode_word m, dev] \<and> m \<noteq> MODE_UNKNOWN \<and> \<not> dashed dev"
  by (cases opts) (auto simp add: command_words_def)

lemma parse_step:
  "getopt_long argv k = (Getopt_end, i) \<Longrightarrow> parse_options argv k sk vb = operands argv k i sk vb"
  "getopt_long argv k = (Getopt_error, i) \<Longrightarrow> parse_options argv k sk vb = Usage False"
  "getopt_long argv k = (Getopt_option (CHR ''b''), i) \<Longrightarrow> parse_options argv k sk vb = parse_options argv i True vb"
  "getopt_long argv k = (Getopt_option (CHR ''v''), i) \<Longrightarrow> parse_options argv k sk vb = parse_options argv i sk True"
  by (subst parse_options.simps, simp)+

lemma first_word:
  "(\<And>opts sep. P opts sep \<longleftrightarrow> (\<exists>opts'. opts = a # opts' \<and> Q opts' sep)) \<Longrightarrow>
   (\<exists>opts sep. P opts sep \<and> A opts \<and> B opts) \<longleftrightarrow> (\<exists>opts' sep. Q opts' sep \<and> A (a # opts') \<and> B (a # opts'))"
  by auto

lemma parse_options_at:
  "length pre = k \<Longrightarrow> 1 \<le> k \<Longrightarrow> parse_options (pre @ ws) k sk vb = Command m s v dev \<longleftrightarrow>
     (\<exists>opts sep. command_words opts sep m dev ws \<and> (s \<longleftrightarrow> sk \<or> given (CHR ''b'') opts) \<and> (v \<longleftrightarrow> vb \<or> given (CHR ''v'') opts))"
proof (induction ws arbitrary: pre k sk vb)
  case Nil
  have "parse_options (pre @ []) k sk vb = Usage False"
    using Nil operands_length [of "[]" pre k k sk vb] parse_step(1) [OF getopt_long_at(1) [OF Nil(1)]] by simp
  then show ?case by (simp add: command_words_def)
next
  case (Cons a ws)
  note at = getopt_long_at [OF Cons.prems(1)]
  let ?R = "\<lambda>ws sk vb. \<exists>opts sep. command_words opts sep m dev ws \<and> (s \<longleftrightarrow> sk \<or> given (CHR ''b'') opts) \<and> (v \<longleftrightarrow> vb \<or> given (CHR ''v'') opts)"
  consider (option) c where "option_word a c" | (sep) "a = ascii ''--''" | (plain) "length a < 2 \<or> hd a \<noteq> 0x2D"
    | (bad) "2 \<le> length a" "hd a = 0x2D" "a \<noteq> ascii ''--''" "\<And>c. \<not> option_word a c"
    by (meson not_less)
  then show ?case
  proof cases
    case option
    have step: "parse_options (pre @ a # ws) k sk vb = parse_options ((pre @ [a]) @ ws) (Suc k) (sk \<or> c = CHR ''b'') (vb \<or> c = CHR ''v'')"
      using option_word_char [OF option]
    proof
      assume c: "c = CHR ''b''"
      show ?thesis using parse_step(3) [OF at(3) [OF option, of ws, unfolded c]] unfolding c by simp
    next
      assume c: "c = CHR ''v''"
      show ?thesis using parse_step(4) [OF at(3) [OF option, of ws, unfolded c]] unfolding c by simp
    qed
    have IH: "parse_options ((pre @ [a]) @ ws) (Suc k) (sk \<or> c = CHR ''b'') (vb \<or> c = CHR ''v'') = Command m s v dev \<longleftrightarrow>
        ?R ws (sk \<or> c = CHR ''b'') (vb \<or> c = CHR ''v'')"
      by (rule Cons.IH) (use Cons.prems in simp_all)
    have "option_word a x \<longleftrightarrow> c = x" for x using option option_word_unique [OF option, of x] by blast
    then have g: "given x (a # opts) \<longleftrightarrow> c = x \<or> given x opts" for x opts by (simp add: given_def)
    have "command_words opts sep m dev (a # ws) \<longleftrightarrow> (\<exists>opts'. opts = a # opts' \<and> command_words opts' sep m dev ws)" for opts sep
      unfolding command_words_Cons using option option_word_plain [OF option] by blast
    then have "?R (a # ws) sk vb \<longleftrightarrow> (\<exists>opts' sep. command_words opts' sep m dev ws \<and>
        (s \<longleftrightarrow> sk \<or> given (CHR ''b'') (a # opts')) \<and> (v \<longleftrightarrow> vb \<or> given (CHR ''v'') (a # opts')))"
      by (rule first_word)
    then have "?R (a # ws) sk vb \<longleftrightarrow> ?R ws (sk \<or> c = CHR ''b'') (vb \<or> c = CHR ''v'')"
      by (simp only: g disj_assoc)
    with step IH show ?thesis by simp
  next
    case sep
    have "\<not> option_word a c" for c using sep option_word_plain [of a c] by blast
    then have "?R (a # ws) sk vb \<longleftrightarrow> ws = [mode_word m, dev] \<and> m \<noteq> MODE_UNKNOWN \<and> s = sk \<and> v = vb"
      unfolding command_words_Cons using sep mode_words_distinct(1) [of m] by (auto simp add: given_def)
    moreover have "parse_options (pre @ a # ws) k sk vb = operands (pre @ ascii ''--'' # ws) k (Suc k) sk vb"
      unfolding sep by (rule parse_step(1) [OF at(2)])
    ultimately show ?thesis using operands_at(1) [OF Cons.prems] by simp
  next
    case plain
    have plain_sep: "a \<noteq> ascii ''--''" using plain by (auto simp add: ascii_def)
    have "\<not> option_word a c" for c using plain option_word_shape [of a c] by auto
    then have "?R (a # ws) sk vb \<longleftrightarrow> a # ws = [mode_word m, dev] \<and> m \<noteq> MODE_UNKNOWN \<and> \<not> dashed dev \<and> s = sk \<and> v = vb"
      unfolding command_words_Cons using plain_sep by (auto simp add: given_def)
    moreover have "parse_options (pre @ a # ws) k sk vb = operands (pre @ a # ws) k k sk vb"
      by (rule parse_step(1) [OF at(4) [OF plain]])
    ultimately show ?thesis using operands_at(2) [OF Cons.prems] by simp
  next
    case bad
    have "\<not> ?R (a # ws) sk vb" unfolding command_words_Cons using bad mode_word_plain [of m] by auto
    moreover have "parse_options (pre @ a # ws) k sk vb = Usage False"
      using getopt_long_rejects [OF Cons.prems(1) bad, of ws]
      by (cases "getopt_long (pre @ a # ws) k") (simp add: parse_step(2))
    ultimately show ?thesis by simp
  qed
qed

text \<open>
  C24: The command line is accepted exactly when it is options of the two kinds, the mode and the
  device, with a separator between them when the device starts with a dash; what is run is what the
  words say.
\<close>

theorem command_line_exact:
  "parse_options (prog # ws) 1 False False = Command m s v dev \<longleftrightarrow>
     (\<exists>opts sep. command_words opts sep m dev ws \<and> s = given (CHR ''b'') opts \<and> v = given (CHR ''v'') opts)"
  using parse_options_at [of "[prog]" 1 ws False False m s v dev] by simp

end
