(* ===== verification/Validator_Test.thy ===== *)
theory Validator_Test
  imports Display_Sanitize Path_Validation Unicode_Generator
begin

text \<open>
  The test driver of the validators, \<open>src/qrexec-lib/validator-test.c\<close>: a run of it is true when no
  assertion fails and no \<open>abort\<close> is reached.  The macros it takes from ICU are a parameter; a string
  literal is its bytes and a terminator.
\<close>

unbundle bit_operations_syntax

record icu_utf8 = icu +
  U8_APPEND :: "u32 \<Rightarrow> bytes \<times> bool"
  U8_GET :: "bytes \<Rightarrow> int"
  U_IS_SURROGATE :: "u32 \<Rightarrow> bool"

section \<open>Characters\<close>

definition character_must_be_allowed :: "icu_utf8 \<Rightarrow> u32 \<Rightarrow> bool" where
  "character_must_be_allowed icu c =
     (case U8_APPEND icu c of (buf, e) \<Rightarrow>
        \<not> e \<and> length buf \<le> 4 \<and> qubes_pure_code_point_safe_for_display c \<and>
        qubes_pure_string_safe_for_display (buf @ [0]) 0 = Some True)"

text \<open>The bytes the driver writes for a code point; \<open>None\<close> is an early return.\<close>

definition encoded_by_hand :: "u32 \<Rightarrow> bytes option" where
  "encoded_by_hand c =
     (if sint c < 0 then None
      else if sint c < 2 ^ 7 then Some [ucast c]
      else if sint c < 2 ^ 11 then Some [ucast (0xC0 OR drop_bit 6 c), ucast (0x80 OR (c AND 0x3F))]
      else if sint c < 2 ^ 16 then
        Some [ucast (0xE0 OR drop_bit 12 c), ucast (0x80 OR (drop_bit 6 c AND 0x3F)), ucast (0x80 OR (c AND 0x3F))]
      else if sint c < 0x140000 then
        Some [ucast (0xF0 OR drop_bit 18 c), ucast (0x80 OR (drop_bit 12 c AND 0x3F)),
          ucast (0x80 OR (drop_bit 6 c AND 0x3F)), ucast (0x80 OR (c AND 0x3F))]
      else None)"

definition character_must_be_forbidden :: "icu_utf8 \<Rightarrow> u32 \<Rightarrow> bool" where
  "character_must_be_forbidden icu c =
     (\<not> qubes_pure_code_point_safe_for_display c \<and>
      (case encoded_by_hand c of
         None \<Rightarrow> True
       | Some buf \<Rightarrow>
           (if sint c < 0x110000 \<and> \<not> U_IS_SURROGATE icu c then 0 \<le> U8_GET icu buf \<and> U8_GET icu buf = sint c else True) \<and>
           qubes_pure_string_safe_for_display (buf @ [0]) 0 = Some False))"

section \<open>Symbolic links\<close>

type_synonym symlink_check = "bytes \<times> bytes \<times> u32 \<times> bool"

text \<open>The result is whether a test failed.\<close>

definition symlink_test :: "symlink_check list \<Rightarrow> bool" where
  "symlink_test symlink_checks =
     list_ex (\<lambda>(path, target, flags, allowed).
       \<not> (case qubes_pure_validate_symbolic_link_v2 (path @ [0]) (target @ [0]) flags of
            None \<Rightarrow> False | Some r \<Rightarrow> (r = 0) = allowed)) symlink_checks"

definition symlink_checks :: "symlink_check list" where
  "symlink_checks =
     [(ascii ''a'', ascii ''b'', 0, False),
      (ascii ''a/b'', ascii ''../a'', 0, False),
      (ascii ''a'', ascii ''b'', 0, False),
      (ascii ''a/b'', ascii ''../a'', 0, False),
      (ascii ''a/b'', ascii ''../a'', 0, False),
      (ascii ''a/b'', ascii ''../a/b/c'', 0, False),
      (ascii ''a/b'', ascii ''../a/b/c'', 0, False),
      (ascii ''a/b/c'', ascii ''../../a'', 0, False),
      (ascii ''a/b/c'', ascii ''../../a'', 0, False),
      (ascii ''a/b'', ascii ''a'', 0, True),
      (ascii ''a/b/c'', ascii ''../a'', 0, True),
      (ascii ''a/b/c'', ascii ''/a'', 0, False),
      (ascii ''a/b/c'', ascii ''/a'', 0, False),
      (ascii ''a/b/c'', ascii ''..'', 0, True),
      (ascii ''a/b/c'', ascii ''a/'', 0, True),
      (ascii ''..'', ascii ''a/'', 0, False),
      (ascii ''..'', ascii ''a/'', QUBES_PURE_ALLOW_UNSAFE_SYMLINKS, False),
      (ascii ''a'', ascii ''/home/user/.bashrc'', QUBES_PURE_ALLOW_UNSAFE_SYMLINKS, True),
      (ascii ''a'', ascii ''/home/user/.bashrc'', 0, False),
      (ascii ''a/b'', ascii ''b//c'', QUBES_PURE_ALLOW_NON_CANONICAL_PATHS, True),
      (ascii ''a//b'', ascii ''b//c'', QUBES_PURE_ALLOW_NON_CANONICAL_PATHS, True),
      (ascii ''a/b/c'', ascii ''a/'', QUBES_PURE_ALLOW_TRAILING_SLASH, True),
      (ascii ''a/b/c'', ascii ''a/'', 0, True),
      (ascii ''a/b/c/'', ascii ''a/'', 0, False),
      (ascii ''a/b/c/'', ascii ''a/'', QUBES_PURE_ALLOW_TRAILING_SLASH, True)]"

definition canonical_checks :: "u32 \<Rightarrow> symlink_check list" where
  "canonical_checks flags =
     [(ascii ''a/b'', ascii ''b//c'', flags, flags \<noteq> 0),
      (ascii ''a/b'', ascii ''b/./c'', flags, flags \<noteq> 0),
      (ascii ''a/b'', ascii ''./c'', flags, flags \<noteq> 0),
      (ascii ''a/b'', ascii ''././c'', flags, flags \<noteq> 0),
      (ascii ''a/b'', ascii ''././'', flags, flags \<noteq> 0),
      (ascii ''a/b'', ascii ''c/./'', flags, flags \<noteq> 0),
      (ascii ''b/c'', [], flags, flags \<noteq> 0),
      (ascii ''b/c'', ascii ''.'', flags, flags \<noteq> 0),
      (ascii ''a//b'', ascii ''b'', flags, False),
      (ascii ''a/./b'', ascii ''b'', flags, False),
      (ascii ''./b/c'', ascii ''b'', flags, False),
      (ascii ''a/b'', ascii ''..'', flags, False),
      (ascii ''a/b'', ascii ''../b'', flags, False),
      (ascii ''a/b'', ascii ''/c'', flags, False),
      (ascii ''b'', ascii ''c'', flags, False),
      (ascii ''b'', ascii ''.'', flags, False)]"

section \<open>Sanitising\<close>

text \<open>One call on the buffer, with the expected result and string.\<close>

definition sanitize_test :: "bytes \<times> nat \<times> nat \<times> bytes \<Rightarrow> bytes \<Rightarrow> bytes option" where
  "sanitize_test = (\<lambda>(text, max_line_length, len, expected) buf.
     case qubes_pure_sanitize_string_safe_for_display (text @ [0]) buf max_line_length of
       None \<Rightarrow> None
     | Some (buf, n) \<Rightarrow> if n = len \<and> c_str buf = expected then Some buf else None)"

definition sanitize_checks :: "(bytes \<times> nat \<times> nat \<times> bytes) list" where
  "sanitize_checks =
     [([], 128, 1, []),
      (ascii ''Hello'', 128, 6, ascii ''Hello''),
      ([0xCE, 0xB2], 128, 3, [0xCE, 0xB2]),
      ([0xF0, 0x9F, 0x99, 0x82], 128, 2, ascii ''_''),
      ([0xE0], 128, 2, ascii ''_''),
      ([0xE0, 0x20], 128, 3, ascii ''_ ''),
      (ascii ''ABCD'', 4, 4, ascii ''ABC''),
      ([0x41, 0xCE, 0xB2], 3, 2, ascii ''A''),
      ([0x41, 0xF0, 0x9F, 0x99, 0x82], 3, 3, ascii ''A_''),
      ([0x61, 0x80, 0x62], 10, 4, ascii ''a_b''),
      ([0x61, 0xC0, 0xAF, 0x62], 10, 5, ascii ''a__b''),
      ([0x61, 0xED, 0xA0, 0x80, 0x62], 10, 4, ascii ''a_b'')]"

definition test_string_sanitization :: "bytes \<Rightarrow> bool" where
  "test_string_sanitization buf \<longleftrightarrow> fold (\<lambda>t b. Option.bind b (sanitize_test t)) sanitize_checks (Some buf) \<noteq> None"

section \<open>main\<close>

definition file_name_checks :: "(bytes \<times> bool) list" where
  "file_name_checks =
     [(ascii ''simple_safe_filename.txt'', True), (ascii ''..'', False), (ascii ''../..'', False), (ascii ''a/..'', False),
      (ascii ''a/../b'', False), (ascii ''/'', False), (ascii ''//'', False), (ascii ''///'', False),
      (ascii ''/a'', False), (ascii ''//a'', False), (ascii ''///a'', False), (ascii ''a//b'', False),
      (ascii ''.'', False), (ascii ''a/.'', False), (ascii ''./a'', False), (ascii ''a/./a'', False),
      (ascii ''..'', False), (ascii ''a/..'', False), (ascii ''../a'', False), (ascii ''a/../a'', False),
      (ascii ''.a'', True), (ascii ''..a'', True)]"

definition later_file_names :: "bytes list" where
  "later_file_names =
     [[0xCE, 0xB2] @ ascii ''.txt'', [0xCE, 0xB1] @ ascii ''.txt'', [0xD0, 0x80] @ ascii ''.txt'', [0xE2, 0x80, 0x9C]]"

definition charset_check :: "nat \<Rightarrow> bool" where
  "charset_check i =
     (let always_forbidden = i = 0x2F \<or> i = 0x2E \<or> i = 0; bad_unicode = i < 0x20 \<or> i > 0x7E; buf = [word_of_nat i, 0] in
      qubes_pure_validate_file_name_v2 buf QUBES_PURE_ALLOW_UNSAFE_CHARACTERS = Some (if always_forbidden then - EILSEQ else 0) \<and>
      qubes_pure_validate_file_name_v2 buf 0 = Some (if always_forbidden \<or> bad_unicode then - EILSEQ else 0))"

definition cjk_ranges :: "(nat \<times> nat) list" where
  "cjk_ranges = [(0x03400, 0x04DBF), (0x04E00, 0x09FFC), (0x20000, 0x2A6DD), (0x2A700, 0x2B734), (0x2B740, 0x2B81D), (0x2B820, 0x2CEA1), (0x2CEB0, 0x2EBE0), (0x30000, 0x3134A)]"

definition forbidden :: "(nat \<times> nat) list" where
  "forbidden = [(0x0, 0x1F), (0x0007F, 0x0009F), (0x0E000, 0x0F8FF), (0xA0, 0xA0), (0x02000, 0x0200A), (0x0205F, 0x0205F), (0x0180E, 0x0180E), (0x01680, 0x01680), (0x202A, 0x202B), (0x0FDD0, 0x0FDEF), (0x0FFFE, 0x0FFFF), (0x1FFFE, 0x1FFFF), (0x2FFFE, 0x2FFFF), (0x0323B0, 0x10FFFF), (0x110000, 0xFFFFFFFE)]"

definition in_ranges :: "(u32 \<Rightarrow> bool) \<Rightarrow> (nat \<times> nat) list \<Rightarrow> bool" where
  "in_ranges check ranges = list_all (\<lambda>(lo, hi). list_all (\<lambda>v. check (word_of_nat v)) [lo..<Suc hi]) ranges"

definition too_complex :: "bytes list" where
  "too_complex =
     [[0xF0, 0x9F, 0x8F, 0xB3], [0xEF, 0xB8, 0x8F], [0xE2, 0x80, 0x8D], [0xE2, 0x9A, 0xA0],
      [0xF0, 0x9F, 0x99, 0x82], [0xF0, 0x92, 0x80, 0x80]]"

definition surrogate_check :: "nat \<Rightarrow> bool" where
  "surrogate_check v =
     (let i = word_of_nat v :: u32;
          b0 = ucast (drop_bit 12 i OR 0xE0) :: u8; b1 = ucast (0x80 OR (drop_bit 6 i AND 0x3F)) :: u8;
          b2 = ucast (0x80 OR (i AND 0x3F)) :: u8 in
      b0 = 0xED \<and> 0xA0 \<le> b1 \<and> b1 \<le> 0xBF \<and> qubes_pure_string_safe_for_display [b0, b1, b2, 0] 0 = Some False \<and>
      \<not> qubes_pure_code_point_safe_for_display i)"

definition beyond_check :: "nat \<Rightarrow> nat \<Rightarrow> nat \<Rightarrow> bool" where
  "beyond_check i j k =
     (qubes_pure_string_safe_for_display [0xF4, word_of_nat i, word_of_nat j, word_of_nat k, 0] 0 = Some False)"

definition code_point_check :: "icu_utf8 \<Rightarrow> nat \<Rightarrow> bool" where
  "code_point_check icu i =
     (let j = word_of_nat i :: u32 in
      if j < 32 \<or> j = 0x7F \<or> \<not> U_IS_UNICODE_CHAR icu j then \<not> qubes_pure_code_point_safe_for_display j else j < 0x10FFFFE)"

definition validator_test :: "icu_utf8 \<Rightarrow> bytes \<Rightarrow> bool" where
  "validator_test icu buf \<longleftrightarrow>
     test_string_sanitization buf \<and>
     list_all (\<lambda>(name, allowed). qubes_pure_validate_file_name (name @ [0]) = Some allowed) file_name_checks \<and>
     list_all charset_check [0..<256] \<and>
     \<not> (symlink_test symlink_checks \<or> symlink_test (canonical_checks 0) \<or>
        symlink_test (canonical_checks QUBES_PURE_ALLOW_NON_CANONICAL_SYMLINKS)) \<and>
     list_all (\<lambda>name. qubes_pure_validate_file_name (name @ [0]) = Some True) later_file_names \<and>
     in_ranges (character_must_be_allowed icu) ((0x20, 0x7E) # cjk_ranges) \<and>
     in_ranges (character_must_be_forbidden icu) forbidden \<and>
     list_all (\<lambda>s. qubes_pure_string_safe_for_display (s @ [0]) 0 = Some False) too_complex \<and>
     list_all surrogate_check [0xD800..<0xE000] \<and>
     list_all (\<lambda>i. list_all (\<lambda>j. list_all (beyond_check i j) [0x80..<0xC0]) [0x80..<0xC0]) [0x90..<0xC0] \<and>
     list_all (code_point_check icu) [0..<2 ^ 32]"

end
