(* ===== verification/Validator_Test_Props.thy ===== *)
theory Validator_Test_Props
  imports Validator_Test
begin

text \<open>
  The test driver succeeds on the modelled validators: evaluation of its finite tables, and the
  general facts about single characters that its loops over ranges need.
\<close>

unbundle bit_operations_syntax

lemma list_all_upt: "(\<And>v. a \<le> v \<Longrightarrow> v < b \<Longrightarrow> P v) \<Longrightarrow> list_all P [a..<b]"
  by (simp add: list_all_iff)

section \<open>Tables\<close>

lemma file_names_ok: "list_all (\<lambda>(name, allowed). qubes_pure_validate_file_name (name @ [0]) = Some allowed) file_name_checks"
  by code_simp

lemma later_file_names_ok: "list_all (\<lambda>name. qubes_pure_validate_file_name (name @ [0]) = Some True) later_file_names"
  by code_simp

lemma symlinks_ok:
  "\<not> symlink_test symlink_checks" "\<not> symlink_test (canonical_checks 0)"
  "\<not> symlink_test (canonical_checks QUBES_PURE_ALLOW_NON_CANONICAL_SYMLINKS)"
  by code_simp+

lemma complex_ok: "list_all (\<lambda>s. qubes_pure_string_safe_for_display (s @ [0]) 0 = Some False) too_complex"
  by code_simp

lemma sanitize_checks_ok:
  "list_all (\<lambda>(str, n, len, expected). 0 \<notin> set str \<and> 0 < n \<and> n \<le> 128 \<and> sanitize_text (n - 1) str = expected \<and>
     len = length expected + 1 \<and> 0 \<notin> set expected) sanitize_checks"
  by code_simp

lemma cjk_in_table:
  "list_all (\<lambda>(lo, hi). list_ex (\<lambda>(a, b). unat a \<le> lo \<and> hi \<le> unat b) unicode_allowlist_table) ((0x20, 0x7E) # cjk_ranges)"
  by (simp add: unicode_allowlist_table_def cjk_ranges_def)

lemma forbidden_outside_table:
  "list_all (\<lambda>(lo, hi). hi < 2 ^ 32 \<and> list_all (\<lambda>(a, b). unat b < lo \<or> hi < unat a) unicode_allowlist_table) forbidden"
  by (simp add: unicode_allowlist_table_def forbidden_def)

section \<open>Sanitising\<close>

lemma c_str_overwrite: "0 \<notin> set t \<Longrightarrow> c_str (overwrite buf 0 (t @ [0])) = t"
  by (simp add: overwrite_def c_str_append_nul)

lemma sanitize_test_passes:
  assumes "length buf = 128" and "0 \<notin> set str" and "0 < n" and "n \<le> 128" and "sanitize_text (n - 1) str = expected"
    and "0 \<notin> set expected"
  shows "\<exists>buf'. sanitize_test (str, n, length expected + 1, expected) buf = Some buf' \<and> length buf' = 128"
proof -
  have "c_str (str @ [0]) = str" "nul_terminated (str @ [0])"
    using assms(2) c_str_append_nul [of str "[]"] by (simp_all add: nul_terminated_append)
  with sanitize_spec [of "str @ [0]" n buf] assms
  have "sanitize_test (str, n, length expected + 1, expected) buf = Some (overwrite buf 0 (expected @ [0]))"
    by (simp add: sanitize_test_def c_str_overwrite)
  moreover have "length expected < n" using length_sanitize_text [of "n - 1" str] assms(3) unfolding assms(5) by linarith
  ultimately show ?thesis using assms(1,4) by simp
qed

lemma sanitization_ok:
  assumes "length buf = 128"
  shows "test_string_sanitization buf"
proof -
  have "\<exists>buf'. fold (\<lambda>t b. Option.bind b (sanitize_test t)) ts (Some buf) = Some buf' \<and> length buf' = 128"
    if "list_all (\<lambda>(str, n, len, expected). 0 \<notin> set str \<and> 0 < n \<and> n \<le> 128 \<and> sanitize_text (n - 1) str = expected \<and>
       len = length expected + 1 \<and> 0 \<notin> set expected) ts" "length buf = 128" for ts and buf :: bytes
    using that
  proof (induction ts arbitrary: buf)
    case (Cons t ts)
    obtain str n len expected where t: "t = (str, n, len, expected)" by (cases t)
    from Cons.prems t obtain buf' where "sanitize_test t buf = Some buf'" "length buf' = 128"
      using sanitize_test_passes [of buf str n expected] by auto
    with Cons show ?case by simp
  qed simp
  from this [OF sanitize_checks_ok assms] show ?thesis by (auto simp add: test_string_sanitization_def)
qed

section \<open>Single characters\<close>

lemma string_safe_byte:
  "qubes_pure_string_safe_for_display [w, 0] 0 = Some (printable w)"
proof (cases "w = 0")
  case True
  then show ?thesis
    using string_safe_loop_spec [of "[]" "[]" "[0]"] by (simp add: qubes_pure_string_safe_for_display_def printable_def)
next
  case False
  have "display_safe [w] \<longleftrightarrow> printable w"
  proof (cases "printable w")
    case False
    have "\<not> display_safe [w]"
    proof
      assume "display_safe [w]"
      then obtain cp s' where cp: "qubes_pure_code_point_safe_for_display cp" "[w] = safe_char cp @ s'" by (rule display_safeE)
      then have "safe_char cp = [w]" by (cases "safe_char cp") simp_all
      then have "unat cp < 0x80" "byte (unat cp) = w"
        by (auto simp add: safe_char_def utf8_encode_def split: if_splits)
      then have "unat w = unat cp" by auto
      with safe_for_display_bounds(1,3) [OF cp(1)] \<open>unat cp < 0x80\<close> False show False
        by (auto simp add: printable_def word_le_nat_alt)
    qed
    with False show ?thesis by simp
  qed (simp add: printable_display_safe)
  with string_safe_loop_spec [of "[w]" "[]" "[]"] False show ?thesis by (simp add: qubes_pure_string_safe_for_display_def)
qed

lemma string_safe_encoded:
  assumes "\<not> qubes_pure_code_point_safe_for_display (word_of_nat n)" and "0x80 \<le> n" and "n < 0x140000"
  shows "qubes_pure_string_safe_for_display (utf8_encode n @ [0]) 0 = Some False"
proof -
  from utf8_encode_lead [OF assms(2,3)] obtain c t where e: "utf8_encode n = c # t" "192 \<le> unat c" by blast
  then have "\<not> (0x20 \<le> c \<and> c \<le> 0x7E)" by (simp add: word_le_nat_alt)
  with e(1) validate_utf8_encode [OF assms(2,3), of "[0]"] assms(1)
  have "char_step (utf8_encode n @ [0]) 0 = Some 0"
    by (auto simp add: char_step_def validate_utf8_char_safe_for_display_def signed_len_def)
  then show ?thesis by (simp add: qubes_pure_string_safe_for_display_def string_safe_loop_step [of _ 0])
qed

lemma string_safe_allowed:
  assumes "qubes_pure_code_point_safe_for_display cp"
  shows "qubes_pure_string_safe_for_display (utf8_encode (unat cp) @ [0]) 0 = Some True"
  using string_safe_loop_spec [OF safe_char_no_nul [OF assms], of "[]" "[]"] display_safe_append [OF assms, of "[]"]
  by (simp add: qubes_pure_string_safe_for_display_def safe_char_def)

lemma charset_ok: "list_all charset_check [0..<256]"
proof -
  have "charset_check i" if "i < 256" for i
  proof -
    let ?w = "word_of_nat i :: u8"
    have w: "unat ?w = i" using that by (simp add: unat_word_of_nat_small)
    then have eq: "?w = 0 \<longleftrightarrow> i = 0" "?w = 0x2F \<longleftrightarrow> i = 0x2F" "?w = 0x2E \<longleftrightarrow> i = 0x2E"
      by (auto simp add: word_unat_eq_iff)
    have "printable ?w \<longleftrightarrow> 0x20 \<le> i \<and> i \<le> 0x7E" using w by (simp add: printable_def word_le_nat_alt)
    then show ?thesis
      using validate_path_c_str [of "[?w, 0]" 0] eq
      by (auto simp add: charset_check_def Let_def qubes_pure_validate_file_name_v2_def flag_check_def flag_defs has_flag_def
          nul_terminated_def c_str_def path_spec_def split_slash_no_slash chars_ok_def string_safe_byte)
  qed
  then show ?thesis by (rule list_all_upt)
qed

section \<open>Encoding by hand\<close>

lemma unat_mask_bits:
  fixes x :: u32
  shows "unat (x AND 0x3F) = unat x mod 64" "unat (x AND 0x1F) = unat x mod 32" "unat (x AND 0xF) = unat x mod 16"
    "unat (x AND 0x7) = unat x mod 8"
proof -
  have m: "unat (x AND mask k) = unat x mod 2 ^ k" for k
  proof -
    have "unat (x AND mask k) = take_bit k (unat x)" by (simp flip: take_bit_eq_mask add: unsigned_take_bit_eq)
    then show ?thesis by (simp add: take_bit_eq_mod)
  qed
  show "unat (x AND 0x3F) = unat x mod 64" using m [of 6] by (simp add: mask_eq_exp_minus_1)
  show "unat (x AND 0x1F) = unat x mod 32" using m [of 5] by (simp add: mask_eq_exp_minus_1)
  show "unat (x AND 0xF) = unat x mod 16" using m [of 4] by (simp add: mask_eq_exp_minus_1)
  show "unat (x AND 0x7) = unat x mod 8" using m [of 3] by (simp add: mask_eq_exp_minus_1)
qed

lemma mask_same:
  fixes x :: u32
  shows "unat x < 32 \<Longrightarrow> x AND 0x1F = x" "unat x < 16 \<Longrightarrow> x AND 0xF = x" "unat x < 8 \<Longrightarrow> x AND 0x7 = x"
  by (simp_all add: word_unat_eq_iff unat_mask_bits)

lemma ucast_byte: "(ucast (z :: u32) :: u8) = byte (unat z)"
  by (simp add: byte_def word_unat_eq_iff unsigned_ucast_eq take_bit_eq_mod)

lemma tag_byte:
  fixes x :: u32
  shows "(ucast (0x80 OR (x AND 0x3F)) :: u8) = byte (0x80 + unat x mod 64)"
    "unat x < 32 \<Longrightarrow> (ucast (0xC0 OR x) :: u8) = byte (0xC0 + unat x)"
    "unat x < 16 \<Longrightarrow> (ucast (0xE0 OR x) :: u8) = byte (0xE0 + unat x)"
    "unat x < 8 \<Longrightarrow> (ucast (0xF0 OR x) :: u8) = byte (0xF0 + unat x)"
proof -
  have low: "(ucast (a OR (y AND m)) :: u8) = byte (unat a + unat (y AND m))" if "a AND m = 0" "unat a < 2 ^ 31" "unat m < 2 ^ 31"
    for a m y :: u32
  proof -
    have "a AND (y AND m) = 0" using that(1) by (metis and.commute and.left_commute and_zero_eq)
    then have "a OR (y AND m) = a + (y AND m)" by (rule disjunctive_add_eq_or [symmetric])
    moreover have "unat (y AND m) < 2 ^ 31" using that(3) word_and_le1 [of m y] word_and_le2 [of m y] word_and_le1 [of y m] by (simp add: word_le_nat_alt and.commute)
    ultimately have "unat (a OR (y AND m)) = unat a + unat (y AND m)" using that(2) by (simp add: unat_word_ariths)
    then show ?thesis by (simp only: ucast_byte)
  qed
  show "(ucast (0x80 OR (x AND 0x3F)) :: u8) = byte (0x80 + unat x mod 64)"
    using low [of "0x80" "0x3F" x] by (simp add: unat_mask_bits)
  show "unat x < 32 \<Longrightarrow> (ucast (0xC0 OR x) :: u8) = byte (0xC0 + unat x)"
    using low [of "0xC0" "0x1F" x] mask_same [of x] unat_mask_bits(2) [of x] by simp
  show "unat x < 16 \<Longrightarrow> (ucast (0xE0 OR x) :: u8) = byte (0xE0 + unat x)"
    using low [of "0xE0" "0xF" x] mask_same [of x] unat_mask_bits(3) [of x] by simp
  show "unat x < 8 \<Longrightarrow> (ucast (0xF0 OR x) :: u8) = byte (0xF0 + unat x)"
    using low [of "0xF0" "0x7" x] mask_same [of x] unat_mask_bits(4) [of x] by simp
qed

lemma unat_shift_right: "unat (drop_bit k (c :: u32)) = unat c div 2 ^ k"
proof -
  have "unat (drop_bit k c) = drop_bit k (unat c)"
    by (rule bit_eqI) (auto simp add: bit_unsigned_iff bit_drop_bit_eq dest: bit_imp_le_length)
  then show ?thesis by (simp only: drop_bit_eq_div)
qed

lemma sint_negative:
  assumes "2 ^ 31 \<le> unat (c :: u32)"
  shows "sint c < 0"
proof -
  have "unat c < 2 ^ LENGTH(32)" by (rule unsigned_less)
  with assms have "unat c div 2 ^ 31 = 1" by simp
  then have "int (unat c div 2 ^ 31) = 1" by (simp only: of_nat_1)
  then have "uint c div 2 ^ 31 = 1" by (simp only: of_nat_div of_nat_power of_nat_numeral uint_nat)
  then have "bit (uint c) 31" by (simp add: bit_iff_odd)
  then show ?thesis by (simp add: sint_uint)
qed

lemma encoded_by_hand_utf8:
  "encoded_by_hand c = (if unat c < 0x140000 then Some (utf8_encode (unat c)) else None)"
proof (cases "unat c < 2 ^ 31")
  case True
  then have i: "sint c = int (unat c)" by (intro sint_small) simp
  have "sint c < int m \<longleftrightarrow> unat c < m" for m unfolding i by (rule of_nat_less_iff)
  from this [of "128"] this [of "2048"] this [of "65536"] this [of "1310720"]
  have i: "sint c < 128 \<longleftrightarrow> unat c < 128" "sint c < 2048 \<longleftrightarrow> unat c < 2048" "sint c < 65536 \<longleftrightarrow> unat c < 65536"
    "sint c < 1310720 \<longleftrightarrow> unat c < 1310720"
    unfolding of_nat_numeral .
  have pos: "\<not> sint c < 0" by (simp add: \<open>sint c = int (unat c)\<close>)
  note shift = unat_shift_right [of 6 c] unat_shift_right [of 12 c] unat_shift_right [of 18 c]
  consider "unat c < 0x80" | "0x80 \<le> unat c" "unat c < 0x800" | "0x800 \<le> unat c" "unat c < 0x10000"
    | "0x10000 \<le> unat c" "unat c < 0x140000" | "0x140000 \<le> unat c" by linarith
  then show ?thesis
  proof cases
    case 1
    then show ?thesis by (simp add: encoded_by_hand_def i pos utf8_encode_def ucast_byte)
  next
    case 2
    then have "unat (drop_bit 6 c) < 32" by (simp add: shift less_mult_imp_div_less)
    with 2 show ?thesis by (simp add: encoded_by_hand_def i pos utf8_encode_def tag_byte shift)
  next
    case 3
    then have "unat (drop_bit 12 c) < 16" by (simp add: shift less_mult_imp_div_less)
    with 3 show ?thesis by (simp add: encoded_by_hand_def i pos utf8_encode_def tag_byte shift)
  next
    case 4
    then have "unat (drop_bit 18 c) < 8" by (simp add: shift less_mult_imp_div_less)
    with 4 show ?thesis by (simp add: encoded_by_hand_def i pos utf8_encode_def tag_byte shift)
  next
    case 5
    then show ?thesis by (simp add: encoded_by_hand_def i pos)
  qed
next
  case False
  then show ?thesis using sint_negative [of c] by (simp add: encoded_by_hand_def)
qed

section \<open>Loops over ranges\<close>

text \<open>What the documentation of ICU says of the macros.\<close>

definition scalar_value :: "nat \<Rightarrow> bool" where
  "scalar_value n \<longleftrightarrow> n < 0xD800 \<or> 0xE000 \<le> n \<and> n < 0x110000"

definition noncharacter :: "nat \<Rightarrow> bool" where
  "noncharacter n \<longleftrightarrow> 0xFDD0 \<le> n \<and> n \<le> 0xFDEF \<or> 0xFFFE \<le> n mod 0x10000"

definition icu_documented :: "icu_utf8 \<Rightarrow> bool" where
  "icu_documented icu \<longleftrightarrow>
     (\<forall>c. U_IS_UNICODE_CHAR icu c \<longleftrightarrow> scalar_value (unat c) \<and> \<not> noncharacter (unat c)) \<and>
     (\<forall>c. U_IS_SURROGATE icu c \<longleftrightarrow> 0xD800 \<le> unat c \<and> unat c < 0xE000) \<and>
     (\<forall>c. scalar_value (unat c) \<longrightarrow>
        U8_APPEND icu c = (utf8_encode (unat c), False) \<and> U8_GET icu (utf8_encode (unat c)) = int (unat c))"

lemma safe_scalar: "qubes_pure_code_point_safe_for_display c \<Longrightarrow> scalar_value (unat c) \<and> \<not> noncharacter (unat c)"
  using safe_for_display_bounds [of c] by (auto simp add: scalar_value_def noncharacter_def)

lemma in_rangesI:
  "(\<And>lo hi v. (lo, hi) \<in> set rs \<Longrightarrow> lo \<le> v \<Longrightarrow> v \<le> hi \<Longrightarrow> check (word_of_nat v)) \<Longrightarrow> in_ranges check rs"
  unfolding in_ranges_def list_all_iff by auto

lemma allowed_ok:
  assumes "icu_documented icu"
  shows "in_ranges (character_must_be_allowed icu) ((0x20, 0x7E) # cjk_ranges)"
proof -
  have "character_must_be_allowed icu c" if "qubes_pure_code_point_safe_for_display c" for c
  proof -
    from assms safe_scalar [OF that] have "U8_APPEND icu c = (utf8_encode (unat c), False)" by (simp add: icu_documented_def)
    then show ?thesis using that string_safe_allowed [OF that] by (simp add: character_must_be_allowed_def utf8_encode_def)
  qed
  moreover have "qubes_pure_code_point_safe_for_display (word_of_nat v)"
    if "(lo, hi) \<in> set ((0x20, 0x7E) # cjk_ranges)" "lo \<le> v" "v \<le> hi" for lo hi v
  proof -
    from cjk_in_table that(1) obtain a b where ab: "(a, b) \<in> set unicode_allowlist_table" "unat a \<le> lo" "hi \<le> unat b"
      by (fastforce simp add: list_all_iff list_ex_iff)
    have "unat b < 2 ^ LENGTH(32)" by (rule unsigned_less)
    with ab(3) that(3) have "v < 2 ^ LENGTH(32)" by linarith
    then have "unat (word_of_nat v :: u32) = v" by (simp add: unat_word_of_nat_small)
    with ab that(2,3) show ?thesis
      unfolding qubes_pure_code_point_safe_for_display_def list_ex_iff by (intro bexI [OF _ ab(1)]) (simp add: word_le_nat_alt)
  qed
  ultimately show ?thesis by (blast intro: in_rangesI)
qed

lemma forbidden_character:
  assumes "icu_documented icu" and "\<not> qubes_pure_code_point_safe_for_display c"
  shows "character_must_be_forbidden icu c"
proof (cases "unat c < 0x140000")
  case True
  have sint: "sint c = int (unat c)" using True by (intro sint_small) simp
  have get: "U8_GET icu (utf8_encode (unat c)) = int (unat c)" if "sint c < 0x110000" "\<not> U_IS_SURROGATE icu c"
  proof -
    have "unat c < 0x110000" using that(1) unfolding sint by linarith
    with that(2) assms(1) show ?thesis by (auto simp add: icu_documented_def scalar_value_def)
  qed
  have "qubes_pure_string_safe_for_display (utf8_encode (unat c) @ [0]) 0 = Some False"
  proof (cases "unat c < 0x80")
    case True
    then have "\<not> printable (byte (unat c))"
      using assms(2) printable_ascii_safe_for_display [of c] by (auto simp add: printable_def word_le_nat_alt)
    with True show ?thesis using string_safe_byte [of "byte (unat c)"] by (simp add: utf8_encode_ascii)
  next
    case False
    with assms(2) True show ?thesis by (intro string_safe_encoded) simp_all
  qed
  with True assms(2) get sint show ?thesis by (simp add: character_must_be_forbidden_def encoded_by_hand_utf8)
qed (use assms(2) in \<open>simp add: character_must_be_forbidden_def encoded_by_hand_utf8\<close>)

lemma forbidden_ok:
  assumes "icu_documented icu"
  shows "in_ranges (character_must_be_forbidden icu) forbidden"
proof -
  have "\<not> qubes_pure_code_point_safe_for_display (word_of_nat v)"
    if "(lo, hi) \<in> set forbidden" "lo \<le> v" "v \<le> hi" for lo hi v
  proof
    assume "qubes_pure_code_point_safe_for_display (word_of_nat v)"
    then obtain a b where ab: "(a, b) \<in> set unicode_allowlist_table" "unat a \<le> unat (word_of_nat v :: u32)"
      "unat (word_of_nat v :: u32) \<le> unat b" by (rule safe_for_display_rangeE)
    from forbidden_outside_table that(1) ab(1) have "hi < 2 ^ 32" "unat b < lo \<or> hi < unat a"
      by (fastforce simp add: list_all_iff)+
    moreover from this(1) have "unat (word_of_nat v :: u32) = v" using that(3) by (simp add: unat_word_of_nat_small)
    ultimately show False using ab(2,3) that(2,3) by linarith
  qed
  then show ?thesis by (blast intro: in_rangesI forbidden_character [OF assms])
qed

lemma surrogates_ok: "list_all surrogate_check [0xD800..<0xE000]"
proof -
  have "surrogate_check v" if v: "0xD800 \<le> v" "v < 0xE000" for v
  proof -
    let ?i = "word_of_nat v :: u32"
    have i: "unat ?i = v" using v(2) by (simp add: unat_word_of_nat_small)
    have forbidden: "\<not> qubes_pure_code_point_safe_for_display ?i" using safe_scalar [of ?i] v by (auto simp add: i scalar_value_def)
    have d: "v div 4096 = 13" using v by simp
    have "v div 64 \<le> 895" "864 \<le> v div 64" using v by simp_all
    then obtain r where r: "v div 64 = r + 13 * 64" "32 \<le> r" "r < 64"
      by (intro that [of "v div 64 - 832"]) simp_all
    have e: "32 \<le> v div 64 mod 64" unfolding r(1) mod_mult_self1 using r(2,3) by simp
    have enc: "utf8_encode v = [0xED, byte (0x80 + v div 64 mod 64), byte (0x80 + v mod 64)]"
      using v d by (simp add: utf8_encode_def byte_def)
    have "unat (drop_bit 12 ?i) < 16" using v by (simp add: unat_shift_right i)
    from tag_byte(3) [OF this] have b0: "(ucast (drop_bit 12 ?i OR 0xE0) :: u8) = 0xED"
      by (simp add: or.commute [of "drop_bit 12 ?i"] unat_shift_right i d byte_def)
    have b1: "(ucast (0x80 OR (drop_bit 6 ?i AND 0x3F)) :: u8) = byte (0x80 + v div 64 mod 64)"
      and b2: "(ucast (0x80 OR (?i AND 0x3F)) :: u8) = byte (0x80 + v mod 64)"
      by (simp_all add: tag_byte(1) unat_shift_right i)
    have bounds: "0xA0 \<le> byte (0x80 + v div 64 mod 64)" "byte (0x80 + v div 64 mod 64) \<le> 0xBF"
      using e by (simp_all add: word_le_nat_alt)
    have "0x80 \<le> v" "v < 0x140000" using v by linarith+
    from string_safe_encoded [OF forbidden this, unfolded enc append.simps]
    have str: "qubes_pure_string_safe_for_display [0xED, byte (0x80 + v div 64 mod 64), byte (0x80 + v mod 64), 0] 0 = Some False" .
    show ?thesis unfolding surrogate_check_def Let_def b0 b1 b2 str
      by (simp only: bounds forbidden simp_thms)
  qed
  then show ?thesis by (rule list_all_upt)
qed

lemma beyond_ok: "list_all (\<lambda>i. list_all (\<lambda>j. list_all (beyond_check i j) [0x80..<0xC0]) [0x80..<0xC0]) [0x90..<0xC0]"
proof (intro list_all_upt)
  fix i j k :: nat
  assume ijk: "0x90 \<le> i" "i < 0xC0" "0x80 \<le> j" "j < 0xC0" "0x80 \<le> k" "k < 0xC0"
  define n where "n = ((4 * 64 + (i - 0x80)) * 64 + (j - 0x80)) * 64 + (k - 0x80)"
  have "0x10 \<le> i - 0x80" "i - 0x80 < 64" "j - 0x80 < 64" "k - 0x80 < 64" using ijk by simp_all
  then have n1: "0x110000 \<le> n" and n2: "n < 0x140000" unfolding n_def by simp_all
  note n = n1 n2
  have "utf8_encode n = [byte (0xF0 + 4), byte (0x80 + (i - 0x80)), byte (0x80 + (j - 0x80)), byte (0x80 + (k - 0x80))]"
    by (rule utf8_encode_4) (use ijk n in \<open>simp_all add: n_def\<close>)
  then have enc: "utf8_encode n = [0xF4, word_of_nat i, word_of_nat j, word_of_nat k]" using ijk by (simp add: byte_def)
  have "unat (word_of_nat n :: u32) = n" using n(2) by (simp add: unat_word_of_nat_small)
  then have "\<not> qubes_pure_code_point_safe_for_display (word_of_nat n)"
    using safe_for_display_bounds(2) [of "word_of_nat n"] n(1) by auto
  from string_safe_encoded [OF this _ n(2)] n(1) show "beyond_check i j k" unfolding beyond_check_def enc by simp
qed

lemma code_points_ok:
  assumes "icu_documented icu"
  shows "list_all (code_point_check icu) [0..<2 ^ 32]"
proof (rule list_all_upt)
  fix v :: nat
  let ?j = "word_of_nat v :: u32"
  show "code_point_check icu v"
  proof (cases "?j < 32 \<or> ?j = 0x7F \<or> \<not> U_IS_UNICODE_CHAR icu ?j")
    case True
    have "\<not> qubes_pure_code_point_safe_for_display ?j"
    proof
      assume safe: "qubes_pure_code_point_safe_for_display ?j"
      from safe_scalar [OF this] assms have "U_IS_UNICODE_CHAR icu ?j" by (simp add: icu_documented_def)
      with True safe_for_display_bounds(1,3) [OF safe] show False by (auto simp add: word_less_nat_alt)
    qed
    with True show ?thesis by (simp add: code_point_check_def)
  next
    case False
    with assms have "scalar_value (unat ?j)" by (simp add: icu_documented_def)
    then have "?j < 0x10FFFFE" by (auto simp add: scalar_value_def word_less_nat_alt)
    with False show ?thesis by (simp add: code_point_check_def)
  qed
qed

section \<open>Theorem\<close>

text \<open>
  C29: The test driver of the repository succeeds on the modelled validators, for every ICU library
  that does what its documentation says and whatever its buffer holds at first.
\<close>

theorem validator_test_passes:
  assumes "icu_documented icu" and "length buf = 128"
  shows "validator_test icu buf"
  unfolding validator_test_def
  using sanitization_ok [OF assms(2)] file_names_ok charset_ok symlinks_ok later_file_names_ok complex_ok
    allowed_ok [OF assms(1)] forbidden_ok [OF assms(1)] surrogates_ok beyond_ok code_points_ok [OF assms(1)]
  by blast

text \<open>A library that encodes by the reference encoder and decodes the inputs the driver has.\<close>

definition demo_decode :: "bytes \<Rightarrow> int" where
  "demo_decode b = int
     (case map unat b of
        [x] \<Rightarrow> x
      | [x, y] \<Rightarrow> (x - 0xC0) * 64 + (y - 0x80)
      | [x, y, z] \<Rightarrow> ((x - 0xE0) * 64 + (y - 0x80)) * 64 + (z - 0x80)
      | [x, y, z, w] \<Rightarrow> (((x - 0xF0) * 64 + (y - 0x80)) * 64 + (z - 0x80)) * 64 + (w - 0x80)
      | _ \<Rightarrow> 0)"

definition demo_utf8 :: icu_utf8 where
  "demo_utf8 = \<lparr>U_IS_UNICODE_CHAR = (\<lambda>c. scalar_value (unat c) \<and> \<not> noncharacter (unat c)), u_charType = (\<lambda>_. U_OTHER_LETTER),
     u_charDirection = (\<lambda>_. U_LEFT_TO_RIGHT), uscript_getScript = (\<lambda>_. (0, ''USCRIPT_LATIN'')),
     uscript_getUsage = (\<lambda>_. USCRIPT_USAGE_RECOMMENDED), U8_APPEND = (\<lambda>c. (utf8_encode (unat c), False)),
     U8_GET = demo_decode, U_IS_SURROGATE = (\<lambda>c. 0xD800 \<le> unat c \<and> unat c < 0xE000)\<rparr>"

lemma demo_decode_encode: "n < 0x110000 \<Longrightarrow> demo_decode (utf8_encode n) = int n"
proof -
  assume n: "n < 0x110000"
  have three: "(n div 4096 * 64 + n div 64 mod 64) * 64 + n mod 64 = n"
    using div_mult_mod_eq [of n 64] div_mult_mod_eq [of "n div 64" 64] by (simp add: div_4096)
  have "n div 262144 * 64 + n div 4096 mod 64 = n div 4096"
    using div_mult_mod_eq [of "n div 4096" 64] by (simp add: div_4096 div_262144)
  with three have four: "((n div 262144 * 64 + n div 4096 mod 64) * 64 + n div 64 mod 64) * 64 + n mod 64 = n" by simp
  consider "n < 0x80" | "0x80 \<le> n" "n < 0x800" | "0x800 \<le> n" "n < 0x10000" | "0x10000 \<le> n" by linarith
  then show ?thesis
  proof cases
    case 2
    then have "n div 64 < 32" by simp
    with 2 div_mult_mod_eq [of n 64] show ?thesis by (simp add: utf8_encode_def demo_decode_def)
  next
    case 3
    then have "n div 4096 < 16" by simp
    with 3 three show ?thesis by (simp add: utf8_encode_def demo_decode_def)
  next
    case 4
    then have "n div 262144 < 8" using n by simp
    with 4 four show ?thesis by (simp add: utf8_encode_def demo_decode_def)
  qed (simp add: utf8_encode_def demo_decode_def)
qed

lemma demo_utf8_documented: "icu_documented demo_utf8"
  by (auto simp add: icu_documented_def demo_utf8_def demo_decode_encode scalar_value_def)

theorem validator_test_passes_witness: "validator_test demo_utf8 (replicate 128 0x55)"
  by (rule validator_test_passes [OF demo_utf8_documented]) simp

end
