(* ===== verification/Spec2Isabelle.thy ===== *)
theory Spec2Isabelle
  imports Unicode_Allowlist Utf8_Display Display_Sanitize Path_Validation Qube_Name
    Crc32 Sys_Prog Syscalls Sys_Common Sys_Reason File_Io Filecopy_Format Unpack Unpack_Props Pack Pack_Props File_Transfer
    Gpt_Format Gpt Gpt_Props Gpt_Layout Gpt_Safety Gpt_Theorems
    Not_Script Not_Script_Props Not_Script_Safety Meminfo Meminfo_Props
    Unicode_Generator Unicode_Generator_Props Ext2_Types Genfs Genfs_Props Genfs_Safety Genfs_Complete Genfs_Theorems
    Gpt_Main Validator_Test Validator_Test_Props
begin

text \<open>
  A verification of the C code of qubes-linux-utils.

  \<^bold>\<open>The program.\<close>  The repository holds the file-copy library used between qubes
  (\<open>src/qrexec-lib\<close>), with its pure validators of untrusted strings, and a few system tools
  (\<open>src/gptfixer\<close>, \<open>src/qmemman\<close>, \<open>src/not-script\<close>, \<open>src/kernel-modules\<close>).  A sending qube
  walks a directory tree and writes headers, names and contents to a pipe (\<open>pack.c\<close>); the
  receiving qube reads that stream, validates every name and link target (\<open>unicode.c\<close>), creates
  the files (\<open>unpack.c\<close>) and answers with a status and a checksum (\<open>crc32.c\<close>).  Everything the
  receiver reads is untrusted.

  \<^bold>\<open>Theories.\<close>
  \<^item> \<open>Qubes_Prelude\<close>: machine types, checked buffer accesses (\<open>None\<close> is an access outside the
    buffer), C strings, errno values.
  \<^item> \<open>Unicode_Allowlist\<close>: \<open>unicode-allowlist-table.c\<close> and
    \<open>qubes_pure_code_point_safe_for_display\<close>.
  \<^item> \<open>Utf8_Display\<close>: the UTF-8 decoder and \<open>qubes_pure_string_safe_for_display\<close>, proved to accept
    exactly the non-empty strings of shortest-form encodings of allowed code points.
  \<^item> \<open>Display_Sanitize\<close>: \<open>qubes_pure_sanitize_string_safe_for_display\<close>: bounds, safety of the
    output, idempotence, and its off-by-one at the end of the buffer.
  \<^item> \<open>Path_Validation\<close>: \<open>validate_path\<close> and the file-name and symbolic-link validators.  The
    scanner refines a specification by path components; accepted names are characterised
    exactly; accepted links stay below the top-level directory of their name.
  \<^item> \<open>Qube_Name\<close>: \<open>qube-name.c\<close>, equivalent to the documented rules.
  \<^item> \<open>Crc32\<close>: \<open>crc32.c\<close>; the table equals the bit-serial CRC, bursts of four bytes are detected, and
    the locale \<open>incremental_checksum\<close> says what its clients use.
  \<^item> \<open>Sys_Prog\<close>: programs that may stop the process or never return, the loop combinator every C
    loop instantiates, and its partial and total correctness calculi.
  \<^item> \<open>Syscalls\<close>: the calls to the operating system, answered by a parameter \<open>os\<close> over any type of
    world; every call and answer is recorded in a trace.
  \<^item> \<open>Sys_Common\<close>, \<open>Sys_Reason\<close>: what the system tools share, and proof rules for all clients: what a
    returning program returns, which calls it makes, which earlier answers a call rests on
    (\<open>justified\<close>, \<open>rests\<close>), and that it ends.
  \<^item> \<open>File_Io\<close>: \<open>ioall.c\<close> and \<open>copy-file.c\<close>; total correctness for every environment that does not
    interrupt forever.
  \<^item> \<open>Filecopy_Format\<close>: the structures of \<open>libqubes-rpc-filecopy.h\<close> and their bytes; the locale
    \<open>wire_format\<close> is interpreted on each header.
  \<^item> \<open>Unpack\<close>, \<open>Unpack_Props\<close>: \<open>unpack.c\<close>, every function, and its safety and functional
    correctness for all environments and all input streams.
  \<^item> \<open>Pack\<close>, \<open>Pack_Props\<close>: \<open>pack.c\<close>, every function.  For all environments, the calls of a
    returning walk are those of the relation \<open>walked\<close>, which ties every entry sent to the answers
    of \<open>lstat\<close>, \<open>readdir\<close>, \<open>read\<close> and \<open>readlink\<close>, and the checksum is the one of the bytes written;
    the walk over a finite tree returns; the verdicts the packer accepts are characterised.
  \<^item> \<open>File_Transfer\<close>: both ends together: the entries sent are the entries accepted, and an accepted
    verdict excludes corruption by a short burst; the transfer of a file is run at both ends.

  \<^item> \<open>Gpt_Format\<close>, \<open>Gpt\<close>: the partition-table tool \<open>gpt.c\<close> from opening the device on; its
    on-disk structures are wire formats.
  \<^item> \<open>Gpt_Main\<close>: its command line, with \<open>getopt_long\<close> of the C library, and the command lines it
    accepts.
  \<^item> \<open>Gpt_Props\<close>, \<open>Gpt_Layout\<close>, \<open>Gpt_Safety\<close>, \<open>Gpt_Theorems\<close>: rounding and word arithmetic, the
    exact verdict on headers, the invariant of tables that were read, the layout of a rewritten
    table, the places and the order of all writes, termination.

  \<^item> \<open>Not_Script\<close>, \<open>Not_Script_Props\<close>, \<open>Not_Script_Safety\<close>: the block-device hotplug script
    \<open>not-script.c\<close>, every function.  The values of its keys are parsed exactly and round-trip; the
    search for a loop device ends; every key written, every device configured, opened for writing
    or cleared rests on answers that identify it.

  \<^item> \<open>Meminfo\<close>, \<open>Meminfo_Props\<close>: the memory reporter \<open>meminfo-writer.c\<close>, every function: what it parses
    from the kernel's text and when it overruns it, how far the published value may be off, and
    what an update publishes.

  \<^item> \<open>Unicode_Generator\<close>, \<open>Unicode_Generator_Props\<close>: the generator of the allowlist,
    \<open>unicode-generator.c\<close>, over an arbitrary ICU library: it ends, and what it prints holds exactly
    the code points it permits; a table that decides the same makes the display decision of
    \<open>Unicode_Allowlist\<close> the decision of the generator.

  \<^item> \<open>Validator_Test\<close>, \<open>Validator_Test_Props\<close>: the test driver \<open>validator-test.c\<close>; all its
    assertions hold of the modelled validators, for every ICU library that does what its
    documentation says.

  \<^item> \<open>Ext2_Types\<close>, \<open>Genfs\<close>: the tool that normalises and labels a file system of kernel modules,
    \<open>genfs.c\<close>, every function, over an arbitrary file-system library.
  \<^item> \<open>Genfs_Props\<close>, \<open>Genfs_Safety\<close>, \<open>Genfs_Complete\<close>, \<open>Genfs_Theorems\<close>: the normal form of an
    inode, what every write rests on, that a successful run normalised every live inode, and the
    theorems at a concrete run.

  \<^bold>\<open>Conventions.\<close>  A C function that only computes is a HOL function with option results for
  undefined behaviour; a C function that calls the operating system is a \<open>prog\<close> over a record of
  the file-scope variables.  Unsigned integers are words of their C width (\<open>unsigned long\<close> is 64
  bits wide); lengths and indices that cannot wrap are naturals.  Loops over
  buffers are functions with termination proofs, loops over system calls are \<open>loop\<close>, for which
  \<open>None\<close> means that the C loop does not end, and the theorems on \<open>write_all\<close>, \<open>read_all\<close> and
  \<open>copy_file\<close> prove that they return.  The only fuel is the nesting depth of \<open>do_fs_walk\<close>: 4097
  is enough, because a path grows with every level and \<open>lstat\<close> refuses paths of 4096 bytes, and a
  larger bound gives the same result.

  \<^bold>\<open>Not modelled.\<close>  Memory allocation other than \<open>strdup\<close>, \<open>asprintf\<close> and the checked \<open>malloc\<close> of
  the system tools (so the unchecked \<open>malloc\<close> of \<open>parse\<close> in \<open>meminfo-writer.c\<close> always
  succeeds); the text of most diagnostic
  messages, and those of \<open>getopt_long\<close> and of the test driver altogether.  The libraries zlib, ICU
  and libext2fs, the kernel, the C library's system calls and XenStore are parameters.  The shell
  scripts, the Python modules and the build files of the repository are outside this development.
\<close>

end
